(* ===== verification/Prelude.thy ===== *)
theory Prelude
  imports Main "HOL-Library.Word" "HOL-Library.Char_ord" "HOL-Library.List_Lexorder"
begin

text \<open>
  Shared vocabulary of the development: machine integers, strings as UTF-8 byte lists, and the
  operations of Rust's standard library that the gateway uses on them (\<open>str::trim\<close>,
  \<open>split\<close>, \<open>strip_prefix\<close>, \<open>find\<close>, \<open>parse\<close>, \<open>String::from_utf8_lossy\<close>, saturating
  arithmetic), with the lemmas that several components share.

  A Rust \<open>String\<close> or \<open>&str\<close> is the list of its UTF-8 bytes, so \<open>length\<close> is \<open>str::len\<close>;
  a \<open>&[u8]\<close> is the same type without the well-formedness. An Isabelle \<open>char\<close> is exactly one
  byte. A \<open>u64\<close> is a \<open>64 word\<close>; a \<open>usize\<close> that measures a list is a \<open>nat\<close>.
\<close>

section \<open>Collections\<close>

named_theorems str_simps \<open>rewriting of the string operations\<close>
named_theorems step_inv \<open>invariant preservation, one lemma per operation\<close>

section \<open>Machine integers\<close>

type_synonym bytes = "char list"
type_synonym u64 = "64 word"
type_synonym u32 = "32 word"

text \<open>\<open>usize::MAX\<close> on the 64-bit targets the gateway is built for.\<close>

definition usize_max :: nat where
  "usize_max = 2 ^ 64 - 1"

definition sat_add :: "nat \<Rightarrow> nat \<Rightarrow> nat" where
  "sat_add a b = min usize_max (a + b)"

definition sat_sub_u64 :: "u64 \<Rightarrow> u64 \<Rightarrow> u64" where
  "sat_sub_u64 a b = (if b \<le> a then a - b else 0)"

definition sat_add_u64 :: "u64 \<Rightarrow> u64 \<Rightarrow> u64" where
  "sat_add_u64 a b = (if unat a + unat b < 2 ^ 64 then a + b else - 1)"

lemma unat_sat_sub_u64 [simp]: "unat (sat_sub_u64 a b) = unat a - unat b"
  by (auto simp: sat_sub_u64_def unat_sub word_le_nat_alt)

lemma sat_sub_u64_le: "sat_sub_u64 a b \<le> a"
  by (simp add: word_le_nat_alt)

lemma sat_add_le: "a + b \<le> usize_max \<Longrightarrow> sat_add a b = a + b"
  by (simp add: sat_add_def)

lemma unat_sat_add_u64: "unat (sat_add_u64 a b) = min (2 ^ 64 - 1) (unat a + unat b)"
  by (auto simp: sat_add_u64_def unat_word_ariths unsigned_minus_1_eq_mask mask_eq_exp_minus_1)

section \<open>Options and searches\<close>

text \<open>The first element on which a partial reader answers (\<open>Iterator::find_map\<close>, and every
  \<open>for src in table { if let Some(v) = read(src) { return Some(v) } }\<close> of the source).\<close>

fun find_map :: "('a \<Rightarrow> 'b option) \<Rightarrow> 'a list \<Rightarrow> 'b option" where
  "find_map f [] = None"
| "find_map f (x # xs) = (case f x of Some y \<Rightarrow> Some y | None \<Rightarrow> find_map f xs)"

lemma find_map_None_iff: "find_map f xs = None \<longleftrightarrow> (\<forall>x\<in>set xs. f x = None)"
  by (induction xs) (auto split: option.splits)

lemma find_map_SomeD: "find_map f xs = Some y \<Longrightarrow> \<exists>x\<in>set xs. f x = Some y"
  by (induction xs) (auto split: option.splits)

lemma find_map_Some_split:
  "find_map f xs = Some y \<Longrightarrow>
     \<exists>us x vs. xs = us @ x # vs \<and> f x = Some y \<and> (\<forall>u\<in>set us. f u = None)"
proof (induction xs)
  case Nil
  then show ?case by simp
next
  case (Cons a xs)
  show ?case
  proof (cases "f a")
    case None
    with Cons obtain us x vs
      where "xs = us @ x # vs" "f x = Some y" "\<forall>u\<in>set us. f u = None"
      by auto
    with None have "a # xs = (a # us) @ x # vs \<and> f x = Some y \<and> (\<forall>u\<in>set (a # us). f u = None)"
      by simp
    then show ?thesis by blast
  next
    case (Some b)
    with Cons.prems have "a # xs = [] @ a # xs \<and> f a = Some y \<and> (\<forall>u\<in>set []. f u = None)"
      by simp
    then show ?thesis by blast
  qed
qed

lemma find_map_append:
  "find_map f (xs @ ys) = (case find_map f xs of Some y \<Rightarrow> Some y | None \<Rightarrow> find_map f ys)"
  by (induction xs) (auto split: option.splits)

lemma find_map_map_option: "map_option g (find_map f xs) = find_map (map_option g \<circ> f) xs"
  by (induction xs) (auto split: option.splits)

text \<open>\<open>Option::or_else\<close> and \<open>Option::filter\<close>.\<close>

definition or_else :: "'a option \<Rightarrow> 'a option \<Rightarrow> 'a option" where
  "or_else a b = (case a of Some x \<Rightarrow> Some x | None \<Rightarrow> b)"

definition opt_filter :: "('a \<Rightarrow> bool) \<Rightarrow> 'a option \<Rightarrow> 'a option" where
  "opt_filter p a = (case a of Some x \<Rightarrow> (if p x then Some x else None) | None \<Rightarrow> None)"

definition unwrap_or :: "'a \<Rightarrow> 'a option \<Rightarrow> 'a" where
  "unwrap_or d a = (case a of Some x \<Rightarrow> x | None \<Rightarrow> d)"

lemma or_else_simps [simp]: "or_else (Some x) b = Some x" "or_else None b = b"
  by (simp_all add: or_else_def)

lemma opt_filter_simps [simp]:
  "opt_filter p None = None" "opt_filter p (Some x) = (if p x then Some x else None)"
  by (simp_all add: opt_filter_def)

lemma opt_filter_eq_Some [simp]: "opt_filter p a = Some x \<longleftrightarrow> a = Some x \<and> p x"
  by (auto simp: opt_filter_def split: option.splits)

lemma unwrap_or_simps [simp]: "unwrap_or d None = d" "unwrap_or d (Some x) = x"
  by (simp_all add: unwrap_or_def)

text \<open>\<open>Iterator::max_by_key\<close>: the last of the elements with the largest key.\<close>

fun max_by_key :: "('a \<Rightarrow> nat) \<Rightarrow> 'a list \<Rightarrow> 'a option" where
  "max_by_key k [] = None"
| "max_by_key k (x # xs) = (case max_by_key k xs of
      None \<Rightarrow> Some x
    | Some y \<Rightarrow> (if k x \<le> k y then Some y else Some x))"

lemma max_by_key_mem: "max_by_key k xs = Some x \<Longrightarrow> x \<in> set xs"
  by (induction xs) (auto split: option.splits if_splits)

lemma max_by_key_None [simp]: "max_by_key k xs = None \<longleftrightarrow> xs = []"
  by (cases xs) (auto split: option.splits)

lemma max_by_key_max: "max_by_key k xs = Some x \<Longrightarrow> y \<in> set xs \<Longrightarrow> k y \<le> k x"
  by (induction xs arbitrary: x) (fastforce split: option.splits if_splits)+

lemma max_by_key_unique:
  "(\<And>x y. x \<in> set xs \<Longrightarrow> y \<in> set xs \<Longrightarrow> x = y) \<Longrightarrow> x \<in> set xs \<Longrightarrow> max_by_key k xs = Some x"
  by (metis max_by_key_None max_by_key_mem not_None_eq list.set_cases list.discI)

text \<open>\<open>Iterator::min_by_key\<close>: the first of the elements with the smallest key.\<close>

fun min_by_key :: "('a \<Rightarrow> 'k::linorder) \<Rightarrow> 'a list \<Rightarrow> 'a option" where
  "min_by_key k [] = None"
| "min_by_key k (x # xs) = (case min_by_key k xs of
      None \<Rightarrow> Some x
    | Some y \<Rightarrow> (if k y < k x then Some y else Some x))"

lemma min_by_key_mem: "min_by_key k xs = Some x \<Longrightarrow> x \<in> set xs"
  by (induction xs) (auto split: option.splits if_splits)

lemma min_by_key_None: "min_by_key k xs = None \<longleftrightarrow> xs = []"
  by (cases xs) (auto split: option.splits)

lemma min_by_key_min: "min_by_key k xs = Some x \<Longrightarrow> y \<in> set xs \<Longrightarrow> k x \<le> k y"
  by (induction xs arbitrary: x) (fastforce simp: min_by_key_None split: option.splits if_splits)+

section \<open>Strings\<close>

definition code :: "char \<Rightarrow> nat" where
  "code c = of_char c"

lemma code_less [simp]: "code c < 256"
  by (simp add: code_def)

definition starts_with :: "string \<Rightarrow> string \<Rightarrow> bool" where
  "starts_with s p \<longleftrightarrow> take (length p) s = p"

definition ends_with :: "string \<Rightarrow> string \<Rightarrow> bool" where
  "ends_with s p \<longleftrightarrow> length p \<le> length s \<and> drop (length s - length p) s = p"

definition strip_prefix :: "string \<Rightarrow> string \<Rightarrow> string option" where
  "strip_prefix s p = (if starts_with s p then Some (drop (length p) s) else None)"

definition strip_suffix :: "string \<Rightarrow> string \<Rightarrow> string option" where
  "strip_suffix s p = (if ends_with s p then Some (take (length s - length p) s) else None)"

lemma starts_with_iff: "starts_with s p \<longleftrightarrow> (\<exists>r. s = p @ r)"
  by (metis append_eq_conv_conj append_take_drop_id starts_with_def)

lemma starts_with_append [simp]: "starts_with (p @ r) p"
  by (auto simp: starts_with_iff)

lemma strip_prefix_Some: "strip_prefix s p = Some r \<longleftrightarrow> s = p @ r"
  by (auto simp: strip_prefix_def starts_with_iff)

lemma strip_prefix_append [simp]: "strip_prefix (p @ r) p = Some r"
  by (simp add: strip_prefix_Some)

lemma ends_with_iff: "ends_with s p \<longleftrightarrow> (\<exists>r. s = r @ p)"
proof
  assume "ends_with s p"
  then have "s = take (length s - length p) s @ p"
    by (metis append_take_drop_id ends_with_def)
  then show "\<exists>r. s = r @ p" ..
qed (auto simp: ends_with_def)

lemma strip_suffix_Some: "strip_suffix s p = Some r \<longleftrightarrow> s = r @ p"
proof -
  have "ends_with s p \<Longrightarrow> s = take (length s - length p) s @ p"
    by (metis append_take_drop_id ends_with_def)
  then show ?thesis
    by (auto simp: strip_suffix_def ends_with_iff)
qed

text \<open>\<open>str::split(c)\<close> for an ASCII separator: always at least one piece.\<close>

fun split_on :: "char \<Rightarrow> string \<Rightarrow> string list" where
  "split_on c [] = [[]]"
| "split_on c (x # xs) =
     (if x = c then [] # split_on c xs
      else (case split_on c xs of [] \<Rightarrow> [[x]] | y # ys \<Rightarrow> (x # y) # ys))"

lemma split_on_not_Nil [simp]: "split_on c s \<noteq> []"
  by (cases s) (auto split: list.splits)

lemma split_on_sep: "split_on c (xs @ c # ys) = split_on c xs @ split_on c ys"
  by (induction xs) (auto split: list.splits)

lemma split_on_no_sep: "c \<notin> set xs \<Longrightarrow> split_on c xs = [xs]"
  by (induction xs) (auto split: list.splits)

text \<open>\<open>slice::join\<close>.\<close>

fun join :: "string \<Rightarrow> string list \<Rightarrow> string" where
  "join sep [] = []"
| "join sep [x] = x"
| "join sep (x # y # ys) = x @ sep @ join sep (y # ys)"

lemma split_on_eq_Nil_False: "split_on c s = [] \<longleftrightarrow> False"
  by simp

lemma join_split_on [simp]: "join [c] (split_on c s) = s"
proof (induction s)
  case Nil
  then show ?case by simp
next
  case (Cons x s)
  obtain y ys where ys: "split_on c s = y # ys"
    by (cases "split_on c s") auto
  with Cons show ?case by (cases ys) auto
qed

text \<open>Substring search: \<open>str::contains\<close> and the byte offset of \<open>str::find\<close>.\<close>

fun find_sub :: "string \<Rightarrow> string \<Rightarrow> nat option" where
  "find_sub p [] = (if p = [] then Some 0 else None)"
| "find_sub p (x # xs) =
     (if starts_with (x # xs) p then Some 0 else map_option Suc (find_sub p xs))"

definition contains_sub :: "string \<Rightarrow> string \<Rightarrow> bool" where
  "contains_sub s p \<longleftrightarrow> find_sub p s \<noteq> None"

lemma find_sub_Some: "find_sub p s = Some i \<Longrightarrow> \<exists>u v. s = u @ p @ v \<and> length u = i"
proof (induction s arbitrary: i)
  case Nil
  then show ?case by (auto split: if_splits)
next
  case (Cons x xs)
  show ?case
  proof (cases "starts_with (x # xs) p")
    case True
    with Cons.prems show ?thesis by (auto simp: starts_with_iff)
  next
    case False
    with Cons.prems obtain j where j: "find_sub p xs = Some j" "i = Suc j"
      by auto
    from Cons.IH [OF j(1)] obtain u v where "xs = u @ p @ v" "length u = j"
      by blast
    with j(2) show ?thesis
      by (intro exI [of _ "x # u"] exI [of _ v]) simp
  qed
qed

lemma find_sub_append: "find_sub p (u @ p @ v) \<noteq> None"
proof (induction u)
  case Nil
  then show ?case by (cases p; cases v) (auto simp: starts_with_iff)
next
  case (Cons x u)
  then show ?case by auto
qed

lemma contains_sub_iff: "contains_sub s p \<longleftrightarrow> (\<exists>u v. s = u @ p @ v)"
  by (metis contains_sub_def find_sub_Some find_sub_append not_None_eq)

text \<open>\<open>str::split_once\<close> and \<open>str::rsplit_once\<close>.\<close>

definition split_once :: "string \<Rightarrow> string \<Rightarrow> (string \<times> string) option" where
  "split_once s p = map_option (\<lambda>i. (take i s, drop (i + length p) s)) (find_sub p s)"

fun rsplit_once :: "string \<Rightarrow> char \<Rightarrow> (string \<times> string) option" where
  "rsplit_once [] c = None"
| "rsplit_once (x # xs) c = (case rsplit_once xs c of
      Some (a, b) \<Rightarrow> Some (x # a, b)
    | None \<Rightarrow> (if x = c then Some ([], xs) else None))"

lemma rsplit_once_None: "rsplit_once s c = None \<longleftrightarrow> c \<notin> set s"
  by (induction s) (auto split: option.splits)

lemma rsplit_once_sep: "c \<notin> set b \<Longrightarrow> rsplit_once (a @ c # b) c = Some (a, b)"
proof (induction a)
  case Nil
  then have "rsplit_once b c = None" by (simp add: rsplit_once_None)
  then show ?case by simp
qed simp

lemma rsplit_once_SomeD: "rsplit_once s c = Some (a, b) \<Longrightarrow> s = a @ c # b \<and> c \<notin> set b"
proof (induction s arbitrary: a)
  case Nil
  then show ?case by simp
next
  case (Cons x s)
  show ?case
  proof (cases "rsplit_once s c")
    case None
    then have "c \<notin> set s" by (simp add: rsplit_once_None)
    with None Cons.prems show ?thesis by (auto split: if_splits)
  next
    case (Some ab)
    obtain a' b' where ab: "ab = (a', b')" by (cases ab)
    with Some Cons.prems have "a = x # a'" "b = b'" by auto
    with Some ab Cons.IH [of a'] show ?thesis by simp
  qed
qed

lemma rsplit_once_Some: "rsplit_once s c = Some (a, b) \<longleftrightarrow> s = a @ c # b \<and> c \<notin> set b"
  using rsplit_once_SomeD rsplit_once_sep by metis

lemma split_once_Some: "split_once s p = Some (a, b) \<Longrightarrow> s = a @ p @ b"
proof -
  assume "split_once s p = Some (a, b)"
  then obtain i where i: "find_sub p s = Some i" "a = take i s" "b = drop (i + length p) s"
    by (auto simp: split_once_def)
  from find_sub_Some [OF i(1)] obtain u v where "s = u @ p @ v" "length u = i"
    by blast
  with i(2,3) show ?thesis by simp
qed

text \<open>
  \<open>str::trim\<close> strips the characters with the Unicode property White_Space; the table lists their
  UTF-8 encodings. Because UTF-8 is self-synchronising, stripping one of these byte strings off
  either end of a valid string strips exactly one character.
\<close>

definition white_space :: "string list" where
  "white_space =
     [[CHR 0x09], [CHR 0x0A], [CHR 0x0B], [CHR 0x0C], [CHR 0x0D], [CHR 0x20],
      [CHR 0xC2, CHR 0x85], [CHR 0xC2, CHR 0xA0], [CHR 0xE1, CHR 0x9A, CHR 0x80],
      [CHR 0xE2, CHR 0x80, CHR 0x80], [CHR 0xE2, CHR 0x80, CHR 0x81], [CHR 0xE2, CHR 0x80, CHR 0x82],
      [CHR 0xE2, CHR 0x80, CHR 0x83], [CHR 0xE2, CHR 0x80, CHR 0x84], [CHR 0xE2, CHR 0x80, CHR 0x85],
      [CHR 0xE2, CHR 0x80, CHR 0x86], [CHR 0xE2, CHR 0x80, CHR 0x87], [CHR 0xE2, CHR 0x80, CHR 0x88],
      [CHR 0xE2, CHR 0x80, CHR 0x89], [CHR 0xE2, CHR 0x80, CHR 0x8A], [CHR 0xE2, CHR 0x80, CHR 0xA8],
      [CHR 0xE2, CHR 0x80, CHR 0xA9], [CHR 0xE2, CHR 0x80, CHR 0xAF], [CHR 0xE2, CHR 0x81, CHR 0x9F],
      [CHR 0xE3, CHR 0x80, CHR 0x80]]"

definition strip_head :: "string list \<Rightarrow> string \<Rightarrow> string option" where
  "strip_head W s = find_map (\<lambda>w. if w = [] then None else strip_prefix s w) W"

lemma strip_head_shorter: "strip_head W s = Some r \<Longrightarrow> length r < length s"
  by (auto simp: strip_head_def strip_prefix_Some dest!: find_map_SomeD split: if_splits)

function trim_start_of :: "string list \<Rightarrow> string \<Rightarrow> string" where
  "trim_start_of W s = (case strip_head W s of None \<Rightarrow> s | Some r \<Rightarrow> trim_start_of W r)"
  by pat_completeness auto
termination
  by (relation "measure (\<lambda>(W, s). length s)") (auto dest: strip_head_shorter)

declare trim_start_of.simps [simp del]

definition trim :: "string \<Rightarrow> string" where
  "trim s = rev (trim_start_of (map rev white_space) (rev (trim_start_of white_space s)))"

lemma trim_start_of_fixed: "strip_head W (trim_start_of W s) = None"
proof (induction W s rule: trim_start_of.induct)
  case (1 W s)
  show ?case
  proof (cases "strip_head W s")
    case None
    then show ?thesis by (subst trim_start_of.simps) simp
  next
    case (Some r)
    with 1 show ?thesis by (subst trim_start_of.simps) simp
  qed
qed

lemma trim_start_of_id: "strip_head W s = None \<Longrightarrow> trim_start_of W s = s"
  by (subst trim_start_of.simps) simp

lemma trim_start_of_suffix: "\<exists>u. s = u @ trim_start_of W s"
proof (induction W s rule: trim_start_of.induct)
  case (1 W s)
  show ?case
  proof (cases "strip_head W s")
    case None
    then show ?thesis by (simp add: trim_start_of_id)
  next
    case (Some r)
    then obtain w where w: "s = w @ r"
      by (auto simp: strip_head_def strip_prefix_Some dest!: find_map_SomeD split: if_splits)
    from 1 [OF Some] obtain u where "r = u @ trim_start_of W r" by blast
    moreover have "trim_start_of W s = trim_start_of W r"
      using Some by (subst trim_start_of.simps) simp
    ultimately have "s = (w @ u) @ trim_start_of W s"
      using w by simp
    then show ?thesis by blast
  qed
qed

lemma strip_head_None: "strip_head W s = None \<longleftrightarrow> (\<forall>w\<in>set W. w \<noteq> [] \<longrightarrow> \<not> starts_with s w)"
  by (auto simp: strip_head_def find_map_None_iff strip_prefix_def split: if_splits)

text \<open>Trimming is idempotent: what is left starts and ends with no white space.\<close>

lemma trim_trim [simp]: "trim (trim s) = trim s"
proof -
  let ?a = "trim_start_of white_space s"
  let ?b = "trim_start_of (map rev white_space) (rev ?a)"
  obtain u where u: "rev ?a = u @ ?b"
    using trim_start_of_suffix by blast
  then have a: "?a = rev ?b @ rev u"
    by (metis rev_append rev_rev_ident)
  have "strip_head white_space (rev ?b) = None"
    unfolding strip_head_None
  proof (intro ballI impI)
    fix w assume w: "w \<in> set white_space" "w \<noteq> []"
    then have "\<not> starts_with ?a w"
      using trim_start_of_fixed [of white_space s] by (auto simp: strip_head_None)
    then show "\<not> starts_with (rev ?b) w"
      by (subst (asm) a) (auto simp: starts_with_iff)
  qed
  then have "trim_start_of white_space (rev ?b) = rev ?b"
    by (rule trim_start_of_id)
  moreover have "trim_start_of (map rev white_space) ?b = ?b"
    by (rule trim_start_of_id) (rule trim_start_of_fixed)
  ultimately show ?thesis by (simp add: trim_def)
qed

lemma length_trim_le: "length (trim s) \<le> length s"
proof -
  have "\<And>W t. length (trim_start_of W t) \<le> length t"
    by (metis length_append trim_start_of_suffix le_add2)
  then have "length (trim s) \<le> length (rev (trim_start_of white_space s))"
    unfolding trim_def by (metis length_rev)
  also have "\<dots> \<le> length s"
    using \<open>\<And>W t. length (trim_start_of W t) \<le> length t\<close> by simp
  finally show ?thesis .
qed

text \<open>\<open>str::trim_end_matches(c)\<close>.\<close>

definition trim_end_char :: "char \<Rightarrow> string \<Rightarrow> string" where
  "trim_end_char c s = rev (dropWhile (\<lambda>x. x = c) (rev s))"

text \<open>Character classes and ASCII case.\<close>

definition is_digit :: "char \<Rightarrow> bool" where
  "is_digit c \<longleftrightarrow> 48 \<le> code c \<and> code c \<le> 57"

definition is_hex :: "char \<Rightarrow> bool" where
  "is_hex c \<longleftrightarrow> is_digit c \<or> (65 \<le> code c \<and> code c \<le> 70) \<or> (97 \<le> code c \<and> code c \<le> 102)"

definition to_lower :: "char \<Rightarrow> char" where
  "to_lower c = (if 65 \<le> code c \<and> code c \<le> 90 then char_of (code c + 32) else c)"

definition ascii_lower :: "string \<Rightarrow> string" where
  "ascii_lower s = map to_lower s"

definition eq_ignore_case :: "string \<Rightarrow> string \<Rightarrow> bool" where
  "eq_ignore_case a b \<longleftrightarrow> ascii_lower a = ascii_lower b"

lemma code_char_of [simp]: "n < 256 \<Longrightarrow> code (char_of n) = n"
  by (simp add: code_def of_char_of)

lemma code_char_of_mod: "code (char_of n) = n mod 256"
  by (simp add: code_def of_char_of)

lemma char_of_code [simp]: "char_of (code c) = c"
  by (simp add: code_def)

lemma code_inj: "code a = code b \<longleftrightarrow> a = b"
  by (metis char_of_code)

lemma to_lower_idem [simp]: "to_lower (to_lower c) = to_lower c"
  by (auto simp: to_lower_def)

lemma ascii_lower_idem [simp]: "ascii_lower (ascii_lower s) = ascii_lower s"
  by (simp add: ascii_lower_def)

lemma length_ascii_lower [simp]: "length (ascii_lower s) = length s"
  by (simp add: ascii_lower_def)

text \<open>Decimal digits: \<open>to_string\<close> of an unsigned integer, and \<open>str::parse\<close> for a bounded
  unsigned type (Rust accepts one leading plus sign, and refuses the empty digit string).\<close>

fun show_nat :: "nat \<Rightarrow> string" where
  "show_nat n = (if n < 10 then [char_of (48 + n)] else show_nat (n div 10) @ [char_of (48 + n mod 10)])"

declare show_nat.simps [simp del]

definition digits_value :: "string \<Rightarrow> nat" where
  "digits_value s = foldl (\<lambda>a c. 10 * a + (code c - 48)) 0 s"

definition parse_uint :: "nat \<Rightarrow> string \<Rightarrow> nat option" where
  "parse_uint maxv s =
     (let d = (case s of [] \<Rightarrow> [] | c # r \<Rightarrow> (if c = CHR ''+'' then r else s))
      in if d \<noteq> [] \<and> list_all is_digit d \<and> digits_value d \<le> maxv then Some (digits_value d) else None)"

lemma show_nat_digits: "list_all is_digit (show_nat n) \<and> show_nat n \<noteq> []"
proof (induction n rule: show_nat.induct)
  case (1 n)
  show ?case
  proof (cases "n < 10")
    case True
    then show ?thesis by (subst (1 2) show_nat.simps) (simp add: is_digit_def)
  next
    case False
    with 1 have IH: "list_all is_digit (show_nat (n div 10))" by blast
    have "n mod 10 < 10" by simp
    then have "is_digit (char_of (48 + n mod 10))" by (simp add: is_digit_def)
    with False IH show ?thesis by (subst (1 2) show_nat.simps) simp
  qed
qed

lemma digits_value_show_nat [simp]: "digits_value (show_nat n) = n"
proof (induction n rule: show_nat.induct)
  case (1 n)
  show ?case
  proof (cases "n < 10")
    case True
    then show ?thesis by (subst show_nat.simps) (simp add: digits_value_def)
  next
    case False
    have "n mod 10 < 10" by simp
    then have "code (char_of (48 + n mod 10)) = 48 + n mod 10" by simp
    with False 1 show ?thesis by (subst show_nat.simps) (simp add: digits_value_def)
  qed
qed

lemma parse_uint_show_nat: "n \<le> maxv \<Longrightarrow> parse_uint maxv (show_nat n) = Some n"
proof -
  assume n: "n \<le> maxv"
  obtain c r where cr: "show_nat n = c # r"
    using show_nat_digits by (cases "show_nat n") auto
  then have "is_digit c" using show_nat_digits [of n] by simp
  then have "c \<noteq> CHR ''+''" by (auto simp: is_digit_def code_def)
  with cr n show ?thesis
    using show_nat_digits [of n] digits_value_show_nat [of n] by (simp add: parse_uint_def)
qed

lemma length_show_nat: "n < 10 ^ k \<Longrightarrow> 0 < k \<Longrightarrow> length (show_nat n) \<le> k"
proof (induction k arbitrary: n)
  case 0
  then show ?case by simp
next
  case (Suc k)
  show ?case
  proof (cases "n < 10")
    case True
    then show ?thesis by (subst show_nat.simps) simp
  next
    case False
    then have "0 < k" using Suc.prems by (cases k) auto
    moreover have "n div 10 < 10 ^ k" using Suc.prems(1) by (simp add: less_mult_imp_div_less mult.commute)
    ultimately have "length (show_nat (n div 10)) \<le> k" by (intro Suc.IH)
    with False show ?thesis by (subst show_nat.simps) simp
  qed
qed

lemma show_nat_inj: "show_nat m = show_nat n \<longleftrightarrow> m = n"
  by (metis digits_value_show_nat)

section \<open>Bytes of numbers\<close>

text \<open>\<open>to_be_bytes\<close> of an unsigned integer of \<open>n\<close> bytes, and \<open>hex::encode\<close>.\<close>

definition be_bytes :: "nat \<Rightarrow> nat \<Rightarrow> bytes" where
  "be_bytes n v = map (\<lambda>i. char_of (v div 256 ^ (n - 1 - i) mod 256)) [0..<n]"

definition hex_digit :: "nat \<Rightarrow> char" where
  "hex_digit d = (if d < 10 then char_of (48 + d) else char_of (87 + d))"

definition hex_encode :: "bytes \<Rightarrow> string" where
  "hex_encode bs = concat (map (\<lambda>b. [hex_digit (code b div 16), hex_digit (code b mod 16)]) bs)"

lemma length_be_bytes [simp]: "length (be_bytes n v) = n"
  by (simp add: be_bytes_def)

lemma length_hex_encode [simp]: "length (hex_encode bs) = 2 * length bs"
  by (induction bs) (simp_all add: hex_encode_def)

end
