(* ===== verification/Json.thy ===== *)
theory Json
  imports Prelude
begin

text \<open>
  The view the gateway has of \<open>serde_json::Value\<close>: the public enum with its documented readers
  (\<open>get\<close>, \<open>as_str\<close>, \<open>as_array\<close>, \<open>as_object\<close>, \<open>as_u64\<close>, the indexing operator that answers
  \<open>Null\<close> on a miss). The crate is not part of the repository: its parser and its printer are
  parameters of the model (\<open>parse\<close> and \<open>render\<close>) wherever the code calls them.

  An object is a \<open>BTreeMap\<close> (the \<open>preserve_order\<close> feature is off), so it is the list of its
  entries in increasing key order. A number is one of serde's three documented kinds; the digits
  of a float are kept as text and never interpreted, as in the source.
\<close>

datatype jnum = PosInt u64 | NegInt int | Float string

datatype json =
    JNull
  | JBool bool
  | JNumber jnum
  | JString string
  | JArray "json list"
  | JObject "(string \<times> json) list"

fun as_str :: "json \<Rightarrow> string option" where
  "as_str (JString s) = Some s"
| "as_str _ = None"

fun as_array :: "json \<Rightarrow> json list option" where
  "as_array (JArray xs) = Some xs"
| "as_array _ = None"

fun as_object :: "json \<Rightarrow> (string \<times> json) list option" where
  "as_object (JObject m) = Some m"
| "as_object _ = None"

fun as_u64 :: "json \<Rightarrow> u64 option" where
  "as_u64 (JNumber (PosInt n)) = Some n"
| "as_u64 _ = None"

fun is_null :: "json \<Rightarrow> bool" where
  "is_null JNull = True"
| "is_null _ = False"

fun jget :: "json \<Rightarrow> string \<Rightarrow> json option" where
  "jget (JObject m) k = map_of m k"
| "jget _ k = None"

fun jget_idx :: "json \<Rightarrow> nat \<Rightarrow> json option" where
  "jget_idx (JArray xs) i = (if i < length xs then Some (xs ! i) else None)"
| "jget_idx _ i = None"

text \<open>\<open>v["key"]\<close>, \<open>v[0]\<close> and \<open>v["key"] == "text"\<close>.\<close>

definition jat :: "json \<Rightarrow> string \<Rightarrow> json" where
  "jat v k = unwrap_or JNull (jget v k)"

definition jat_idx :: "json \<Rightarrow> nat \<Rightarrow> json" where
  "jat_idx v i = unwrap_or JNull (jget_idx v i)"

definition str_eq :: "json \<Rightarrow> string \<Rightarrow> bool" where
  "str_eq v s \<longleftrightarrow> as_str v = Some s"

definition str_or_empty :: "json \<Rightarrow> string" where
  "str_or_empty v = unwrap_or [] (as_str v)"

text \<open>\<open>Map::insert\<close>.\<close>

fun obj_insert :: "string \<Rightarrow> json \<Rightarrow> (string \<times> json) list \<Rightarrow> (string \<times> json) list" where
  "obj_insert k v [] = [(k, v)]"
| "obj_insert k v ((k', v') # m) =
     (if k = k' then (k, v) # m
      else if k < k' then (k, v) # (k', v') # m
      else (k', v') # obj_insert k v m)"

lemma map_of_obj_insert: "map_of (obj_insert k v m) = (map_of m)(k \<mapsto> v)"
  by (induction k v m rule: obj_insert.induct) auto

lemma obj_insert_not_Nil [simp]: "obj_insert k v m \<noteq> []"
  by (induction k v m rule: obj_insert.induct) auto

lemma fst_obj_insert: "fst ` set (obj_insert k v m) = insert k (fst ` set m)"
  by (induction k v m rule: obj_insert.induct) auto

lemma sorted_obj_insert:
  "sorted_wrt (<) (map fst m) \<Longrightarrow> sorted_wrt (<) (map fst (obj_insert k v m))"
proof (induction k v m rule: obj_insert.induct)
  case (1 k v)
  then show ?case by simp
next
  case (2 k v k' v' m)
  have "\<And>x. x \<in> fst ` set m \<Longrightarrow> k' < x" using 2(2) by auto
  with 2 fst_obj_insert [of k v m] show ?case
    by (auto intro: less_trans)
qed

lemma jat_JObject [simp]: "jat (JObject m) k = unwrap_or JNull (map_of m k)"
  by (simp add: jat_def)

lemma jat_miss [simp]:
  "jat JNull k = JNull" "jat (JString s) k = JNull" "jat (JBool b) k = JNull"
  "jat (JNumber n) k = JNull" "jat (JArray xs) k = JNull"
  by (simp_all add: jat_def)

lemma jat_idx_JArray [simp]:
  "jat_idx (JArray xs) i = (if i < length xs then xs ! i else JNull)"
  by (simp add: jat_idx_def)

lemma str_eq_simps [simp]:
  "str_eq (JString a) b \<longleftrightarrow> a = b" "\<not> str_eq JNull b" "\<not> str_eq (JArray xs) b"
  "\<not> str_eq (JObject m) b" "\<not> str_eq (JBool t) b" "\<not> str_eq (JNumber n) b"
  by (simp_all add: str_eq_def)

lemma str_or_empty_simps [simp]:
  "str_or_empty (JString a) = a" "str_or_empty JNull = []" "str_or_empty (JArray xs) = []"
  "str_or_empty (JObject m) = []" "str_or_empty (JBool t) = []" "str_or_empty (JNumber n) = []"
  by (simp_all add: str_or_empty_def)

lemma as_str_Some: "as_str v = Some s \<longleftrightarrow> v = JString s"
  by (cases v) auto

lemma as_array_Some: "as_array v = Some xs \<longleftrightarrow> v = JArray xs"
  by (cases v) auto

lemma as_object_Some: "as_object v = Some m \<longleftrightarrow> v = JObject m"
  by (cases v) auto

lemma jget_Some: "jget v k = Some x \<longleftrightarrow> (\<exists>m. v = JObject m \<and> map_of m k = Some x)"
  by (cases v) auto

end
