(* ===== verification/Model.thy ===== *)
theory Model
  imports Json
begin

text \<open>
  The crate \<open>atg-model\<close>: the vocabulary of attribute keys, the token-usage buckets with their
  merge, and the record of one completed turn. \<open>turn_record\<close> has the fields of \<open>TurnRecord\<close> in
  the source's order; \<open>default_turn\<close> is its derived \<open>Default\<close>.
\<close>

section \<open>Vocabulary\<close>

definition langfuse_trace_name :: string where
  "langfuse_trace_name = ''agent.turn''"

definition langfuse_trace_tag :: string where
  "langfuse_trace_tag = ''line:atg''"

definition resolve_trace_tag :: "string option \<Rightarrow> string" where
  "resolve_trace_tag env =
     (case env of
        Some v \<Rightarrow> (if trim v \<noteq> [] then trim v else langfuse_trace_tag)
      | None \<Rightarrow> langfuse_trace_tag)"

lemma resolve_trace_tag_nonempty: "resolve_trace_tag env \<noteq> []"
  by (auto simp: resolve_trace_tag_def langfuse_trace_tag_def split: option.splits)

section \<open>Token usage\<close>

record turn_usage =
  input_tokens :: "u64 option"
  output_tokens :: "u64 option"
  cache_read_tokens :: "u64 option"
  cache_creation_tokens :: "u64 option"
  total_tokens :: "u64 option"

definition no_usage :: turn_usage where
  "no_usage = \<lparr>input_tokens = None, output_tokens = None, cache_read_tokens = None,
     cache_creation_tokens = None, total_tokens = None\<rparr>"

definition usage_is_empty :: "turn_usage \<Rightarrow> bool" where
  "usage_is_empty u \<longleftrightarrow>
     input_tokens u = None \<and> output_tokens u = None \<and> cache_read_tokens u = None
     \<and> cache_creation_tokens u = None \<and> total_tokens u = None"

text \<open>The fields a frame reports win, the others keep the accumulated value.\<close>

definition merge_usage :: "turn_usage option \<Rightarrow> turn_usage \<Rightarrow> turn_usage option" where
  "merge_usage acc nxt =
     (case acc of
        None \<Rightarrow> Some nxt
      | Some cur \<Rightarrow>
          let cur = (if input_tokens nxt \<noteq> None
                     then cur\<lparr>input_tokens := input_tokens nxt\<rparr> else cur);
              cur = (if output_tokens nxt \<noteq> None
                     then cur\<lparr>output_tokens := output_tokens nxt\<rparr> else cur);
              cur = (if cache_read_tokens nxt \<noteq> None
                     then cur\<lparr>cache_read_tokens := cache_read_tokens nxt\<rparr> else cur);
              cur = (if cache_creation_tokens nxt \<noteq> None
                     then cur\<lparr>cache_creation_tokens := cache_creation_tokens nxt\<rparr> else cur);
              cur = (if total_tokens nxt \<noteq> None
                     then cur\<lparr>total_tokens := total_tokens nxt\<rparr> else cur)
          in Some cur)"

lemma merge_usage_fields:
  "merge_usage acc nxt = Some u \<Longrightarrow>
     input_tokens u = or_else (input_tokens nxt) (Option.bind acc input_tokens) \<and>
     output_tokens u = or_else (output_tokens nxt) (Option.bind acc output_tokens) \<and>
     cache_read_tokens u = or_else (cache_read_tokens nxt) (Option.bind acc cache_read_tokens) \<and>
     cache_creation_tokens u =
       or_else (cache_creation_tokens nxt) (Option.bind acc cache_creation_tokens) \<and>
     total_tokens u = or_else (total_tokens nxt) (Option.bind acc total_tokens)"
  by (cases acc) (auto simp: merge_usage_def Let_def or_else_def split: option.splits)

lemma merge_usage_eq:
  "merge_usage (Some cur) nxt = Some
     \<lparr>input_tokens = or_else (input_tokens nxt) (input_tokens cur),
      output_tokens = or_else (output_tokens nxt) (output_tokens cur),
      cache_read_tokens = or_else (cache_read_tokens nxt) (cache_read_tokens cur),
      cache_creation_tokens = or_else (cache_creation_tokens nxt) (cache_creation_tokens cur),
      total_tokens = or_else (total_tokens nxt) (total_tokens cur)\<rparr>"
  by (cases cur; cases nxt) (auto simp: merge_usage_def Let_def or_else_def split: option.splits)

lemma merge_usage_Some: "merge_usage acc nxt \<noteq> None"
  by (auto simp: merge_usage_def Let_def split: option.splits)

text \<open>\<open>usage_details_json\<close>: an object with the non-zero buckets; \<open>put\<close> is the closure of the
  source that inserts one bucket into the map under construction.\<close>

definition put_detail ::
  "string \<Rightarrow> u64 option \<Rightarrow> (string \<times> json) list \<Rightarrow> (string \<times> json) list" where
  "put_detail key val detail =
     (case opt_filter (\<lambda>v. v > 0) val of
        Some v \<Rightarrow> obj_insert key (JNumber (PosInt v)) detail
      | None \<Rightarrow> detail)"

definition usage_details :: "turn_usage \<Rightarrow> (string \<times> json) list" where
  "usage_details usage =
     put_detail ''total'' (total_tokens usage)
      (put_detail ''cache_creation_input_tokens'' (cache_creation_tokens usage)
       (put_detail ''cache_read_input_tokens'' (cache_read_tokens usage)
        (put_detail ''output'' (output_tokens usage)
         (put_detail ''input'' (input_tokens usage) []))))"

definition usage_details_json :: "(json \<Rightarrow> string) \<Rightarrow> turn_usage \<Rightarrow> string" where
  "usage_details_json render usage = render (JObject (usage_details usage))"

lemma map_of_put_detail:
  "map_of (put_detail k v m) =
     (case opt_filter (\<lambda>v. v > 0) v of
        Some n \<Rightarrow> (map_of m)(k \<mapsto> JNumber (PosInt n)) | None \<Rightarrow> map_of m)"
  by (auto simp: put_detail_def map_of_obj_insert split: option.splits)

lemma put_detail_eq_Nil: "put_detail k v m = [] \<longleftrightarrow> m = [] \<and> (v = None \<or> v = Some 0)"
  by (cases v) (auto simp: put_detail_def word_gt_0)

lemma sorted_put_detail:
  "sorted_wrt (<) (map fst m) \<Longrightarrow> sorted_wrt (<) (map fst (put_detail k v m))"
  by (auto simp: put_detail_def sorted_obj_insert split: option.splits)

text \<open>The buckets, by key: present exactly when reported and non-zero.\<close>

definition bucket :: "turn_usage \<Rightarrow> string \<Rightarrow> u64 option" where
  "bucket u k =
     (if k = ''input'' then input_tokens u
      else if k = ''output'' then output_tokens u
      else if k = ''cache_read_input_tokens'' then cache_read_tokens u
      else if k = ''cache_creation_input_tokens'' then cache_creation_tokens u
      else if k = ''total'' then total_tokens u
      else None)"

lemma usage_details_lookup:
  "map_of (usage_details u) k =
     map_option (\<lambda>n. JNumber (PosInt n)) (opt_filter (\<lambda>v. v > 0) (bucket u k))"
  by (auto simp: usage_details_def map_of_put_detail bucket_def split: option.splits)

lemma usage_details_sorted: "sorted_wrt (<) (map fst (usage_details u))"
  unfolding usage_details_def by (intro sorted_put_detail) simp

lemma usage_details_Nil:
  "usage_details u = [] \<longleftrightarrow>
     (\<forall>b \<in> {input_tokens u, output_tokens u, cache_read_tokens u, cache_creation_tokens u,
             total_tokens u}. b = None \<or> b = Some 0)"
  by (auto simp: usage_details_def put_detail_eq_Nil)

section \<open>Turn records\<close>

record tool_call =
  tc_name :: string
  tc_arguments :: string

record turn_record =
  protocol :: string
  session_id :: string
  user_input :: string
  final_output :: string
  raw_request :: string
  raw_response :: string
  tool_calls :: "tool_call list"
  breakpoint :: bool
  start_ns :: u64
  end_ns :: u64
  usage :: "turn_usage option"
  model_name :: string
  user_id :: string
  turn_error :: "string option"
  harness :: string
  dialect :: string
  client_ua :: string
  hdr_evidence :: "(string \<times> string) list"
  session_source :: string
  cancelled :: bool
  drain_timed_out :: bool
  api_key_fp :: string
  harness_candidates :: "string list"
  harness_anomaly :: bool
  harness_enrich :: "(string \<times> string) list"
  session_synthetic :: bool
  completion_start_ns :: "u64 option"
  trace_tag :: string

definition default_turn :: turn_record where
  "default_turn = \<lparr>protocol = [], session_id = [], user_input = [], final_output = [],
     raw_request = [], raw_response = [], tool_calls = [], breakpoint = False, start_ns = 0,
     end_ns = 0, usage = None, model_name = [], user_id = [], turn_error = None, harness = [],
     dialect = [], client_ua = [], hdr_evidence = [], session_source = [], cancelled = False,
     drain_timed_out = False, api_key_fp = [], harness_candidates = [], harness_anomaly = False,
     harness_enrich = [], session_synthetic = False, completion_start_ns = None, trace_tag = []\<rparr>"

end
