(* ===== verification/Protocol.thy ===== *)
theory Protocol
  imports Model
begin

text \<open>
  \<open>crates/atg-protocol/src/lib.rs\<close>: the types of the protocol tables and the generic evaluators
  over one table row (path reading, content flattening, session and identity sources, user input,
  final output). The tables themselves and the path detection over them are in
  \<open>Descriptors\<close>. A function pointer of a descriptor is a function field of the record.
\<close>

section \<open>Table types\<close>

datatype loc = LocBody | LocHeader

datatype sem = SessionRoot | StableAffinity | ResponseChain | EndUser

datatype input_shape = ShapeMessages | ShapeResponses

datatype tool_call_strategy = DoneItems | DeltaAssembly | ChunkedToolCalls

datatype sse_action =
    TextAt "string list"
  | ToolOpen
  | ToolArg
  | ToolClose
  | ToolDone
  | ToolChunk

record sse_rule =
  on :: string
  data_type :: "string option"
  delta_type :: "string option"
  action :: sse_action

record usage_frame =
  on_event :: "string option"
  obj_path :: "string list"

record turn_markers =
  marker_start :: string
  marker_end :: string

record usage_shape =
  shape_input :: "string list list"
  shape_output :: "string list list"
  shape_cache_read :: "string list list"
  shape_cache_write :: "string list list"

datatype token_inclusion = Inclusive | Exclusive

record body_source =
  src_path :: "string list"
  two_form :: bool
  transform :: "(string \<Rightarrow> string option) option"

record descriptor =
  d_name :: string
  path_prefixes :: "string list"
  loose_endpoints :: "string list"
  messages_path :: "string option"
  in_shape :: input_shape
  user_input_fn :: "(json \<Rightarrow> string option) option"
  final_output_fn :: "(json \<Rightarrow> string option) option"
  body_sources :: "body_source list"
  header_sources :: "string list"
  chain_sources :: "string list"
  user_sources :: "string list"
  sse_rules :: "sse_rule list"
  tool_strategy :: tool_call_strategy
  usage_frames :: "usage_frame list"
  usage_shp :: usage_shape
  usage_inclusion :: token_inclusion
  final_output_path :: "string list"
  stitch_eligible :: bool
  markers :: "turn_markers option"
  nonstreaming_tools :: "(json \<Rightarrow> tool_call list) option"

record path_match =
  pm_descriptor :: descriptor
  loose :: bool

definition LOOSE_SUBRESOURCES :: "string list" where
  "LOOSE_SUBRESOURCES = [''count_tokens'']"

section \<open>Reading a value\<close>

definition resolve_step :: "json \<Rightarrow> string \<Rightarrow> json" where
  "resolve_step cur key =
     (case cur of
        JArray arr \<Rightarrow>
          unwrap_or JNull
            (Option.bind (parse_uint usize_max key)
              (\<lambda>i. if i < length arr then Some (arr ! i) else None))
      | _ \<Rightarrow> unwrap_or JNull (jget cur key))"

definition resolve_path :: "json \<Rightarrow> string list \<Rightarrow> json" where
  "resolve_path v path = foldl resolve_step v path"

fun read_path :: "json \<Rightarrow> string list \<Rightarrow> string option" where
  "read_path cur [] = as_str cur"
| "read_path cur (key # path) = Option.bind (jget cur key) (\<lambda>c. read_path c path)"

definition text_blocks :: "json list \<Rightarrow> string list" where
  "text_blocks blocks = List.map_filter (\<lambda>b. as_str (jat b ''text'')) blocks"

definition newline :: string where
  "newline = [CHR 0x0A]"

definition content_text :: "json \<Rightarrow> string option" where
  "content_text content =
     (case as_str content of
        Some s \<Rightarrow> opt_filter (\<lambda>s. s \<noteq> []) (Some s)
      | None \<Rightarrow>
         (case as_array content of
            Some blocks \<Rightarrow>
              (let out = text_blocks blocks
               in if out \<noteq> [] then Some (join newline out) else None)
          | None \<Rightarrow> None))"

lemma resolve_path_Nil [simp]: "resolve_path v [] = v"
  by (simp add: resolve_path_def)

lemma resolve_path_Cons [simp]: "resolve_path v (k # ks) = resolve_path (resolve_step v k) ks"
  by (simp add: resolve_path_def)

lemma resolve_step_JObject [simp]: "resolve_step (JObject m) k = unwrap_or JNull (map_of m k)"
  by (simp add: resolve_step_def)

lemma resolve_step_leaf [simp]:
  "resolve_step JNull k = JNull" "resolve_step (JString s) k = JNull"
  "resolve_step (JBool b) k = JNull" "resolve_step (JNumber n) k = JNull"
  by (simp_all add: resolve_step_def)

lemma resolve_step_show_nat:
  "i \<le> usize_max \<Longrightarrow>
     resolve_step (JArray arr) (show_nat i) = (if i < length arr then arr ! i else JNull)"
  by (simp add: resolve_step_def parse_uint_show_nat)

lemma resolve_path_JNull [simp]: "resolve_path JNull p = JNull"
  by (induction p) simp_all

section \<open>Session and identity sources\<close>

text \<open>The two-form reader: with \<open>two_form\<close> a plain string or an object with an \<open>id\<close>.\<close>

definition read_source :: "json \<Rightarrow> body_source \<Rightarrow> string option" where
  "read_source body src =
     (let v = resolve_path body (src_path src);
          raw = (if two_form src then or_else (as_str v) (as_str (jat v ''id'')) else as_str v)
      in Option.bind (opt_filter (\<lambda>s. s \<noteq> []) (map_option trim raw))
           (\<lambda>raw. case transform src of Some f \<Rightarrow> f raw | None \<Rightarrow> Some raw))"

definition session_from_body_with_source ::
  "descriptor \<Rightarrow> json \<Rightarrow> (string \<times> string list) option" where
  "session_from_body_with_source d body =
     find_map (\<lambda>src. map_option (\<lambda>sid. (sid, src_path src)) (read_source body src))
       (body_sources d)"

definition session_from_body :: "descriptor \<Rightarrow> json \<Rightarrow> string option" where
  "session_from_body d body = map_option fst (session_from_body_with_source d body)"

definition session_from_headers_with_source ::
  "descriptor \<Rightarrow> (string \<Rightarrow> string option) \<Rightarrow> (string \<times> string) option" where
  "session_from_headers_with_source d get =
     find_map (\<lambda>nm. map_option (\<lambda>v. (trim v, nm)) (opt_filter (\<lambda>s. trim s \<noteq> []) (get nm)))
       (header_sources d)"

definition session_from_headers :: "descriptor \<Rightarrow> (string \<Rightarrow> string option) \<Rightarrow> string option" where
  "session_from_headers d get = map_option fst (session_from_headers_with_source d get)"

definition end_user :: "descriptor \<Rightarrow> json \<Rightarrow> string option" where
  "end_user d body =
     find_map (\<lambda>nm. map_option trim (opt_filter (\<lambda>s. trim s \<noteq> []) (read_path body [nm])))
       (user_sources d)"

definition pck_namespace :: "string \<Rightarrow> string option" where
  "pck_namespace v = Some (''pck:'' @ v)"

section \<open>Input and output text\<close>

definition find_user_message :: "json list \<Rightarrow> json option" where
  "find_user_message items = List.find (\<lambda>m. str_eq (jat m ''role'') ''user'') (rev items)"

definition user_input_of :: "descriptor \<Rightarrow> json \<Rightarrow> string option" where
  "user_input_of d req =
     (case in_shape d of
        ShapeMessages \<Rightarrow>
          Option.bind (as_array (jat req ''messages'')) (\<lambda>items.
          Option.bind (find_user_message items) (\<lambda>item.
          content_text (jat item ''content'')))
      | ShapeResponses \<Rightarrow>
          Option.bind (user_input_fn d) (\<lambda>f. f (jat req ''input'')))"

definition final_output_of :: "descriptor \<Rightarrow> json \<Rightarrow> string option" where
  "final_output_of d resp =
     (case final_output_fn d of
        Some f \<Rightarrow> f resp
      | None \<Rightarrow> content_text (resolve_path resp (final_output_path d)))"

section \<open>What the readers return\<close>

text \<open>A session id read from a body source is never blank, whatever the document.\<close>

lemma join_eq_Nil: "join newline xs = [] \<longleftrightarrow> xs = [] \<or> xs = [[]]"
  by (cases "(newline, xs)" rule: join.cases) (auto simp: newline_def)

lemma read_source_plain:
  "transform src = None \<Longrightarrow> read_source body src = Some sid \<Longrightarrow> sid \<noteq> [] \<and> trim sid = sid"
  by (auto simp: read_source_def Let_def bind_eq_Some_conv)

lemma read_source_pck:
  "transform src = Some pck_namespace \<Longrightarrow> read_source body src = Some sid \<Longrightarrow>
     \<exists>k. sid = ''pck:'' @ k \<and> k \<noteq> [] \<and> trim k = k"
  by (auto simp: read_source_def Let_def bind_eq_Some_conv pck_namespace_def)

lemma session_from_headers_Some:
  "session_from_headers_with_source d get = Some (sid, nm) \<Longrightarrow>
     nm \<in> set (header_sources d) \<and> (\<exists>v. get nm = Some v \<and> sid = trim v) \<and> sid \<noteq> []"
  by (auto simp: session_from_headers_with_source_def dest!: find_map_SomeD)

lemma session_from_body_Some:
  "session_from_body_with_source d body = Some (sid, p) \<Longrightarrow>
     \<exists>us src vs. body_sources d = us @ src # vs \<and> src_path src = p
       \<and> read_source body src = Some sid \<and> (\<forall>u\<in>set us. read_source body u = None)"
  unfolding session_from_body_with_source_def by (drule find_map_Some_split) auto

lemma content_text_nonempty:
  "content_text v = Some t \<Longrightarrow> t \<noteq> [] \<or> (\<exists>bs. v = JArray bs \<and> text_blocks bs = [[]])"
  by (cases v) (auto simp: content_text_def Let_def join_eq_Nil split: if_splits)

end
