(* ===== verification/Descriptors.thy ===== *)
theory Descriptors
  imports Protocol
begin

text \<open>
  The registered protocol tables (\<open>anthropic/mod.rs\<close>, \<open>openai/responses.rs\<close>,
  \<open>openai/chat.rs\<close>, \<open>openai/live.rs\<close>), the readers they point to, and the detection of
  the protocol of a request path (\<open>detect\<close>, \<open>detect_by_name\<close>, \<open>detect_path\<close> of
  \<open>lib.rs\<close>). \<open>render\<close> is \<open>serde_json\<close>'s printer, used by the Anthropic tool reader.
\<close>

section \<open>Mount points\<close>

definition HDR_SESSION_ID :: string where "HDR_SESSION_ID = ''session-id''"
definition HDR_SESSION_ID_ALT :: string where "HDR_SESSION_ID_ALT = ''session_id''"
definition HDR_CC_SESSION :: string where "HDR_CC_SESSION = ''x-claude-code-session-id''"
definition HDR_GROK_CONV :: string where "HDR_GROK_CONV = ''x-grok-conv-id''"
definition HDR_SESSION :: string where "HDR_SESSION = ''x-session-id''"
definition HDR_SESSION_AFFINITY :: string where "HDR_SESSION_AFFINITY = ''x-session-affinity''"
definition HDR_OPENCODE_SESSION :: string where "HDR_OPENCODE_SESSION = ''x-opencode-session''"
definition HDR_CONVERSATION_ID :: string where "HDR_CONVERSATION_ID = ''x-conversation-id''"

lemmas mount_defs = HDR_SESSION_ID_def HDR_SESSION_ID_ALT_def HDR_CC_SESSION_def
  HDR_GROK_CONV_def HDR_SESSION_def HDR_SESSION_AFFINITY_def HDR_OPENCODE_SESSION_def
  HDR_CONVERSATION_ID_def

definition plain_source :: "string list \<Rightarrow> body_source" where
  "plain_source p = \<lparr>src_path = p, two_form = False, transform = None\<rparr>"

definition pck_source :: body_source where
  "pck_source = \<lparr>src_path = [''prompt_cache_key''], two_form = False,
     transform = Some pck_namespace\<rparr>"

definition mk_rule :: "string \<Rightarrow> string option \<Rightarrow> sse_action \<Rightarrow> sse_rule" where
  "mk_rule ev dt act = \<lparr>on = ev, data_type = None, delta_type = dt, action = act\<rparr>"

section \<open>anthropic.messages\<close>

definition anthropic_nonstreaming_tools :: "(json \<Rightarrow> string) \<Rightarrow> json \<Rightarrow> tool_call list" where
  "anthropic_nonstreaming_tools render resp =
     (case as_array (jat resp ''content'') of
        None \<Rightarrow> []
      | Some blocks \<Rightarrow>
          map (\<lambda>b. \<lparr>tc_name = str_or_empty (jat b ''name''),
                     tc_arguments = (case jat b ''input'' of JString s \<Rightarrow> s | v \<Rightarrow> render v)\<rparr>)
            (filter (\<lambda>b. str_eq (jat b ''type'') ''tool_use'') blocks))"

definition anthropic_descriptor :: "(json \<Rightarrow> string) \<Rightarrow> descriptor" where
  "anthropic_descriptor render = \<lparr>
     d_name = ''anthropic.messages'',
     path_prefixes = [''/v1/messages''],
     loose_endpoints = [''messages''],
     messages_path = Some ''messages'',
     in_shape = ShapeMessages,
     user_input_fn = None,
     final_output_fn = None,
     body_sources = [plain_source [''session_id''], plain_source [''metadata'', ''session_id'']],
     header_sources = [HDR_CC_SESSION, HDR_SESSION_ID, HDR_SESSION_ID_ALT],
     chain_sources = [],
     user_sources = [''metadata'', ''user_id''],
     sse_rules =
       [mk_rule ''content_block_delta'' (Some ''text_delta'') (TextAt [''delta'', ''text'']),
        mk_rule ''content_block_start'' None ToolOpen,
        mk_rule ''content_block_delta'' (Some ''input_json_delta'') ToolArg,
        mk_rule ''content_block_stop'' None ToolClose],
     tool_strategy = DeltaAssembly,
     usage_frames =
       [\<lparr>on_event = Some ''message_start'', obj_path = [''message'', ''usage'']\<rparr>,
        \<lparr>on_event = Some ''message_delta'', obj_path = [''usage'']\<rparr>],
     usage_shp = \<lparr>shape_input = [[''input_tokens'']], shape_output = [[''output_tokens'']],
       shape_cache_read = [[''cache_read_input_tokens'']],
       shape_cache_write = [[''cache_creation_input_tokens'']]\<rparr>,
     usage_inclusion = Exclusive,
     final_output_path = [''content''],
     stitch_eligible = True,
     markers = None,
     nonstreaming_tools = Some (anthropic_nonstreaming_tools render)\<rparr>"

section \<open>openai.responses\<close>

definition responses_user_item :: "json list \<Rightarrow> json option" where
  "responses_user_item items =
     List.find (\<lambda>i. (case as_str (jat i ''type'') of None \<Rightarrow> True | Some t \<Rightarrow> t = ''message'')
                     \<and> str_eq (jat i ''role'') ''user'') (rev items)"

definition typed_text :: "string \<Rightarrow> json list \<Rightarrow> string list" where
  "typed_text ty blocks =
     List.map_filter
       (\<lambda>b. if str_eq (jat b ''type'') ty then as_str (jat b ''text'') else None) blocks"

definition responses_user_input :: "json \<Rightarrow> string option" where
  "responses_user_input input =
     (case as_str input of
        Some s \<Rightarrow> opt_filter (\<lambda>s. s \<noteq> []) (Some s)
      | None \<Rightarrow>
          Option.bind (as_array input) (\<lambda>items.
          Option.bind (responses_user_item items) (\<lambda>user_item.
          case as_str (jat user_item ''content'') of
            Some s \<Rightarrow> opt_filter (\<lambda>s. s \<noteq> []) (Some s)
          | None \<Rightarrow>
              Option.bind (as_array (jat user_item ''content'')) (\<lambda>blocks.
              let out = typed_text ''input_text'' blocks
              in if out = [] then None else Some (join newline out)))))"

definition responses_final_output :: "json \<Rightarrow> string option" where
  "responses_final_output resp =
     Option.bind (as_array (jat resp ''output'')) (\<lambda>items.
       let out = concat (map (\<lambda>item.
             case as_array (jat item ''content'') of
               Some blocks \<Rightarrow> typed_text ''output_text'' blocks
             | None \<Rightarrow> []) items)
       in if out = [] then None else Some (join newline out))"

definition responses_nonstreaming_tools :: "json \<Rightarrow> tool_call list" where
  "responses_nonstreaming_tools resp =
     (case as_array (jat resp ''output'') of
        None \<Rightarrow> []
      | Some items \<Rightarrow>
          map (\<lambda>i. \<lparr>tc_name = str_or_empty (jat i ''name''),
                     tc_arguments = unwrap_or [] (or_else (as_str (jat i ''arguments''))
                                                          (as_str (jat i ''input'')))\<rparr>)
            (filter (\<lambda>i. str_eq (jat i ''type'') ''function_call''
                        \<or> str_eq (jat i ''type'') ''custom_tool_call'') items))"

definition responses_descriptor :: descriptor where
  "responses_descriptor = \<lparr>
     d_name = ''openai.responses'',
     path_prefixes = [''/v1/responses'', ''/compatible-mode/v1/responses''],
     loose_endpoints = [''responses''],
     messages_path = None,
     in_shape = ShapeResponses,
     user_input_fn = Some responses_user_input,
     final_output_fn = Some responses_final_output,
     body_sources =
       [plain_source [''session_id''],
        \<lparr>src_path = [''conversation''], two_form = True, transform = None\<rparr>,
        plain_source [''metadata'', ''session_id''],
        plain_source [''client_metadata'', ''session_id''],
        pck_source],
     header_sources = [HDR_SESSION_ID, HDR_SESSION_ID_ALT, HDR_CC_SESSION, HDR_GROK_CONV],
     chain_sources = [''previous_response_id''],
     user_sources = [''safety_identifier'', ''user''],
     sse_rules =
       [mk_rule ''response.output_text.delta'' None (TextAt [''delta'']),
        mk_rule ''response.output_item.done'' None ToolDone],
     tool_strategy = DoneItems,
     usage_frames =
       [\<lparr>on_event = Some ''response.completed'', obj_path = [''response'', ''usage'']\<rparr>],
     usage_shp = \<lparr>shape_input = [[''input_tokens'']], shape_output = [[''output_tokens'']],
       shape_cache_read = [[''input_tokens_details'', ''cached_tokens'']],
       shape_cache_write = [[''input_tokens_details'', ''cache_write_tokens'']]\<rparr>,
     usage_inclusion = Inclusive,
     final_output_path = [''output''],
     stitch_eligible = True,
     markers = None,
     nonstreaming_tools = Some responses_nonstreaming_tools\<rparr>"

section \<open>openai.chat_completions\<close>

definition chat_nonstreaming_tools :: "json \<Rightarrow> tool_call list" where
  "chat_nonstreaming_tools resp =
     (case Option.bind (Option.bind (Option.bind (Option.bind (jget resp ''choices'')
              (\<lambda>c. jget_idx c 0)) (\<lambda>c. jget c ''message'')) (\<lambda>m. jget m ''tool_calls'')) as_array of
        None \<Rightarrow> []
      | Some calls \<Rightarrow>
          map (\<lambda>c. let f = jget c ''function'' in
            \<lparr>tc_name = unwrap_or [] (Option.bind (Option.bind f (\<lambda>f. jget f ''name'')) as_str),
             tc_arguments =
               unwrap_or [] (Option.bind (Option.bind f (\<lambda>f. jget f ''arguments'')) as_str)\<rparr>)
            calls)"

definition chat_descriptor :: descriptor where
  "chat_descriptor = \<lparr>
     d_name = ''openai.chat_completions'',
     path_prefixes = [''/v1/chat'', ''/compatible-mode/v1/chat''],
     loose_endpoints = [''chat/completions''],
     messages_path = Some ''messages'',
     in_shape = ShapeMessages,
     user_input_fn = None,
     final_output_fn = None,
     body_sources =
       [plain_source [''session_id''], plain_source [''metadata'', ''session_id''], pck_source],
     header_sources = [HDR_SESSION_ID, HDR_SESSION_ID_ALT, HDR_CC_SESSION],
     chain_sources = [],
     user_sources = [''safety_identifier'', ''user''],
     sse_rules =
       [mk_rule ''*'' None (TextAt [''choices'', ''0'', ''delta'', ''content'']),
        mk_rule ''*'' None ToolChunk],
     tool_strategy = ChunkedToolCalls,
     usage_frames = [\<lparr>on_event = None, obj_path = [''usage'']\<rparr>],
     usage_shp = \<lparr>shape_input = [[''prompt_tokens'']], shape_output = [[''completion_tokens'']],
       shape_cache_read = [[''prompt_tokens_details'', ''cached_tokens'']],
       shape_cache_write = [[''prompt_tokens_details'', ''cache_write_tokens'']]\<rparr>,
     usage_inclusion = Inclusive,
     final_output_path = [''choices'', ''0'', ''message'', ''content''],
     stitch_eligible = False,
     markers = None,
     nonstreaming_tools = Some chat_nonstreaming_tools\<rparr>"

section \<open>openai.live\<close>

definition live_descriptor :: descriptor where
  "live_descriptor = \<lparr>
     d_name = ''openai.live'',
     path_prefixes = [],
     loose_endpoints = [],
     messages_path = None,
     in_shape = ShapeResponses,
     user_input_fn = None,
     final_output_fn = None,
     body_sources =
       [plain_source [''metadata'', ''session_id''],
        plain_source [''client_metadata'', ''session_id'']],
     header_sources = [HDR_SESSION_ID, HDR_SESSION_ID_ALT, HDR_GROK_CONV],
     chain_sources = [],
     user_sources = [''safety_identifier'', ''user''],
     sse_rules =
       [mk_rule ''response.audio_transcript.delta'' None (TextAt [''delta'']),
        mk_rule ''response.output_item.done'' None ToolDone],
     tool_strategy = DoneItems,
     usage_frames =
       [\<lparr>on_event = Some ''response.done'', obj_path = [''response'', ''usage'']\<rparr>],
     usage_shp = \<lparr>shape_input = [[''input_tokens'']], shape_output = [[''output_tokens'']],
       shape_cache_read = [[''input_token_details'', ''cached_tokens'']],
       shape_cache_write = [[''input_token_details'', ''cache_write_tokens'']]\<rparr>,
     usage_inclusion = Inclusive,
     final_output_path = [''output''],
     stitch_eligible = False,
     markers = Some \<lparr>marker_start = ''response.create'', marker_end = ''response.done''\<rparr>,
     nonstreaming_tools = None\<rparr>"

definition DESCRIPTORS :: "(json \<Rightarrow> string) \<Rightarrow> descriptor list" where
  "DESCRIPTORS render =
     [anthropic_descriptor render, responses_descriptor, chat_descriptor, live_descriptor]"

section \<open>Detection of the protocol of a path\<close>

definition detect :: "(json \<Rightarrow> string) \<Rightarrow> string \<Rightarrow> descriptor option" where
  "detect render path =
     max_by_key (\<lambda>d. fold max (map length (path_prefixes d)) 0)
       (filter (\<lambda>d. list_ex (starts_with path) (path_prefixes d)) (DESCRIPTORS render))"

definition detect_by_name :: "(json \<Rightarrow> string) \<Rightarrow> string \<Rightarrow> descriptor option" where
  "detect_by_name render nm = List.find (\<lambda>d. d_name d = nm) (DESCRIPTORS render)"

definition windows :: "nat \<Rightarrow> 'a list \<Rightarrow> 'a list list" where
  "windows n xs = map (\<lambda>i. take n (drop i xs)) [0..<length xs + 1 - n]"

definition path_segments :: "string \<Rightarrow> string list" where
  "path_segments p = filter (\<lambda>s. s \<noteq> []) (split_on (CHR ''/'') p)"

definition anchored :: "string list \<Rightarrow> bool" where
  "anchored rest \<longleftrightarrow> (case rest of [] \<Rightarrow> True | t # _ \<Rightarrow> t \<in> set LOOSE_SUBRESOURCES)"

definition loose_window :: "string list \<Rightarrow> string list \<Rightarrow> nat \<times> string list \<Rightarrow> bool" where
  "loose_window segments ep = (\<lambda>(start, window).
     window = ep \<and> anchored (drop (start + length ep) segments))"

definition loose_endpoint :: "string list \<Rightarrow> string \<Rightarrow> bool" where
  "loose_endpoint segments endpoint \<longleftrightarrow>
     (let ep = path_segments endpoint
      in ep \<noteq> []
         \<and> list_ex (loose_window segments ep) (List.enumerate 0 (windows (length ep) segments)))"

definition detect_path :: "(json \<Rightarrow> string) \<Rightarrow> string \<Rightarrow> path_match option" where
  "detect_path render path =
     (case detect render path of
        Some d \<Rightarrow> Some \<lparr>pm_descriptor = d, loose = False\<rparr>
      | None \<Rightarrow>
          (let segments = path_segments path
           in find_map (\<lambda>d.
                if list_ex (loose_endpoint segments) (loose_endpoints d)
                then Some \<lparr>pm_descriptor = d, loose = True\<rparr> else None) (DESCRIPTORS render)))"

section \<open>Laws of the detection\<close>

lemma set_windows:
  "0 < n \<Longrightarrow> (i, w) \<in> set (List.enumerate 0 (windows n xs)) \<longleftrightarrow>
     i + n \<le> length xs \<and> w = take n (drop i xs)"
  by (auto simp: windows_def in_set_enumerate_eq)

text \<open>A loose endpoint matches a path whose segments end with it, up to a whitelisted
  sub-resource.\<close>

definition tail_match :: "string list \<Rightarrow> string list \<Rightarrow> bool" where
  "tail_match segments ep \<longleftrightarrow> (\<exists>before rest. segments = before @ ep @ rest \<and> anchored rest)"

lemma loose_endpoint_iff:
  assumes "path_segments endpoint \<noteq> []"
  shows "loose_endpoint segments endpoint \<longleftrightarrow> tail_match segments (path_segments endpoint)"
proof -
  let ?e = "path_segments endpoint"
  have "loose_endpoint segments endpoint \<longleftrightarrow>
      (\<exists>i. i + length ?e \<le> length segments \<and> take (length ?e) (drop i segments) = ?e
        \<and> anchored (drop (i + length ?e) segments))"
    using assms
    by (auto simp: loose_endpoint_def Let_def list_ex_iff Bex_def split_paired_Ex loose_window_def
        set_windows)
  also have "\<dots> \<longleftrightarrow> tail_match segments ?e" (is "?L = ?R")
  proof
    assume ?L
    then obtain i where i: "take (length ?e) (drop i segments) = ?e"
      "anchored (drop (i + length ?e) segments)" by blast
    have "segments = take i segments @ take (length ?e) (drop i segments)
        @ drop (i + length ?e) segments"
      by (metis add.commute append_take_drop_id drop_drop)
    with i show ?R unfolding tail_match_def by metis
  next
    assume ?R
    then obtain before rest where "segments = before @ ?e @ rest" "anchored rest"
      unfolding tail_match_def by blast
    then show ?L by (intro exI [of _ "length before"]) simp
  qed
  finally show ?thesis .
qed

lemma segments_of_endpoints [simp]:
  "path_segments ''messages'' = [''messages'']"
  "path_segments ''responses'' = [''responses'']"
  "path_segments ''chat/completions'' = [''chat'', ''completions'']"
  by code_simp+

lemma starts_with_eq_iff: "starts_with s p \<Longrightarrow> starts_with s q \<Longrightarrow> length p \<le> length q \<Longrightarrow> starts_with q p"
  by (auto simp: starts_with_def) (metis min.absorb1 take_take)

lemma starts_with_conflict:
  "\<not> starts_with q p \<Longrightarrow> length p \<le> length q \<Longrightarrow> starts_with s p \<Longrightarrow> \<not> starts_with s q"
  using starts_with_eq_iff by blast

definition responses_path :: "string \<Rightarrow> bool" where
  "responses_path path \<longleftrightarrow>
     starts_with path ''/v1/responses'' \<or> starts_with path ''/compatible-mode/v1/responses''"

definition chat_path :: "string \<Rightarrow> bool" where
  "chat_path path \<longleftrightarrow> starts_with path ''/v1/chat'' \<or> starts_with path ''/compatible-mode/v1/chat''"

text \<open>No path has prefixes of two tables, so the longest-prefix rule of \<open>detect\<close> never has
  to choose.\<close>

lemma prefixes_disjoint:
  "starts_with path ''/v1/messages'' \<Longrightarrow> \<not> responses_path path"
  "starts_with path ''/v1/messages'' \<Longrightarrow> \<not> chat_path path"
  "responses_path path \<Longrightarrow> \<not> chat_path path"
proof -
  have clash: "\<not> (starts_with path p \<and> starts_with path q)"
    if "\<not> starts_with q p" "length p \<le> length q" for p q
    using that starts_with_eq_iff by blast
  have c: "\<not> (starts_with path ''/v1/messages'' \<and> starts_with path ''/v1/responses'')"
    "\<not> (starts_with path ''/v1/messages'' \<and> starts_with path ''/compatible-mode/v1/responses'')"
    "\<not> (starts_with path ''/v1/chat'' \<and> starts_with path ''/v1/messages'')"
    "\<not> (starts_with path ''/v1/messages'' \<and> starts_with path ''/compatible-mode/v1/chat'')"
    "\<not> (starts_with path ''/v1/chat'' \<and> starts_with path ''/v1/responses'')"
    "\<not> (starts_with path ''/v1/chat'' \<and> starts_with path ''/compatible-mode/v1/responses'')"
    "\<not> (starts_with path ''/v1/responses'' \<and> starts_with path ''/compatible-mode/v1/chat'')"
    "\<not> (starts_with path ''/compatible-mode/v1/chat'' \<and> starts_with path ''/compatible-mode/v1/responses'')"
    by (rule clash; simp add: starts_with_def)+
  show "starts_with path ''/v1/messages'' \<Longrightarrow> \<not> responses_path path"
    using c by (auto simp: responses_path_def)
  show "starts_with path ''/v1/messages'' \<Longrightarrow> \<not> chat_path path"
    using c by (auto simp: chat_path_def)
  show "responses_path path \<Longrightarrow> \<not> chat_path path"
    using c by (auto simp: chat_path_def responses_path_def)
qed

lemma descriptor_tables [simp]:
  "path_prefixes (anthropic_descriptor render) = [''/v1/messages'']"
  "path_prefixes responses_descriptor = [''/v1/responses'', ''/compatible-mode/v1/responses'']"
  "path_prefixes chat_descriptor = [''/v1/chat'', ''/compatible-mode/v1/chat'']"
  "path_prefixes live_descriptor = []"
  "loose_endpoints (anthropic_descriptor render) = [''messages'']"
  "loose_endpoints responses_descriptor = [''responses'']"
  "loose_endpoints chat_descriptor = [''chat/completions'']"
  "loose_endpoints live_descriptor = []"
  "d_name (anthropic_descriptor render) = ''anthropic.messages''"
  "d_name responses_descriptor = ''openai.responses''"
  "d_name chat_descriptor = ''openai.chat_completions''"
  "d_name live_descriptor = ''openai.live''"
  by (simp_all add: anthropic_descriptor_def responses_descriptor_def chat_descriptor_def
      live_descriptor_def)

lemma detect_cases:
  "detect render path =
     (if starts_with path ''/v1/messages'' then Some (anthropic_descriptor render)
      else if responses_path path then Some responses_descriptor
      else if chat_path path then Some chat_descriptor else None)"
proof -
  have "filter (\<lambda>d. list_ex (starts_with path) (path_prefixes d)) (DESCRIPTORS render) =
      (if starts_with path ''/v1/messages'' then [anthropic_descriptor render] else [])
      @ (if responses_path path then [responses_descriptor] else [])
      @ (if chat_path path then [chat_descriptor] else [])"
    by (simp add: DESCRIPTORS_def responses_path_def chat_path_def)
  then show ?thesis
    using prefixes_disjoint [of path] by (auto simp: detect_def)
qed

text \<open>The complete table of \<open>detect_path\<close>.\<close>

definition path_table :: "string \<Rightarrow> (string \<times> bool) option" where
  "path_table path =
     (if starts_with path ''/v1/messages'' then Some (''anthropic.messages'', False)
      else if responses_path path then Some (''openai.responses'', False)
      else if chat_path path then Some (''openai.chat_completions'', False)
      else if tail_match (path_segments path) [''messages''] then Some (''anthropic.messages'', True)
      else if tail_match (path_segments path) [''responses''] then Some (''openai.responses'', True)
      else if tail_match (path_segments path) [''chat'', ''completions'']
           then Some (''openai.chat_completions'', True)
      else None)"

text \<open>C34 \<open>detect_path\<close> follows the two-level table: an exact prefix wins and is never loose;
  otherwise the first table row one of whose endpoint names ends the path (or is followed by the
  whitelisted sub-resource) matches loosely; nothing else matches.\<close>

theorem detect_path_table:
  "map_option (\<lambda>m. (d_name (pm_descriptor m), loose m)) (detect_path render path) = path_table path"
  by (simp add: detect_path_def detect_cases path_table_def Let_def DESCRIPTORS_def
      loose_endpoint_iff)

end
