(* ===== verification/Usage.thy ===== *)
theory Usage
  imports Descriptors
begin

text \<open>
  \<open>crates/atg-protocol/src/usage.rs\<close>: the readers that turn a protocol's usage object into the
  mutually exclusive buckets of \<open>turn_usage\<close>, for a streamed frame and for a response at rest.
\<close>

definition opt_u64 :: "json \<Rightarrow> u64 option" where
  "opt_u64 v = as_u64 v"

definition read_alts :: "json \<Rightarrow> string list list \<Rightarrow> u64 option" where
  "read_alts obj alts = find_map (\<lambda>p. opt_u64 (resolve_path obj p)) alts"

definition sub_bucket :: "u64 option \<Rightarrow> u64 option \<Rightarrow> u64 option" where
  "sub_bucket inp part =
     (case (inp, part) of (Some i, Some c) \<Rightarrow> Some (sat_sub_u64 i c) | _ \<Rightarrow> inp)"

definition usage_from_obj :: "descriptor \<Rightarrow> json \<Rightarrow> turn_usage" where
  "usage_from_obj d obj =
     (let shape = usage_shp d;
          u = \<lparr>input_tokens = read_alts obj (shape_input shape),
               output_tokens = read_alts obj (shape_output shape),
               cache_read_tokens = read_alts obj (shape_cache_read shape),
               cache_creation_tokens = read_alts obj (shape_cache_write shape),
               total_tokens = opt_u64 (jat obj ''total_tokens'')\<rparr>
      in if usage_inclusion d = Inclusive
         then let u1 = u\<lparr>input_tokens := sub_bucket (input_tokens u) (cache_read_tokens u)\<rparr>
              in u1\<lparr>input_tokens := sub_bucket (input_tokens u1) (cache_creation_tokens u1)\<rparr>
         else u)"

definition frame_matches :: "usage_frame \<Rightarrow> string option \<Rightarrow> bool" where
  "frame_matches uf event =
     (case (on_event uf, event) of
        (Some ev, Some e) \<Rightarrow> ev = e
      | (None, _) \<Rightarrow> True
      | (Some _, None) \<Rightarrow> False)"

definition usage_from_sse_frame :: "descriptor \<Rightarrow> json \<Rightarrow> turn_usage option" where
  "usage_from_sse_frame d v =
     (let event = as_str (jat v ''type'')
      in find_map (\<lambda>uf.
           if frame_matches uf event
           then (let obj = resolve_path v (obj_path uf)
                 in if \<not> is_null obj then Some (usage_from_obj d obj) else None)
           else None) (usage_frames d))"

definition usage_from_nonstreaming :: "descriptor \<Rightarrow> json \<Rightarrow> turn_usage option" where
  "usage_from_nonstreaming d resp =
     (let obj = resolve_path resp [''usage'']
      in if is_null obj then None else Some (usage_from_obj d obj))"

section \<open>Laws\<close>

text \<open>The raw counts a usage object reports, before any derivation.\<close>

abbreviation "raw_input d obj \<equiv> read_alts obj (shape_input (usage_shp d))"
abbreviation "raw_cache_read d obj \<equiv> read_alts obj (shape_cache_read (usage_shp d))"
abbreviation "raw_cache_write d obj \<equiv> read_alts obj (shape_cache_write (usage_shp d))"

definition tokens :: "u64 option \<Rightarrow> nat" where
  "tokens t = (case t of Some n \<Rightarrow> unat n | None \<Rightarrow> 0)"

lemma tokens_simps [simp]: "tokens None = 0" "tokens (Some n) = unat n"
  by (simp_all add: tokens_def)

lemma sub_bucket_None [simp]: "sub_bucket None c = None"
  by (simp add: sub_bucket_def)

lemma tokens_sub_bucket: "tokens (sub_bucket i c) = tokens i - tokens c"
  by (auto simp: sub_bucket_def tokens_def split: option.splits)

lemma usage_from_obj_other [simp]:
  "cache_read_tokens (usage_from_obj d obj) = raw_cache_read d obj"
  "cache_creation_tokens (usage_from_obj d obj) = raw_cache_write d obj"
  "output_tokens (usage_from_obj d obj) = read_alts obj (shape_output (usage_shp d))"
  "total_tokens (usage_from_obj d obj) = as_u64 (jat obj ''total_tokens'')"
  by (simp_all add: usage_from_obj_def Let_def opt_u64_def)

lemma input_of_usage:
  "input_tokens (usage_from_obj d obj) =
     (if usage_inclusion d = Inclusive
      then sub_bucket (sub_bucket (raw_input d obj) (raw_cache_read d obj)) (raw_cache_write d obj)
      else raw_input d obj)"
  by (simp add: usage_from_obj_def Let_def)

lemma input_reported: "input_tokens (usage_from_obj d obj) = None \<longleftrightarrow> raw_input d obj = None"
  by (auto simp: input_of_usage sub_bucket_def split: option.splits)

text \<open>C35 For a protocol whose input count includes the cache, the buckets of one usage object
  are exclusive: the derived input never wraps below zero, and when the cache counts fit in the
  reported input, the three buckets add up to exactly that count.\<close>

theorem inclusive_buckets_exclusive:
  assumes "usage_inclusion d = Inclusive" and "raw_input d obj = Some n"
  shows "tokens (input_tokens (usage_from_obj d obj)) =
           unat n - (tokens (raw_cache_read d obj) + tokens (raw_cache_write d obj))
     \<and> (tokens (raw_cache_read d obj) + tokens (raw_cache_write d obj) \<le> unat n \<longrightarrow>
           tokens (input_tokens (usage_from_obj d obj))
           + tokens (cache_read_tokens (usage_from_obj d obj))
           + tokens (cache_creation_tokens (usage_from_obj d obj)) = unat n)"
proof -
  have eq: "tokens (input_tokens (usage_from_obj d obj)) =
      unat n - (tokens (raw_cache_read d obj) + tokens (raw_cache_write d obj))"
    by (simp add: input_of_usage assms tokens_sub_bucket)
  then show ?thesis by simp
qed

definition sample_usage :: json where
  "sample_usage = JObject
     [(''input_tokens'', JNumber (PosInt 100)),
      (''input_tokens_details'', JObject [(''cache_write_tokens'', JNumber (PosInt 7)),
                                          (''cached_tokens'', JNumber (PosInt 40))])]"

lemma inclusive_buckets_exclusive_witness:
  "tokens (input_tokens (usage_from_obj responses_descriptor sample_usage)) = 53"
proof -
  have r: "raw_input responses_descriptor sample_usage = Some 100"
    "raw_cache_read responses_descriptor sample_usage = Some 40"
    "raw_cache_write responses_descriptor sample_usage = Some 7"
    "usage_inclusion responses_descriptor = Inclusive"
    by (simp_all add: responses_descriptor_def sample_usage_def read_alts_def opt_u64_def)
  show ?thesis
    using inclusive_buckets_exclusive [of responses_descriptor sample_usage 100] r by simp
qed

text \<open>The usage of an Anthropic stream is the union of its two reports: merging the frame of
  \<open>message_start\<close> with the one of \<open>message_delta\<close> keeps every count of either, the later frame
  winning where both report, and no count is derived.\<close>

theorem anthropic_usage_merge:
  "map_option (\<lambda>u. (input_tokens u, output_tokens u, cache_read_tokens u, cache_creation_tokens u))
     (merge_usage
       (usage_from_sse_frame (anthropic_descriptor render)
          (JObject [(''message'', JObject [(''usage'', JObject a)]),
                    (''type'', JString ''message_start'')]))
       (usage_from_obj (anthropic_descriptor render) (JObject b))) =
   Some
     (or_else (as_u64 (jat (JObject b) ''input_tokens'')) (as_u64 (jat (JObject a) ''input_tokens'')),
      or_else (as_u64 (jat (JObject b) ''output_tokens'')) (as_u64 (jat (JObject a) ''output_tokens'')),
      or_else (as_u64 (jat (JObject b) ''cache_read_input_tokens''))
        (as_u64 (jat (JObject a) ''cache_read_input_tokens'')),
      or_else (as_u64 (jat (JObject b) ''cache_creation_input_tokens''))
        (as_u64 (jat (JObject a) ''cache_creation_input_tokens'')))"
proof -
  have frame: "usage_from_sse_frame (anthropic_descriptor render)
      (JObject [(''message'', JObject [(''usage'', JObject a)]), (''type'', JString ''message_start'')])
      = Some (usage_from_obj (anthropic_descriptor render) (JObject a))"
    by (simp add: usage_from_sse_frame_def frame_matches_def anthropic_descriptor_def Let_def)
  have obj: "usage_from_obj (anthropic_descriptor render) (JObject m) =
      \<lparr>input_tokens = as_u64 (jat (JObject m) ''input_tokens''),
       output_tokens = as_u64 (jat (JObject m) ''output_tokens''),
       cache_read_tokens = as_u64 (jat (JObject m) ''cache_read_input_tokens''),
       cache_creation_tokens = as_u64 (jat (JObject m) ''cache_creation_input_tokens''),
       total_tokens = as_u64 (jat (JObject m) ''total_tokens'')\<rparr>" for m
    by (simp add: usage_from_obj_def anthropic_descriptor_def Let_def read_alts_def opt_u64_def
        split: option.split)
  show ?thesis
    unfolding frame obj merge_usage_eq option.map prod.inject by simp
qed

end
