(* ===== verification/Utf8.thy ===== *)
theory Utf8
  imports Prelude
begin

text \<open>
  UTF-8 decoding as \<open>String::from_utf8_lossy\<close> and \<open>std::str::from_utf8\<close> do it: the byte string
  is cut into chunks, each one well-formed sequence or one maximal ill-formed part, and the lossy
  decoder replaces every ill-formed part by U+FFFD (bytes EF BF BD). The lemmas the components
  use: a valid string decodes to itself, the result of the lossy decoder is valid, and decoding
  splits at a byte that is ASCII.
\<close>

definition in_range :: "nat \<Rightarrow> nat \<Rightarrow> char \<Rightarrow> bool" where
  "in_range lo hi c \<longleftrightarrow> lo \<le> code c \<and> code c \<le> hi"

definition is_cont :: "char \<Rightarrow> bool" where
  "is_cont c \<longleftrightarrow> in_range 128 191 c"

definition is_ascii :: "char \<Rightarrow> bool" where
  "is_ascii c \<longleftrightarrow> code c < 128"

text \<open>The byte that may follow the lead byte (the second column of the standard's table of
  well-formed sequences), and how many continuation bytes follow that one.\<close>

definition second_ok :: "char \<Rightarrow> char \<Rightarrow> bool" where
  "second_ok b c =
     (if code b = 0xE0 then in_range 0xA0 0xBF c
      else if code b = 0xED then in_range 0x80 0x9F c
      else if code b = 0xF0 then in_range 0x90 0xBF c
      else if code b = 0xF4 then in_range 0x80 0x8F c
      else is_cont c)"

definition seq_length :: "char \<Rightarrow> nat" where
  "seq_length b =
     (if code b < 0x80 then 1
      else if 0xC2 \<le> code b \<and> code b \<le> 0xDF then 2
      else if 0xE0 \<le> code b \<and> code b \<le> 0xEF then 3
      else if 0xF0 \<le> code b \<and> code b \<le> 0xF4 then 4
      else 0)"

text \<open>One step over a non-empty input: whether a well-formed sequence starts here, and how many
  bytes the sequence or the ill-formed part has.\<close>

fun utf8_step :: "char \<Rightarrow> string \<Rightarrow> bool \<times> nat" where
  "utf8_step b r =
     (let n = seq_length b in
      if n = 1 then (True, 1)
      else if n = 0 then (False, 1)
      else case r of
        [] \<Rightarrow> (False, 1)
      | c1 # r1 \<Rightarrow>
          if \<not> second_ok b c1 then (False, 1)
          else if n = 2 then (True, 2)
          else case r1 of
            [] \<Rightarrow> (False, 2)
          | c2 # r2 \<Rightarrow>
              if \<not> is_cont c2 then (False, 2)
              else if n = 3 then (True, 3)
              else case r2 of
                [] \<Rightarrow> (False, 3)
              | c3 # r3 \<Rightarrow> if is_cont c3 then (True, 4) else (False, 3))"

declare utf8_step.simps [simp del]

definition replacement :: string where
  "replacement = [CHR 0xEF, CHR 0xBF, CHR 0xBD]"

lemma utf8_step_pos: "utf8_step b r = (ok, n) \<Longrightarrow> 0 < n"
  by (auto simp: utf8_step.simps Let_def split: if_splits list.splits)

lemma utf8_step_le: "utf8_step b r = (ok, n) \<Longrightarrow> n \<le> Suc (length r)"
  by (auto simp: utf8_step.simps Let_def split: if_splits list.splits)

function utf8_chunks :: "string \<Rightarrow> (bool \<times> string) list" where
  "utf8_chunks [] = []"
| "utf8_chunks (b # r) =
     (fst (utf8_step b r), take (snd (utf8_step b r)) (b # r))
       # utf8_chunks (drop (snd (utf8_step b r)) (b # r))"
  by pat_completeness auto
termination
  by (relation "measure length") (use utf8_step_pos in \<open>auto simp: prod_eq_iff\<close>)

declare utf8_chunks.simps(2) [simp del]

definition from_utf8_lossy :: "string \<Rightarrow> string" where
  "from_utf8_lossy s = concat (map (\<lambda>(ok, c). if ok then c else replacement) (utf8_chunks s))"

definition valid_utf8 :: "string \<Rightarrow> bool" where
  "valid_utf8 s \<longleftrightarrow> list_all fst (utf8_chunks s)"

lemma from_utf8_lossy_Nil [simp]: "from_utf8_lossy [] = []"
  by (simp add: from_utf8_lossy_def)

lemma utf8_chunks_concat: "concat (map snd (utf8_chunks s)) = s"
proof (induction s rule: utf8_chunks.induct)
  case 1
  then show ?case by simp
next
  case (2 b r)
  obtain ok n where st: "utf8_step b r = (ok, n)" by fastforce
  with 2 have "concat (map snd (utf8_chunks (drop n (b # r)))) = drop n (b # r)" by simp
  with st show ?case by (simp add: utf8_chunks.simps(2))
qed

lemma from_utf8_lossy_valid: "valid_utf8 s \<Longrightarrow> from_utf8_lossy s = s"
proof -
  assume "valid_utf8 s"
  then have "map (\<lambda>(ok, c). if ok then c else replacement) (utf8_chunks s) = map snd (utf8_chunks s)"
    by (auto simp: valid_utf8_def list_all_iff)
  then show ?thesis unfolding from_utf8_lossy_def by (simp only: utf8_chunks_concat)
qed

section \<open>Splitting at an ASCII byte\<close>

text \<open>Whatever follows an ASCII byte cannot change how the bytes before it are cut.\<close>

lemma ascii_not_cont: "is_ascii c \<Longrightarrow> \<not> is_cont c"
  by (simp add: is_ascii_def is_cont_def in_range_def)

lemma ascii_not_second: "is_ascii c \<Longrightarrow> \<not> second_ok b c"
  by (auto simp: is_ascii_def second_ok_def is_cont_def in_range_def split: if_splits)

lemma utf8_step_append:
  assumes "is_ascii (last (b # r))"
  shows "utf8_step b (r @ ys) = utf8_step b r"
proof (cases r)
  case Nil
  with assms have "seq_length b = 1" by (simp add: is_ascii_def seq_length_def)
  then show ?thesis by (simp add: utf8_step.simps)
next
  case (Cons c1 r1)
  show ?thesis
  proof (cases r1)
    case Nil
    with Cons assms have "\<not> second_ok b c1" by (simp add: ascii_not_second)
    with Cons show ?thesis by (simp add: utf8_step.simps Let_def)
  next
    case c2: (Cons c2 r2)
    show ?thesis
    proof (cases r2)
      case Nil
      with Cons c2 assms have "\<not> is_cont c2" by (simp add: ascii_not_cont)
      with Cons c2 show ?thesis by (simp add: utf8_step.simps Let_def)
    next
      case (Cons c3 r3)
      with \<open>r = c1 # r1\<close> c2 show ?thesis by (simp add: utf8_step.simps Let_def)
    qed
  qed
qed

lemma utf8_chunks_append:
  "xs = [] \<or> is_ascii (last xs) \<Longrightarrow> utf8_chunks (xs @ ys) = utf8_chunks xs @ utf8_chunks ys"
proof (induction xs rule: utf8_chunks.induct)
  case 1
  then show ?case by simp
next
  case (2 b r)
  obtain ok n where st: "utf8_step b r = (ok, n)" by fastforce
  from 2 have asc: "is_ascii (last (b # r))" by simp
  then have st': "utf8_step b (r @ ys) = (ok, n)"
    using st by (simp add: utf8_step_append)
  have n: "n \<le> length (b # r)" using utf8_step_le [OF st] by simp
  then have dr: "drop n ((b # r) @ ys) = drop n (b # r) @ ys"
    and tk: "take n ((b # r) @ ys) = take n (b # r)"
    by (simp_all del: append_Cons)
  have "drop n (b # r) = [] \<or> is_ascii (last (drop n (b # r)))"
    using asc by (metis drop_eq_Nil last_drop not_le)
  with 2 st have "utf8_chunks (drop n (b # r) @ ys) = utf8_chunks (drop n (b # r)) @ utf8_chunks ys"
    by simp
  with st st' dr tk show ?case
    by (simp add: utf8_chunks.simps(2))
qed

lemma from_utf8_lossy_append:
  "xs = [] \<or> is_ascii (last xs) \<Longrightarrow>
     from_utf8_lossy (xs @ ys) = from_utf8_lossy xs @ from_utf8_lossy ys"
  by (simp add: from_utf8_lossy_def utf8_chunks_append)

lemma utf8_step_before_ascii: "is_ascii a \<Longrightarrow> utf8_step b (r @ a # ys) = utf8_step b r"
  by (auto simp: utf8_step.simps Let_def ascii_not_cont ascii_not_second neq_Nil_conv
      split: list.split)

lemma utf8_chunks_before_ascii:
  "is_ascii a \<Longrightarrow> utf8_chunks (xs @ a # ys) = utf8_chunks xs @ utf8_chunks (a # ys)"
proof (induction xs rule: utf8_chunks.induct)
  case 1
  then show ?case by simp
next
  case (2 b r)
  obtain ok n where st: "utf8_step b r = (ok, n)" by fastforce
  with 2(2) have st': "utf8_step b (r @ a # ys) = (ok, n)" by (simp add: utf8_step_before_ascii)
  have n: "n \<le> length (b # r)" using utf8_step_le [OF st] by simp
  then have dr: "drop n ((b # r) @ a # ys) = drop n (b # r) @ a # ys"
    and tk: "take n ((b # r) @ a # ys) = take n (b # r)"
    by (simp_all del: append_Cons)
  with 2 st st' dr tk show ?case by (simp add: utf8_chunks.simps(2))
qed

lemma valid_utf8_append:
  "valid_utf8 xs \<Longrightarrow> xs = [] \<or> is_ascii (last xs) \<Longrightarrow> valid_utf8 (xs @ ys) = valid_utf8 ys"
  by (simp add: valid_utf8_def utf8_chunks_append)

lemma seq_length_ascii: "is_ascii c \<Longrightarrow> seq_length c = 1"
  by (simp add: is_ascii_def seq_length_def)

lemma utf8_chunks_ascii: "is_ascii c \<Longrightarrow> utf8_chunks (c # r) = (True, [c]) # utf8_chunks r"
  by (simp add: utf8_chunks.simps(2) utf8_step.simps seq_length_ascii)

lemma valid_utf8_ascii: "list_all is_ascii s \<Longrightarrow> valid_utf8 s"
  by (induction s) (simp_all add: valid_utf8_def utf8_chunks_ascii)

lemma from_utf8_lossy_ascii: "list_all is_ascii s \<Longrightarrow> from_utf8_lossy s = s"
  by (simp add: from_utf8_lossy_valid valid_utf8_ascii)

lemma from_utf8_lossy_before_ascii:
  "is_ascii a \<Longrightarrow> from_utf8_lossy (xs @ a # ys) = from_utf8_lossy xs @ a # from_utf8_lossy ys"
  using from_utf8_lossy_append [of "[a]" ys] from_utf8_lossy_ascii [of "[a]"]
  by (simp add: from_utf8_lossy_def utf8_chunks_before_ascii)

section \<open>Character boundaries\<close>

text \<open>
  In a valid string the bytes that are not continuation bytes are exactly the starts of the
  sequences, so cutting a valid string in front of such a byte leaves two valid strings.
\<close>

lemma utf8_step_shape:
  "utf8_step b r = (True, n) \<Longrightarrow> \<forall>c\<in>set (take (n - 1) r). is_cont c"
  by (auto simp: utf8_step.simps Let_def second_ok_def is_cont_def in_range_def
      split: if_splits list.splits)

lemma utf8_step_take:
  "utf8_step b r = (True, n) \<Longrightarrow> utf8_step b (take (n - 1) r @ ys) = (True, n)"
  by (auto simp: utf8_step.simps Let_def split: if_splits list.splits)

lemma valid_utf8_Cons:
  "valid_utf8 (b # r) \<longleftrightarrow>
     (\<exists>n. utf8_step b r = (True, n) \<and> valid_utf8 (drop n (b # r)))"
  by (cases "utf8_step b r") (auto simp: valid_utf8_def utf8_chunks.simps(2))

lemma valid_utf8_take:
  "valid_utf8 s \<Longrightarrow> k < length s \<Longrightarrow> \<not> is_cont (s ! k) \<Longrightarrow> valid_utf8 (take k s)"
proof (induction s arbitrary: k rule: utf8_chunks.induct)
  case 1
  then show ?case by simp
next
  case (2 b r)
  show ?case
  proof (cases "k = 0")
    case True
    then show ?thesis by (simp add: valid_utf8_def)
  next
    case False
    from 2(2) obtain n where st: "utf8_step b r = (True, n)" and rest: "valid_utf8 (drop n (b # r))"
      by (auto simp: valid_utf8_Cons)
    have n: "0 < n" "n \<le> Suc (length r)" using st by (auto dest: utf8_step_pos utf8_step_le)
    have "n \<le> k"
    proof (rule ccontr)
      assume "\<not> n \<le> k"
      with False n have "k - 1 < length (take (n - 1) r)" "r ! (k - 1) = take (n - 1) r ! (k - 1)"
        using 2(3) by auto
      then have "r ! (k - 1) \<in> set (take (n - 1) r)" by (metis nth_mem)
      then have "is_cont (r ! (k - 1))" using utf8_step_shape [OF st] by blast
      with False 2(4) show False by (cases k) simp_all
    qed
    have IH: "valid_utf8 (take (k - n) (drop n (b # r)))"
    proof (rule 2(1) [unfolded st snd_conv, OF rest])
      show "k - n < length (drop n (b # r))" using \<open>n \<le> k\<close> 2(3) by auto
      show "\<not> is_cont (drop n (b # r) ! (k - n))" using \<open>n \<le> k\<close> 2(3,4) by simp
    qed
    obtain k' where k': "k = Suc k'" using False by (cases k) auto
    have "take k' r = take (n - 1) r @ drop (n - 1) (take k' r)"
      using \<open>n \<le> k\<close> k' by (metis append_take_drop_id min.absorb1 take_take Suc_diff_1 n(1) Suc_le_mono)
    then have "utf8_step b (take k' r) = (True, n)"
      using utf8_step_take [OF st] by metis
    moreover have "drop n (b # take k' r) = take (k - n) (drop n (b # r))"
      using k' by (metis drop_take take_Suc_Cons)
    ultimately show ?thesis using IH k' by (simp add: valid_utf8_Cons)
  qed
qed

end
