(* ===== verification/Chunked.thy ===== *)
theory Chunked
  imports Prelude
begin

text \<open>
  The interface of an incremental reader: a body that arrives in chunks is cut at the last
  complete boundary seen so far, the complete part is processed, the tail is kept. Its client (the
  drain of a dead client's stream) needs one law: nothing depends on where the chunks were cut.
  \<open>frames\<close> is the whole-body reader, \<open>boundary\<close> the end of the last complete frame,
  \<open>process\<close> what one frame does to the state and \<open>feed\<close> the incremental step of the code.
\<close>

locale chunked_feed =
  fixes frames :: "bytes \<Rightarrow> 'f list"
    and boundary :: "bytes \<Rightarrow> nat option"
    and process :: "'f \<Rightarrow> 's \<Rightarrow> 's"
    and feed :: "bytes \<Rightarrow> 's \<times> bytes \<Rightarrow> 's \<times> bytes"
  assumes feed_incomplete:
      "boundary (buf @ chunk) = None \<Longrightarrow> feed chunk (acc, buf) = (acc, buf @ chunk)"
    and feed_complete:
      "boundary (buf @ chunk) = Some n \<Longrightarrow>
         feed chunk (acc, buf) =
           (fold process (frames (take n (buf @ chunk))) acc, drop n (buf @ chunk))"
    and frames_boundary:
      "boundary b = Some n \<Longrightarrow> frames (b @ later) = frames (take n b) @ frames (drop n b @ later)"
    and boundary_last: "boundary b = Some n \<Longrightarrow> boundary (drop n b) = None"
begin

lemma feed_step:
  "feed chunk (acc, buf) = (acc', buf') \<Longrightarrow>
     fold process (frames (buf' @ later)) acc' = fold process (frames ((buf @ chunk) @ later)) acc"
  by (cases "boundary (buf @ chunk)")
    (auto simp: feed_incomplete feed_complete frames_boundary [of "buf @ chunk" _ later]
      simp del: append_assoc)

lemma feed_all:
  "fold feed chunks (acc, buf) = (acc', buf') \<Longrightarrow>
     fold process (frames (buf' @ later)) acc' =
     fold process (frames (buf @ concat chunks @ later)) acc"
proof (induction chunks arbitrary: acc buf)
  case Nil
  then show ?case by simp
next
  case (Cons c cs)
  obtain acc1 buf1 where step: "feed c (acc, buf) = (acc1, buf1)" by fastforce
  with Cons.prems have "fold feed cs (acc1, buf1) = (acc', buf')" by simp
  from Cons.IH [OF this] feed_step [OF step, of "concat cs @ later"] show ?case by simp
qed

text \<open>The tail kept after a step never holds a complete frame.\<close>

lemma feed_tail: "feed chunk (acc, buf) = (acc', buf') \<Longrightarrow> boundary buf' = None"
  using boundary_last [of "buf @ chunk"]
  by (cases "boundary (buf @ chunk)") (simp_all add: feed_incomplete feed_complete)

lemma feed_all_tail:
  "boundary buf = None \<Longrightarrow> fold feed chunks (acc, buf) = (acc', buf') \<Longrightarrow> boundary buf' = None"
proof (induction chunks arbitrary: acc buf)
  case Nil
  then show ?case by simp
next
  case (Cons c cs)
  obtain acc1 buf1 where step: "feed c (acc, buf) = (acc1, buf1)" by fastforce
  with Cons feed_tail [OF step] show ?case by simp
qed

end

end
