(* ===== verification/Engine.thy ===== *)
theory Engine
  imports Usage Utf8 Chunked
begin

text \<open>
  \<open>src/engine.rs\<close>: the protocol interpretation engine. The frame splitter of an SSE body, the
  accumulator driven by a descriptor's rules, the whole-body pass \<open>stream_response\<close>, the
  incremental pass \<open>drain_feed\<close>/\<open>drain_finish\<close> that takes over when the client is gone, and
  the extraction from a response at rest. \<open>parse\<close> and \<open>render\<close> are \<open>serde_json\<close>'s.
\<close>

section \<open>SSE frames\<close>

abbreviation nl :: char where "nl \<equiv> CHR 0x0A"
abbreviation cr :: char where "cr \<equiv> CHR 0x0D"

definition shed_cr :: "string \<Rightarrow> string" where
  "shed_cr line = unwrap_or line (strip_suffix line [cr])"

definition collect_line :: "string list \<times> string option \<Rightarrow> string \<Rightarrow> string list \<times> string option" where
  "collect_line st line0 =
     (let (out, data) = st; line = shed_cr line0 in
      if line = [] then
        (case data of Some d \<Rightarrow> (out @ [d], None) | None \<Rightarrow> (out, None))
      else
        (case strip_prefix line ''data:'' of
           None \<Rightarrow> (out, data)
         | Some rest0 \<Rightarrow>
             let rest = unwrap_or rest0 (strip_prefix rest0 '' '') in
             (case data of
                Some d \<Rightarrow> (out, Some (d @ newline @ rest))
              | None \<Rightarrow> (out, Some rest))))"

definition collect_frames :: "string \<Rightarrow> string list" where
  "collect_frames text =
     (let (out, data) = foldl collect_line ([], None) (split_on nl text)
      in case data of Some d \<Rightarrow> out @ [d] | None \<Rightarrow> out)"

definition sse_data_frames :: "bytes \<Rightarrow> string list" where
  "sse_data_frames body =
     (if valid_utf8 body then collect_frames body else collect_frames (from_utf8_lossy body))"

section \<open>The accumulator\<close>

record sse_accum =
  sa_text :: string
  sa_usage :: "turn_usage option"
  sa_frame_errors :: u32
  sa_error :: "string option"
  sa_tools :: "tool_call list"
  sa_pending :: "(u64 \<times> tool_call) option"
  sa_chat_tools :: "(u64 \<times> tool_call) list"

definition empty_accum :: sse_accum where
  "empty_accum = \<lparr>sa_text = [], sa_usage = None, sa_frame_errors = 0, sa_error = None,
     sa_tools = [], sa_pending = None, sa_chat_tools = []\<rparr>"

record sse_outcome =
  so_text :: string
  so_usage :: "turn_usage option"
  so_tools :: "tool_call list"
  so_frame_errors :: u32
  so_error :: "string option"

definition matches_rule :: "sse_rule \<Rightarrow> string option \<Rightarrow> json \<Rightarrow> bool" where
  "matches_rule rule event v \<longleftrightarrow>
     (on rule = ''*'' \<or> event = Some (on rule))
     \<and> (case data_type rule of Some dt \<Rightarrow> as_str (jat v ''type'') = Some dt | None \<Rightarrow> True)
     \<and> (case delta_type rule of
          Some dt \<Rightarrow> as_str (jat (jat v ''delta'') ''type'') = Some dt | None \<Rightarrow> True)"

definition frame_index :: "json \<Rightarrow> u64" where
  "frame_index v = unwrap_or 0 (as_u64 (jat v ''index''))"

text \<open>One entry of \<open>delta.tool_calls\<close>: found by index or pushed, then extended in place.\<close>

definition extend_call :: "json \<Rightarrow> tool_call \<Rightarrow> tool_call" where
  "extend_call tc call =
     (let f = jat tc ''function'';
          call = (case as_str (jat f ''name'') of
              Some n \<Rightarrow> if tc_name call = [] then call\<lparr>tc_name := n\<rparr> else call
            | None \<Rightarrow> call)
      in case as_str (jat f ''arguments'') of
           Some a \<Rightarrow> call\<lparr>tc_arguments := tc_arguments call @ a\<rparr>
         | None \<Rightarrow> call)"

fun update_call :: "u64 \<Rightarrow> json \<Rightarrow> (u64 \<times> tool_call) list \<Rightarrow> (u64 \<times> tool_call) list" where
  "update_call idx tc [] = [(idx, extend_call tc \<lparr>tc_name = [], tc_arguments = []\<rparr>)]"
| "update_call idx tc ((i, c) # rest) =
     (if i = idx then (i, extend_call tc c) # rest else (i, c) # update_call idx tc rest)"

definition chunk_call :: "(u64 \<times> tool_call) list \<Rightarrow> json \<Rightarrow> (u64 \<times> tool_call) list" where
  "chunk_call calls tc = update_call (frame_index tc) tc calls"

fun apply_action :: "sse_action \<Rightarrow> json \<Rightarrow> sse_accum \<Rightarrow> sse_accum" where
  "apply_action (TextAt path) v acc =
     (case as_str (resolve_path v path) of
        Some t \<Rightarrow> acc\<lparr>sa_text := sa_text acc @ t\<rparr>
      | None \<Rightarrow> acc)"
| "apply_action ToolOpen v acc =
     (if str_eq (jat (jat v ''content_block'') ''type'') ''tool_use'' then
        (let acc = (case sa_pending acc of
               Some (_, call) \<Rightarrow> acc\<lparr>sa_tools := sa_tools acc @ [call]\<rparr>
             | None \<Rightarrow> acc)
         in acc\<lparr>sa_pending := Some (frame_index v,
              \<lparr>tc_name = str_or_empty (jat (jat v ''content_block'') ''name''),
               tc_arguments = []\<rparr>)\<rparr>)
      else acc)"
| "apply_action ToolArg v acc =
     (case sa_pending acc of
        Some (pi, call) \<Rightarrow>
          if pi = frame_index v then
            (case as_str (jat (jat v ''delta'') ''partial_json'') of
               Some s \<Rightarrow>
                 acc\<lparr>sa_pending := Some (pi, call\<lparr>tc_arguments := tc_arguments call @ s\<rparr>)\<rparr>
             | None \<Rightarrow> acc)
          else acc
      | None \<Rightarrow> acc)"
| "apply_action ToolClose v acc =
     (case sa_pending acc of
        Some (pi, call) \<Rightarrow>
          if pi = frame_index v
          then acc\<lparr>sa_tools := sa_tools acc @ [call], sa_pending := None\<rparr>
          else acc
      | None \<Rightarrow> acc)"
| "apply_action ToolDone v acc =
     (let item = jat v ''item'';
          item_type = str_or_empty (jat item ''type'')
      in if item_type = ''function_call'' \<or> item_type = ''custom_tool_call''
         then acc\<lparr>sa_tools := sa_tools acc @
                [\<lparr>tc_name = str_or_empty (jat item ''name''),
                  tc_arguments = unwrap_or [] (or_else (as_str (jat item ''arguments''))
                                                       (as_str (jat item ''input'')))\<rparr>]\<rparr>
         else acc)"
| "apply_action ToolChunk v acc =
     (case as_array (jat (jat (jat_idx (jat v ''choices'') 0) ''delta'') ''tool_calls'') of
        Some calls \<Rightarrow> acc\<lparr>sa_chat_tools := foldl chunk_call (sa_chat_tools acc) calls\<rparr>
      | None \<Rightarrow> acc)"

definition apply_sse_rule :: "descriptor \<Rightarrow> string option \<Rightarrow> json \<Rightarrow> sse_accum \<Rightarrow> sse_accum" where
  "apply_sse_rule d event v acc =
     foldl (\<lambda>acc rule. if matches_rule rule event v then apply_action (action rule) v acc else acc)
       acc (sse_rules d)"

definition error_marker :: "(json \<Rightarrow> string) \<Rightarrow> string \<Rightarrow> json \<Rightarrow> string option" where
  "error_marker render proto v =
     (if proto = ''openai.responses'' \<or> proto = ''openai.live'' then
        (if as_str (jat v ''type'') = Some ''response.failed''
            \<or> as_str (jat v ''type'') = Some ''response.incomplete''
         then Some (render (jat (jat v ''response'') ''error'')) else None)
      else if proto = ''anthropic.messages'' then
        (if as_str (jat v ''type'') = Some ''error'' then Some (render (jat v ''error'')) else None)
      else None)"

text \<open>Frames that are legal SSE but carry no payload.\<close>

definition furniture :: "string \<Rightarrow> bool" where
  "furniture data \<longleftrightarrow> (let trimmed = trim data in trimmed = [] \<or> trimmed = ''[DONE]'')"

definition feed_frame ::
  "(string \<Rightarrow> json option) \<Rightarrow> (json \<Rightarrow> string) \<Rightarrow> descriptor \<Rightarrow> string \<Rightarrow> sse_accum \<Rightarrow> sse_accum" where
  "feed_frame parse render d data acc =
     (if furniture data then acc
      else case parse data of
        None \<Rightarrow> acc\<lparr>sa_frame_errors := sa_frame_errors acc + 1\<rparr>
      | Some v \<Rightarrow>
          (let acc = (case error_marker render (d_name d) v of
                 Some e \<Rightarrow> acc\<lparr>sa_error := Some e\<rparr> | None \<Rightarrow> acc);
               acc = apply_sse_rule d (as_str (jat v ''type'')) v acc
           in case usage_from_sse_frame d v of
                Some u \<Rightarrow> acc\<lparr>sa_usage := merge_usage (sa_usage acc) u\<rparr>
              | None \<Rightarrow> acc))"

definition finish_accum :: "sse_accum \<Rightarrow> descriptor \<Rightarrow> sse_outcome" where
  "finish_accum acc d =
     (let tools = sa_tools acc @ (case sa_pending acc of Some (_, c) \<Rightarrow> [c] | None \<Rightarrow> []);
          tools = (if tool_strategy d = ChunkedToolCalls
                   then tools @ map snd (sort_key fst (sa_chat_tools acc)) else tools)
      in \<lparr>so_text = sa_text acc, so_usage = sa_usage acc, so_tools = tools,
          so_frame_errors = sa_frame_errors acc, so_error = sa_error acc\<rparr>)"

definition stream_response ::
  "(string \<Rightarrow> json option) \<Rightarrow> (json \<Rightarrow> string) \<Rightarrow> descriptor \<Rightarrow> bytes \<Rightarrow> sse_outcome" where
  "stream_response parse render d body =
     finish_accum (fold (feed_frame parse render d) (sse_data_frames body) empty_accum) d"

section \<open>The incremental pass\<close>

definition rposition :: "('a \<Rightarrow> bool) \<Rightarrow> 'a list \<Rightarrow> nat option" where
  "rposition p xs = List.find (\<lambda>i. p (xs ! i)) (rev [0..<length xs])"

definition end_of :: "string \<Rightarrow> bytes \<Rightarrow> nat option" where
  "end_of pat body =
     (if length body < length pat then None
      else map_option (\<lambda>p. p + length pat)
             (rposition (\<lambda>w. w = pat) (windows (length pat) body)))"

definition last_frame_boundary :: "bytes \<Rightarrow> nat option" where
  "last_frame_boundary body =
     (case (end_of [nl, cr, nl] body, end_of [nl, nl] body) of
        (Some a, Some b) \<Rightarrow> Some (max a b)
      | (found_a, found_b) \<Rightarrow> or_else found_a found_b)"

definition drain_feed ::
  "(string \<Rightarrow> json option) \<Rightarrow> (json \<Rightarrow> string) \<Rightarrow> descriptor \<Rightarrow> bytes \<Rightarrow>
     sse_accum \<times> bytes \<Rightarrow> sse_accum \<times> bytes" where
  "drain_feed parse render d chunk st =
     (let (acc, buf) = st; buf = buf @ chunk in
      case last_frame_boundary buf of
        None \<Rightarrow> (acc, buf)
      | Some n \<Rightarrow>
          (let complete = from_utf8_lossy (take n buf)
           in (fold (feed_frame parse render d) (collect_frames complete) acc, drop n buf)))"

definition drain_finish ::
  "(string \<Rightarrow> json option) \<Rightarrow> (json \<Rightarrow> string) \<Rightarrow> descriptor \<Rightarrow> sse_accum \<times> bytes \<Rightarrow>
     sse_outcome" where
  "drain_finish parse render d st =
     (let (acc, buf) = st
      in finish_accum
           (fold (feed_frame parse render d) (collect_frames (from_utf8_lossy buf)) acc) d)"

section \<open>A response at rest\<close>

definition nonstreaming :: "descriptor \<Rightarrow> json \<Rightarrow> json \<Rightarrow> turn_record option" where
  "nonstreaming d req resp =
     map_option (\<lambda>inp. default_turn\<lparr>
         protocol := d_name d,
         user_input := inp,
         final_output := unwrap_or [] (final_output_of d resp),
         usage := usage_from_nonstreaming d resp,
         model_name := str_or_empty (jat req ''model''),
         user_id := unwrap_or [] (end_user d req),
         tool_calls := (case nonstreaming_tools d of Some f \<Rightarrow> f resp | None \<Rightarrow> [])\<rparr>)
       (user_input_of d req)"

section \<open>The frame splitter and its boundaries\<close>

lemma collect_line_out:
  "collect_line (out, data) l =
     (out @ fst (collect_line ([], data) l), snd (collect_line ([], data) l))"
  by (auto simp: collect_line_def Let_def split: option.splits)

lemma foldl_collect_line_out:
  "foldl collect_line (out, data) ls =
     (out @ fst (foldl collect_line ([], data) ls), snd (foldl collect_line ([], data) ls))"
proof (induction ls arbitrary: out data)
  case Nil
  then show ?case by simp
next
  case (Cons l ls)
  obtain o1 d1 where l: "collect_line ([], data) l = (o1, d1)" by fastforce
  then have "collect_line (out, data) l = (out @ o1, d1)"
    using collect_line_out [of out data l] by simp
  then show ?case
    using Cons.IH [of "out @ o1" d1] Cons.IH [of o1 d1] l by simp
qed

definition blank_line :: "string \<Rightarrow> bool" where
  "blank_line l \<longleftrightarrow> shed_cr l = []"

lemma blank_line_cases: "blank_line []" "blank_line [cr]"
  by (simp_all add: blank_line_def shed_cr_def strip_suffix_def ends_with_def)

lemma collect_line_blank: "blank_line l \<Longrightarrow> snd (collect_line st l) = None"
  by (auto simp: collect_line_def blank_line_def Let_def split: option.splits prod.splits)

definition pending_frame :: "string list \<times> string option \<Rightarrow> string list" where
  "pending_frame st = fst st @ (case snd st of Some d \<Rightarrow> [d] | None \<Rightarrow> [])"

lemma collect_frames_pending:
  "collect_frames t = pending_frame (foldl collect_line ([], None) (split_on nl t))"
  by (auto simp: collect_frames_def pending_frame_def Let_def split: option.splits prod.splits)

text \<open>A blank line ends a frame, so the frames before and after it are read independently.\<close>

lemma collect_frames_split:
  assumes "blank_line l" "nl \<notin> set l"
  shows "collect_frames (x @ nl # l @ nl # y) =
     collect_frames (x @ nl # l @ [nl]) @ collect_frames y"
proof -
  let ?st = "foldl collect_line ([], None) (split_on nl x @ [l])"
  have none: "snd ?st = None"
    using assms(1) by (simp add: collect_line_blank)
  then have st: "?st = (fst ?st, None)" by (metis prod.collapse)
  have one: "split_on nl (x @ nl # l @ nl # z) = (split_on nl x @ [l]) @ split_on nl z" for z
    using assms(2) by (simp add: split_on_sep split_on_no_sep)
  have "collect_frames (x @ nl # l @ nl # z) = fst ?st @ collect_frames z" for z
    unfolding collect_frames_pending one foldl_append [of _ _ "split_on nl x @ [l]"]
    by (subst st, subst foldl_collect_line_out) (simp add: pending_frame_def)
  from this [of y] this [of "[]"] show ?thesis
    by (simp add: collect_frames_pending pending_frame_def collect_line_def shed_cr_def
        strip_suffix_def ends_with_def)
qed

lemma rposition_snoc:
  "rposition p (xs @ [x]) = (if p x then Some (length xs) else rposition p xs)"
  by (auto simp: rposition_def nth_append intro: find_cong)

lemma rposition_SomeD: "rposition p xs = Some i \<Longrightarrow> i < length xs \<and> p (xs ! i)"
  by (induction xs rule: rev_induct)
    (auto simp: rposition_snoc nth_append rposition_def [of p "[]"] split: if_splits)

lemma rposition_max: "j < length xs \<Longrightarrow> p (xs ! j) \<Longrightarrow> \<exists>i. rposition p xs = Some i \<and> j \<le> i"
  by (induction xs rule: rev_induct)
    (auto simp: rposition_snoc nth_append less_Suc_eq_le split: if_splits)

lemma length_windows [simp]: "length (windows n xs) = length xs + 1 - n"
  by (simp add: windows_def)

lemma nth_windows: "i < length xs + 1 - n \<Longrightarrow> windows n xs ! i = take n (drop i xs)"
  by (simp add: windows_def nth_append del: upt_Suc)

lemma end_of_Some:
  assumes "end_of pat b = Some n"
  shows "\<exists>u v. b = u @ pat @ v \<and> n = length u + length pat"
proof -
  from assms obtain p where p: "rposition (\<lambda>w. w = pat) (windows (length pat) b) = Some p"
    and n: "n = p + length pat"
    by (auto simp: end_of_def split: if_splits)
  from rposition_SomeD [OF p] have l: "p < length b + 1 - length pat"
    and w: "take (length pat) (drop p b) = pat"
    by (auto simp: nth_windows simp del: Suc_eq_plus1)
  have "b = take p b @ pat @ drop (length pat) (drop p b)"
    using w by (metis append_take_drop_id)
  moreover have "length (take p b) = p" using l by simp
  ultimately show ?thesis using n by metis
qed

lemma end_of_max:
  assumes "b = u @ pat @ v"
  obtains n where "end_of pat b = Some n" "length u + length pat \<le> n"
proof -
  have "length u < length (windows (length pat) b)"
    and "windows (length pat) b ! length u = pat"
    using assms by (simp_all add: nth_windows)
  then obtain i where "rposition (\<lambda>w. w = pat) (windows (length pat) b) = Some i" "length u \<le> i"
    using rposition_max [of "length u" "windows (length pat) b" "\<lambda>w. w = pat"] by blast
  then show ?thesis
    using assms by (intro that [of "i + length pat"]) (simp_all add: end_of_def)
qed

text \<open>A boundary is the end of a blank line, and the last one.\<close>

lemma last_frame_boundary_Some:
  assumes "last_frame_boundary b = Some n"
  obtains x l y where "b = x @ nl # l @ nl # y" "l = [] \<or> l = [cr]"
    "n = length (x @ nl # l @ [nl])"
proof -
  from assms have "end_of [nl, cr, nl] b = Some n \<or> end_of [nl, nl] b = Some n"
    by (auto simp: last_frame_boundary_def max_def split: option.splits if_splits)
  then show ?thesis
  proof
    assume "end_of [nl, cr, nl] b = Some n"
    from end_of_Some [OF this] obtain u v where "b = u @ [nl, cr, nl] @ v" "n = length u + 3" by auto
    then show ?thesis by (intro that [of u "[cr]" v]) simp_all
  next
    assume "end_of [nl, nl] b = Some n"
    from end_of_Some [OF this] obtain u v where "b = u @ [nl, nl] @ v" "n = length u + 2" by auto
    then show ?thesis by (intro that [of u "[]" v]) simp_all
  qed
qed

lemma last_frame_boundary_max:
  assumes "b = u @ pat @ v" "pat = [nl, nl] \<or> pat = [nl, cr, nl]"
  obtains n where "last_frame_boundary b = Some n" "length u + length pat \<le> n"
proof -
  from end_of_max [OF assms(1)] obtain m where m: "end_of pat b = Some m" "length u + length pat \<le> m" .
  with assms(2) have "\<exists>n. last_frame_boundary b = Some n \<and> m \<le> n"
    by (auto simp: last_frame_boundary_def split: option.splits)
  with m that show ?thesis by (meson le_trans)
qed

lemma boundary_drop: "last_frame_boundary b = Some n \<Longrightarrow> last_frame_boundary (drop n b) = None"
proof (rule ccontr)
  assume n: "last_frame_boundary b = Some n" and "last_frame_boundary (drop n b) \<noteq> None"
  then obtain m where "last_frame_boundary (drop n b) = Some m" by blast
  then obtain x l y where d: "drop n b = x @ nl # l @ nl # y" and l: "l = [] \<or> l = [cr]"
    by (rule last_frame_boundary_Some)
  have len: "n \<le> length b"
    using n by (rule last_frame_boundary_Some) simp
  have b: "b = (take n b @ x) @ (nl # l @ [nl]) @ y"
    using d by (metis append.assoc append_Cons append_Nil append_take_drop_id)
  from l have pat: "nl # l @ [nl] = [nl, nl] \<or> nl # l @ [nl] = [nl, cr, nl]" by auto
  from last_frame_boundary_max [OF b pat] n
  have "length (take n b @ x) + length (nl # l @ [nl]) \<le> n" by auto
  with len show False by simp
qed

lemma ascii_line: "is_ascii nl" "is_ascii cr"
  by (simp_all add: is_ascii_def code_def)

lemma lossy_blank_line:
  "l = [] \<or> l = [cr] \<Longrightarrow>
     from_utf8_lossy (x @ nl # l @ nl # y) = from_utf8_lossy x @ nl # l @ nl # from_utf8_lossy y"
  using from_utf8_lossy_before_ascii [OF ascii_line(1), of "[]"]
    from_utf8_lossy_before_ascii [OF ascii_line(2), of "[]"]
  by (auto simp: from_utf8_lossy_before_ascii ascii_line)

lemma sse_data_frames_lossy: "sse_data_frames body = collect_frames (from_utf8_lossy body)"
  by (simp add: sse_data_frames_def from_utf8_lossy_valid)

lemma frames_at_boundary:
  assumes "last_frame_boundary b = Some n"
  shows "collect_frames (from_utf8_lossy (b @ later)) =
     collect_frames (from_utf8_lossy (take n b)) @ collect_frames (from_utf8_lossy (drop n b @ later))"
proof -
  from assms obtain x l y where b: "b = x @ nl # l @ nl # y" and l: "l = [] \<or> l = [cr]"
    and n: "n = length (x @ nl # l @ [nl])"
    by (rule last_frame_boundary_Some)
  have tk: "take n b = x @ nl # l @ nl # []" and dr: "drop n b = y"
    unfolding b n by simp_all
  have bl: "blank_line l" "nl \<notin> set l" using l blank_line_cases by auto
  have whole: "b @ later = x @ nl # l @ nl # (y @ later)" by (simp add: b)
  show ?thesis
    unfolding whole tk dr lossy_blank_line [OF l] from_utf8_lossy_Nil
    by (rule collect_frames_split [OF bl])
qed

interpretation drain: chunked_feed "\<lambda>b. collect_frames (from_utf8_lossy b)" last_frame_boundary
  "feed_frame parse render d" "drain_feed parse render d" for parse render d
  by unfold_locales (auto simp: drain_feed_def frames_at_boundary boundary_drop)

text \<open>C13 The incremental pass equals the whole-body pass: however the bytes of a response are cut
  into chunks (inside a frame, a delimiter or a multi-byte character), feeding them one by one
  and finishing gives the outcome of \<open>stream_response\<close> on their concatenation.\<close>

theorem drain_equals_stream:
  "drain_finish parse render d (fold (drain_feed parse render d) chunks (empty_accum, [])) =
     stream_response parse render d (concat chunks)"
proof -
  obtain acc buf where f: "fold (drain_feed parse render d) chunks (empty_accum, []) = (acc, buf)"
    by fastforce
  from drain.feed_all [OF f, of "[]"] show ?thesis
    by (simp add: f drain_finish_def stream_response_def sse_data_frames_lossy)
qed

text \<open>The bytes the drain keeps between chunks never contain a complete frame: after any
  sequence of chunks no frame boundary is left in the buffer.\<close>

theorem drain_keeps_partial_frame:
  "last_frame_boundary (snd (fold (drain_feed parse render d) chunks (acc, []))) = None"
proof -
  obtain acc' buf where f: "fold (drain_feed parse render d) chunks (acc, []) = (acc', buf)"
    by fastforce
  have "last_frame_boundary [] = None" by code_simp
  from drain.feed_all_tail [OF this f] f show ?thesis by simp
qed

end
