(* ===== verification/Engine_Laws.thy ===== *)
theory Engine_Laws
  imports Engine
begin

text \<open>
  What a streamed response yields, frame by frame: the error counter, the text, the tool calls of
  each protocol. The frames of a body are \<open>sse_data_frames\<close>; \<open>payloads\<close> are the JSON values of
  those that carry one.
\<close>

section \<open>Frame-wise readers\<close>

definition payload :: "(string \<Rightarrow> json option) \<Rightarrow> string \<Rightarrow> json option" where
  "payload parse f = (if furniture f then None else parse f)"

definition payloads :: "(string \<Rightarrow> json option) \<Rightarrow> bytes \<Rightarrow> json list" where
  "payloads parse body = List.map_filter (payload parse) (sse_data_frames body)"

definition bad_frame :: "(string \<Rightarrow> json option) \<Rightarrow> string \<Rightarrow> bool" where
  "bad_frame parse f \<longleftrightarrow> \<not> furniture f \<and> parse f = None"

definition frame_type :: "json \<Rightarrow> string option" where
  "frame_type v = as_str (jat v ''type'')"

text \<open>A projection of the accumulator that frame errors, error markers and usage leave alone.\<close>

lemma fold_feed_payloads:
  assumes "\<And>acc n. p (acc\<lparr>sa_frame_errors := n\<rparr>) = p acc"
    and "\<And>acc e. p (acc\<lparr>sa_error := e\<rparr>) = p acc"
    and "\<And>acc u. p (acc\<lparr>sa_usage := u\<rparr>) = p acc"
    and step: "\<And>acc v. p (apply_sse_rule d (frame_type v) v acc) = g v (p acc)"
  shows "p (fold (feed_frame parse render d) fs acc) =
     fold g (List.map_filter (payload parse) fs) (p acc)"
proof (induction fs arbitrary: acc)
  case Nil
  then show ?case by (simp add: map_filter_simps)
next
  case (Cons f fs)
  have "p (feed_frame parse render d f acc) =
      (case payload parse f of None \<Rightarrow> p acc | Some v \<Rightarrow> g v (p acc))"
    using step [unfolded frame_type_def] assms(1-3)
    by (auto simp: feed_frame_def payload_def Let_def split: option.split)
  with Cons [of "feed_frame parse render d f acc"] show ?case
    by (auto simp: map_filter_simps split: option.split)
qed

section \<open>Frame errors\<close>

lemma apply_action_frame_errors [simp]:
  "sa_frame_errors (apply_action a v acc) = sa_frame_errors acc"
  by (cases a) (auto simp: Let_def split: option.split prod.split)

lemma apply_action_error [simp]: "sa_error (apply_action a v acc) = sa_error acc"
  by (cases a) (auto simp: Let_def split: option.split prod.split)

lemma apply_sse_rule_proj:
  "(\<And>a acc. p (apply_action a v acc) = p acc) \<Longrightarrow> p (apply_sse_rule d ev v acc) = p acc"
proof -
  assume a: "\<And>a acc. p (apply_action a v acc) = p acc"
  have "p (foldl (\<lambda>acc rule. if matches_rule rule ev v then apply_action (action rule) v acc else acc)
      acc rs) = p acc" for rs
    by (induction rs arbitrary: acc) (simp_all add: a)
  then show ?thesis by (simp add: apply_sse_rule_def)
qed

lemma feed_frame_errors:
  "sa_frame_errors (feed_frame parse render d f acc) =
     sa_frame_errors acc + (if bad_frame parse f then 1 else 0)"
  by (auto simp: feed_frame_def bad_frame_def Let_def apply_sse_rule_proj split: option.split)

text \<open>The error counter of a streamed response is the number of data frames that carry
  something other than the protocol furniture (blank payloads, the \<open>[DONE]\<close> sentinel) and fail to
  parse, modulo the width of the counter; furniture never counts.\<close>

theorem frame_errors_count:
  "so_frame_errors (stream_response parse render d body) =
     of_nat (length (filter (bad_frame parse) (sse_data_frames body)))"
proof -
  have "sa_frame_errors (fold (feed_frame parse render d) fs acc) =
      sa_frame_errors acc + of_nat (length (filter (bad_frame parse) fs))" for fs acc
    by (induction fs arbitrary: acc) (auto simp: feed_frame_errors)
  then show ?thesis
    by (simp add: stream_response_def finish_accum_def empty_accum_def Let_def)
qed

section \<open>openai.responses\<close>

definition text_delta :: "json \<Rightarrow> string" where
  "text_delta v =
     (if frame_type v = Some ''response.output_text.delta'' then str_or_empty (jat v ''delta'') else [])"

definition done_item :: "json \<Rightarrow> tool_call list" where
  "done_item v =
     (if frame_type v = Some ''response.output_item.done''
         \<and> (str_eq (jat (jat v ''item'') ''type'') ''function_call''
            \<or> str_eq (jat (jat v ''item'') ''type'') ''custom_tool_call'')
      then [\<lparr>tc_name = str_or_empty (jat (jat v ''item'') ''name''),
             tc_arguments = unwrap_or [] (or_else (as_str (jat (jat v ''item'') ''arguments''))
                                                  (as_str (jat (jat v ''item'') ''input'')))\<rparr>]
      else [])"

lemma str_or_empty_eq: "s \<noteq> [] \<Longrightarrow> str_or_empty v = s \<longleftrightarrow> str_eq v s"
  by (cases v) auto

lemma resolve_key: "resolve_path v [k] = jat v k \<or> (\<exists>xs. v = JArray xs)"
  by (cases v) (auto simp: resolve_step_def)

lemma frame_type_not_array: "frame_type v = Some t \<Longrightarrow> resolve_path v [k] = jat v k"
  using resolve_key [of v k] by (auto simp: frame_type_def)

lemma responses_step:
  "sa_text (apply_sse_rule responses_descriptor (frame_type v) v acc) = sa_text acc @ text_delta v"
  "sa_tools (apply_sse_rule responses_descriptor (frame_type v) v acc) = sa_tools acc @ done_item v"
  "sa_pending (apply_sse_rule responses_descriptor (frame_type v) v acc) = sa_pending acc"
  by (auto simp: apply_sse_rule_def responses_descriptor_def mk_rule_def matches_rule_def Let_def
      text_delta_def done_item_def frame_type_not_array str_or_empty_eq
      str_or_empty_def unwrap_or_def str_eq_def simp del: resolve_path_Cons
      split: option.split)

lemma fold_keep [simp]: "fold (\<lambda>v t. t) vs t = t"
  by (induction vs) simp_all

lemma fold_append_concat: "fold (\<lambda>v t. t @ f v) vs t = t @ concat (map f vs)"
  by (induction vs arbitrary: t) simp_all

text \<open>C32 A streamed Responses turn is read completely and in order: its text is the
  concatenation of the output-text deltas of the payload frames, its tool calls are exactly the
  complete function-call and custom-tool items, in order of arrival.\<close>

theorem responses_stream:
  "so_text (stream_response parse render responses_descriptor body) =
     concat (map text_delta (payloads parse body))
   \<and> so_tools (stream_response parse render responses_descriptor body) =
     concat (map done_item (payloads parse body))"
proof -
  let ?acc = "fold (feed_frame parse render responses_descriptor) (sse_data_frames body) empty_accum"
  have "sa_text ?acc = concat (map text_delta (payloads parse body))"
    by (subst fold_feed_payloads [where p = sa_text and g = "\<lambda>v t. t @ text_delta v"])
      (simp_all add: responses_step(1) fold_append_concat payloads_def empty_accum_def)
  moreover have "sa_tools ?acc = concat (map done_item (payloads parse body))"
    by (subst fold_feed_payloads [where p = sa_tools and g = "\<lambda>v t. t @ done_item v"])
      (simp_all add: responses_step(2) fold_append_concat payloads_def empty_accum_def)
  moreover have "sa_pending ?acc = None"
    by (subst fold_feed_payloads [where p = sa_pending and g = "\<lambda>v t. t"])
      (simp_all add: responses_step(3) empty_accum_def)
  moreover have "tool_strategy responses_descriptor = DoneItems"
    by (simp add: responses_descriptor_def)
  ultimately show ?thesis
    by (simp add: stream_response_def finish_accum_def)
qed

section \<open>anthropic.messages\<close>

definition opens_tool :: "json \<Rightarrow> bool" where
  "opens_tool v \<longleftrightarrow> frame_type v = Some ''content_block_start''
     \<and> str_eq (jat (jat v ''content_block'') ''type'') ''tool_use''"

definition tools_held :: "sse_accum \<Rightarrow> nat" where
  "tools_held acc = length (sa_tools acc) + (case sa_pending acc of None \<Rightarrow> 0 | Some _ \<Rightarrow> 1)"

lemma anthropic_actions:
  "apply_sse_rule (anthropic_descriptor render) (frame_type v) v acc =
     (let dt = as_str (jat (jat v ''delta'') ''type'') in
      if frame_type v = Some ''content_block_delta'' \<and> dt = Some ''text_delta''
      then apply_action (TextAt [''delta'', ''text'']) v acc
      else if frame_type v = Some ''content_block_start'' then apply_action ToolOpen v acc
      else if frame_type v = Some ''content_block_delta'' \<and> dt = Some ''input_json_delta''
      then apply_action ToolArg v acc
      else if frame_type v = Some ''content_block_stop'' then apply_action ToolClose v acc
      else acc)"
  by (simp add: apply_sse_rule_def anthropic_descriptor_def mk_rule_def matches_rule_def
      Let_def del: apply_action.simps)

lemma tools_held_step:
  "tools_held (apply_sse_rule (anthropic_descriptor render) (frame_type v) v acc) =
     (if opens_tool v then Suc (tools_held acc) else tools_held acc)"
  unfolding anthropic_actions opens_tool_def
  by (auto simp: tools_held_def Let_def split: option.split prod.split)

lemma chat_tools_anthropic:
  "sa_chat_tools (apply_sse_rule (anthropic_descriptor render) (frame_type v) v acc) =
     sa_chat_tools acc"
  unfolding anthropic_actions by (auto simp: Let_def split: option.split prod.split)

text \<open>No tool call of a streamed Messages turn is lost or invented: the turn has exactly as
  many tool calls as payload frames that open a \<open>tool_use\<close> block, also when blocks are never
  closed, closed twice, or interrupted by another one.\<close>

theorem anthropic_tool_conservation:
  "length (so_tools (stream_response parse render (anthropic_descriptor render) body)) =
     length (filter opens_tool (payloads parse body))"
proof -
  let ?d = "anthropic_descriptor render"
  let ?acc = "fold (feed_frame parse render ?d) (sse_data_frames body) empty_accum"
  have count: "fold (\<lambda>v n. if opens_tool v then Suc n else n) vs n = n + length (filter opens_tool vs)"
    for vs n by (induction vs arbitrary: n) simp_all
  have "tools_held ?acc = length (filter opens_tool (payloads parse body))"
    by (subst fold_feed_payloads [where p = tools_held
          and g = "\<lambda>v n. if opens_tool v then Suc n else n"])
      (simp_all add: tools_held_step, simp_all add: tools_held_def empty_accum_def count payloads_def)
  moreover have "tool_strategy ?d = DeltaAssembly"
    by (simp add: anthropic_descriptor_def)
  ultimately show ?thesis
    by (auto simp: stream_response_def finish_accum_def tools_held_def Let_def split: option.splits)
qed

text \<open>The frames of one tool block as the protocol writes them.\<close>

definition open_frame :: "u64 \<Rightarrow> string \<Rightarrow> json" where
  "open_frame i nm = JObject
     [(''content_block'', JObject [(''name'', JString nm), (''type'', JString ''tool_use'')]),
      (''index'', JNumber (PosInt i)), (''type'', JString ''content_block_start'')]"

definition arg_frame :: "u64 \<Rightarrow> string \<Rightarrow> json" where
  "arg_frame i s = JObject
     [(''delta'', JObject [(''partial_json'', JString s), (''type'', JString ''input_json_delta'')]),
      (''index'', JNumber (PosInt i)), (''type'', JString ''content_block_delta'')]"

definition close_frame :: "u64 \<Rightarrow> json" where
  "close_frame i = JObject
     [(''index'', JNumber (PosInt i)), (''type'', JString ''content_block_stop'')]"

definition block_frames :: "u64 \<times> string \<times> string list \<Rightarrow> json list" where
  "block_frames b =
     (case b of (i, nm, ps) \<Rightarrow> open_frame i nm # map (arg_frame i) ps @ [close_frame i])"

definition run_frames :: "(json \<Rightarrow> string) \<Rightarrow> json list \<Rightarrow> sse_accum \<Rightarrow> sse_accum" where
  "run_frames render vs acc =
     fold (\<lambda>v. apply_sse_rule (anthropic_descriptor render) (frame_type v) v) vs acc"

lemma frame_types [simp]:
  "frame_type (open_frame i nm) = Some ''content_block_start''"
  "frame_type (arg_frame i s) = Some ''content_block_delta''"
  "frame_type (close_frame i) = Some ''content_block_stop''"
  by (simp_all add: frame_type_def open_frame_def arg_frame_def close_frame_def)

lemma run_args:
  "run_frames render (map (arg_frame i) ps) (acc\<lparr>sa_pending := Some (i, c)\<rparr>) =
     acc\<lparr>sa_pending := Some (i, c\<lparr>tc_arguments := tc_arguments c @ concat ps\<rparr>)\<rparr>"
proof (induction ps arbitrary: c)
  case Nil
  then show ?case by (simp add: run_frames_def)
next
  case (Cons s ps)
  have "apply_sse_rule (anthropic_descriptor render) (frame_type (arg_frame i s)) (arg_frame i s)
      (acc\<lparr>sa_pending := Some (i, c)\<rparr>)
      = acc\<lparr>sa_pending := Some (i, c\<lparr>tc_arguments := tc_arguments c @ s\<rparr>)\<rparr>"
    unfolding anthropic_actions by (simp add: arg_frame_def frame_index_def frame_type_def Let_def)
  with Cons [of "c\<lparr>tc_arguments := tc_arguments c @ s\<rparr>"] show ?case
    by (simp add: run_frames_def)
qed

lemma run_block:
  "run_frames render (block_frames (i, nm, ps)) (acc\<lparr>sa_pending := None\<rparr>) =
     acc\<lparr>sa_tools := sa_tools acc @ [\<lparr>tc_name = nm, tc_arguments = concat ps\<rparr>],
         sa_pending := None\<rparr>"
proof -
  let ?c = "\<lparr>tc_name = nm, tc_arguments = []\<rparr>"
  have o: "apply_sse_rule (anthropic_descriptor render) (frame_type (open_frame i nm))
      (open_frame i nm) (acc\<lparr>sa_pending := None\<rparr>) = acc\<lparr>sa_pending := Some (i, ?c)\<rparr>"
    unfolding anthropic_actions by (simp add: open_frame_def frame_index_def frame_type_def Let_def)
  have c: "apply_sse_rule (anthropic_descriptor render) (frame_type (close_frame i)) (close_frame i)
      (acc\<lparr>sa_pending := Some (i, t)\<rparr>) =
      acc\<lparr>sa_tools := sa_tools acc @ [t], sa_pending := None\<rparr>" for t
    unfolding anthropic_actions by (simp add: close_frame_def frame_index_def frame_type_def Let_def)
  have "run_frames render (block_frames (i, nm, ps)) (acc\<lparr>sa_pending := None\<rparr>) =
      run_frames render [close_frame i]
        (run_frames render (map (arg_frame i) ps) (acc\<lparr>sa_pending := Some (i, ?c)\<rparr>))"
    using o by (simp add: run_frames_def block_frames_def)
  then show ?thesis
    unfolding run_args using c by (simp add: run_frames_def)
qed

text \<open>C33 Tool blocks written frame by frame are read back: a sequence of complete blocks, each an
  opening frame with a name, any number of argument fragments and the closing frame, yields for
  each block in order the call with that name and the concatenation of its fragments.\<close>

theorem anthropic_blocks_roundtrip:
  "sa_tools (run_frames render (concat (map block_frames bs)) empty_accum) =
     map (\<lambda>(i, nm, ps). \<lparr>tc_name = nm, tc_arguments = concat ps\<rparr>) bs"
proof -
  have "run_frames render (concat (map block_frames bs)) (acc\<lparr>sa_pending := None\<rparr>) =
      acc\<lparr>sa_tools := sa_tools acc @ map (\<lambda>(i, nm, ps). \<lparr>tc_name = nm, tc_arguments = concat ps\<rparr>) bs,
          sa_pending := None\<rparr>" for acc
  proof (induction bs arbitrary: acc)
    case Nil
    then show ?case by (simp add: run_frames_def)
  next
    case (Cons b bs)
    obtain i nm ps where b: "b = (i, nm, ps)" by (cases b)
    have "run_frames render (concat (map block_frames (b # bs))) (acc\<lparr>sa_pending := None\<rparr>) =
        run_frames render (concat (map block_frames bs))
          (run_frames render (block_frames (i, nm, ps)) (acc\<lparr>sa_pending := None\<rparr>))"
      by (simp add: run_frames_def b)
    also have "\<dots> = run_frames render (concat (map block_frames bs))
        ((acc\<lparr>sa_tools := sa_tools acc @ [\<lparr>tc_name = nm, tc_arguments = concat ps\<rparr>]\<rparr>)
          \<lparr>sa_pending := None\<rparr>)"
      by (simp only: run_block)
    finally show ?case by (simp only: Cons.IH) (simp add: b)
  qed
  from this [of empty_accum] show ?thesis by (simp add: empty_accum_def)
qed

section \<open>openai.chat\_completions\<close>

definition call_name :: "json \<Rightarrow> string" where
  "call_name tc = str_or_empty (jat (jat tc ''function'') ''name'')"

definition call_args :: "json \<Rightarrow> string" where
  "call_args tc = str_or_empty (jat (jat tc ''function'') ''arguments'')"

fun first_nonempty :: "string list \<Rightarrow> string" where
  "first_nonempty [] = []"
| "first_nonempty (x # xs) = (if x = [] then first_nonempty xs else x)"

text \<open>What the fragments with one index amount to.\<close>

definition assembled :: "u64 \<Rightarrow> json list \<Rightarrow> tool_call" where
  "assembled i tcs =
     (let mine = filter (\<lambda>tc. frame_index tc = i) tcs
      in \<lparr>tc_name = first_nonempty (map call_name mine),
          tc_arguments = concat (map call_args mine)\<rparr>)"

definition chat_fragments :: "json \<Rightarrow> json list" where
  "chat_fragments v =
     unwrap_or [] (as_array (jat (jat (jat_idx (jat v ''choices'') 0) ''delta'') ''tool_calls''))"

definition chat_text :: "json \<Rightarrow> string" where
  "chat_text v = str_or_empty (resolve_path v [''choices'', ''0'', ''delta'', ''content''])"

lemma first_nonempty_snoc:
  "first_nonempty (xs @ [x]) = (if first_nonempty xs = [] then x else first_nonempty xs)"
  by (induction xs) auto

lemma extend_call_fields:
  "extend_call tc c = \<lparr>tc_name = (if tc_name c = [] then call_name tc else tc_name c),
     tc_arguments = tc_arguments c @ call_args tc\<rparr>"
  by (cases c) (auto simp: extend_call_def call_name_def call_args_def Let_def str_or_empty_def
      split: option.split)

lemma chunk_call_map_of:
  "map_of (chunk_call calls tc) =
     (map_of calls)(frame_index tc \<mapsto> extend_call tc
        (unwrap_or \<lparr>tc_name = [], tc_arguments = []\<rparr> (map_of calls (frame_index tc))))"
proof -
  have "map_of (update_call i tc calls) = (map_of calls)(i \<mapsto> extend_call tc
      (unwrap_or \<lparr>tc_name = [], tc_arguments = []\<rparr> (map_of calls i)))" for i
    by (induction i tc calls rule: update_call.induct) auto
  then show ?thesis by (simp add: chunk_call_def)
qed

lemma chunk_call_keys:
  "map fst (chunk_call calls tc) =
     map fst calls @ (if frame_index tc \<in> fst ` set calls then [] else [frame_index tc])"
proof -
  have "map fst (update_call i tc calls) =
      map fst calls @ (if i \<in> fst ` set calls then [] else [i])" for i
    by (induction i tc calls rule: update_call.induct) auto
  then show ?thesis by (simp add: chunk_call_def)
qed

lemma assembled_snoc:
  "assembled i (tcs @ [tc]) =
     (if frame_index tc = i then extend_call tc (assembled i tcs) else assembled i tcs)"
  by (auto simp: assembled_def Let_def extend_call_fields first_nonempty_snoc)

lemma assembled_none:
  "i \<notin> frame_index ` set tcs \<Longrightarrow> assembled i tcs = \<lparr>tc_name = [], tc_arguments = []\<rparr>"
proof -
  assume "i \<notin> frame_index ` set tcs"
  then have "filter (\<lambda>tc. frame_index tc = i) tcs = []" by (auto simp: filter_empty_conv)
  then show ?thesis by (simp add: assembled_def Let_def)
qed

lemma chunk_calls_invariant:
  "distinct (map fst (foldl chunk_call [] tcs))
   \<and> fst ` set (foldl chunk_call [] tcs) = frame_index ` set tcs
   \<and> map_of (foldl chunk_call [] tcs) =
       (\<lambda>i. if i \<in> frame_index ` set tcs then Some (assembled i tcs) else None)"
proof (induction tcs rule: rev_induct)
  case Nil
  then show ?case by simp
next
  case (snoc tc tcs)
  let ?cs = "foldl chunk_call [] tcs"
  have keys: "map fst (chunk_call ?cs tc) =
      map fst ?cs @ (if frame_index tc \<in> frame_index ` set tcs then [] else [frame_index tc])"
    unfolding chunk_call_keys using snoc by simp
  have dist: "distinct (map fst (chunk_call ?cs tc))"
    using snoc unfolding keys by (simp flip: set_map add: snoc)
  have "set (map fst (chunk_call ?cs tc)) = frame_index ` set (tcs @ [tc])"
    unfolding keys using snoc by auto
  moreover have "map_of (chunk_call ?cs tc) =
      (\<lambda>i. if i \<in> frame_index ` set (tcs @ [tc]) then Some (assembled i (tcs @ [tc])) else None)"
    using snoc by (auto simp: chunk_call_map_of assembled_snoc assembled_none fun_eq_iff)
  ultimately show ?case using dist by simp
qed

lemma sorted_calls:
  "sort_key fst (foldl chunk_call [] tcs) =
     map (\<lambda>i. (i, assembled i tcs)) (sorted_list_of_set (frame_index ` set tcs))"
proof -
  let ?cs = "foldl chunk_call [] tcs"
  note inv = chunk_calls_invariant [of tcs]
  have dist: "distinct (map fst (sort_key fst ?cs))"
    using inv by (simp add: distinct_map)
  have "set (map fst (sort_key fst ?cs)) = frame_index ` set tcs"
    using inv by simp
  then have keys: "map fst (sort_key fst ?cs) = sorted_list_of_set (frame_index ` set tcs)"
    using dist by (intro sorted_distinct_set_unique) simp_all
  have "\<forall>p \<in> set (sort_key fst ?cs). p = (fst p, assembled (fst p) tcs)"
  proof
    fix p
    assume "p \<in> set (sort_key fst ?cs)"
    then have "(fst p, snd p) \<in> set ?cs" by simp
    with inv have "map_of ?cs (fst p) = Some (snd p)" by (intro map_of_is_SomeI) simp_all
    with inv have "snd p = assembled (fst p) tcs" by (simp split: if_splits)
    then show "p = (fst p, assembled (fst p) tcs)" by (simp add: prod_eq_iff)
  qed
  then have id: "(fst p, assembled (fst p) tcs) = p" if "p \<in> set (sort_key fst ?cs)" for p
    using that by metis
  have "sort_key fst ?cs = map (\<lambda>p. (fst p, assembled (fst p) tcs)) (sort_key fst ?cs)"
    by (rule map_idI [symmetric], rule id)
  also have "\<dots> = map (\<lambda>i. (i, assembled i tcs)) (map fst (sort_key fst ?cs))"
    by simp
  finally show ?thesis unfolding keys .
qed

lemma chat_step:
  "sa_text (apply_sse_rule chat_descriptor (frame_type v) v acc) = sa_text acc @ chat_text v"
  "sa_chat_tools (apply_sse_rule chat_descriptor (frame_type v) v acc) =
     foldl chunk_call (sa_chat_tools acc) (chat_fragments v)"
  "sa_tools (apply_sse_rule chat_descriptor (frame_type v) v acc) = sa_tools acc"
  "sa_pending (apply_sse_rule chat_descriptor (frame_type v) v acc) = sa_pending acc"
  by (simp_all add: apply_sse_rule_def chat_descriptor_def mk_rule_def matches_rule_def
      chat_text_def chat_fragments_def str_or_empty_def unwrap_or_def del: resolve_path_Cons
      split: option.split)

text \<open>A streamed chat turn: the text is the concatenation of the content deltas, and the
  fragments of its tool calls are assembled by index, however they interleave. Each index yields
  one call, whose name is the first non-empty one sent and whose arguments are the concatenation
  of its fragments in arrival order; the calls come out by increasing index.\<close>

theorem chat_stream:
  "so_text (stream_response parse render chat_descriptor body) =
     concat (map chat_text (payloads parse body))
   \<and> so_tools (stream_response parse render chat_descriptor body) =
     (let fragments = concat (map chat_fragments (payloads parse body))
      in map (\<lambda>i. assembled i fragments) (sorted_list_of_set (frame_index ` set fragments)))"
proof -
  let ?acc = "fold (feed_frame parse render chat_descriptor) (sse_data_frames body) empty_accum"
  let ?fs = "concat (map chat_fragments (payloads parse body))"
  have flat: "fold (\<lambda>v cs. foldl chunk_call cs (chat_fragments v)) vs cs =
      foldl chunk_call cs (concat (map chat_fragments vs))" for vs cs
    by (induction vs arbitrary: cs) simp_all
  have "sa_text ?acc = concat (map chat_text (payloads parse body))"
    by (subst fold_feed_payloads [where p = sa_text and g = "\<lambda>v t. t @ chat_text v"])
      (simp_all add: chat_step(1) fold_append_concat payloads_def empty_accum_def)
  moreover have "sa_chat_tools ?acc = foldl chunk_call [] ?fs"
    by (subst fold_feed_payloads [where p = sa_chat_tools
          and g = "\<lambda>v cs. foldl chunk_call cs (chat_fragments v)"])
      (simp_all add: chat_step(2) flat payloads_def empty_accum_def)
  moreover have "sa_tools ?acc = []"
    by (subst fold_feed_payloads [where p = sa_tools and g = "\<lambda>v t. t"])
      (simp_all add: chat_step(3) empty_accum_def)
  moreover have "sa_pending ?acc = None"
    by (subst fold_feed_payloads [where p = sa_pending and g = "\<lambda>v t. t"])
      (simp_all add: chat_step(4) empty_accum_def)
  moreover have "tool_strategy chat_descriptor = ChunkedToolCalls"
    by (simp add: chat_descriptor_def)
  ultimately show ?thesis
    by (simp add: stream_response_def finish_accum_def Let_def sorted_calls comp_def)
qed

end
