(* ===== verification/Timestamp.thy ===== *)
theory Timestamp
  imports Prelude
begin

text \<open>
  \<open>iso8601_z\<close> of \<open>src/trace/export.rs\<close>: Unix nanoseconds as an ISO 8601 UTC string, by the
  civil-from-days algorithm. The source computes in \<open>i64\<close>; a \<open>u64\<close> of nanoseconds has at most
  18446744073 seconds, so no operation comes near the width, every dividend is non-negative and
  both \<open>/\<close> and \<open>div_euclid\<close> are the division of \<open>int\<close>.

  The algorithm is verified against the calendar itself: leap years, month lengths, and the number
  of days before a date as the sum of the years and months that precede it.
\<close>

definition civil_of_days :: "int \<Rightarrow> int \<times> int \<times> int" where
  "civil_of_days days =
     (let z = days + 719468;
          era = z div 146097;
          doe = z mod 146097;
          yoe = (doe - doe div 1460 + doe div 36524 - doe div 146096) div 365;
          y = yoe + era * 400;
          doy = doe - (365 * yoe + yoe div 4 - yoe div 100);
          mp = (5 * doy + 2) div 153;
          d = doy - (153 * mp + 2) div 5 + 1;
          m = (if mp < 10 then mp + 3 else mp - 9);
          y = (if m \<le> 2 then y + 1 else y)
      in (y, m, d))"

text \<open>\<open>{:0w}\<close> of a non-negative number.\<close>

definition padded :: "nat \<Rightarrow> int \<Rightarrow> string" where
  "padded w n = (let s = show_nat (nat n) in replicate (w - length s) (CHR ''0'') @ s)"

definition iso8601_z :: "u64 \<Rightarrow> string" where
  "iso8601_z ns =
     (let secs = int (unat ns div 1000000000);
          nanos = int (unat ns mod 1000000000);
          days = secs div 86400;
          secs_of_day = secs mod 86400;
          (y, m, d) = civil_of_days days;
          hh = secs_of_day div 3600;
          mm = (secs_of_day mod 3600) div 60;
          ss = secs_of_day mod 60
      in padded 4 y @ ''-'' @ padded 2 m @ ''-'' @ padded 2 d @ ''T'' @ padded 2 hh @ '':''
         @ padded 2 mm @ '':'' @ padded 2 ss @ ''.'' @ padded 9 nanos @ ''Z'')"

section \<open>The calendar\<close>

definition leap :: "int \<Rightarrow> bool" where
  "leap y \<longleftrightarrow> 4 dvd y \<and> (\<not> 100 dvd y \<or> 400 dvd y)"

definition year_days :: "int \<Rightarrow> int" where
  "year_days y = (if leap y then 366 else 365)"

definition month_days :: "int \<Rightarrow> int \<Rightarrow> int" where
  "month_days y m =
     (if m = 2 then (if leap y then 29 else 28) else if m \<in> {4, 6, 9, 11} then 30 else 31)"

definition valid_date :: "int \<Rightarrow> int \<Rightarrow> int \<Rightarrow> bool" where
  "valid_date y m d \<longleftrightarrow> 1 \<le> m \<and> m \<le> 12 \<and> 1 \<le> d \<and> d \<le> month_days y m"

definition days_before :: "int \<Rightarrow> int \<Rightarrow> int \<Rightarrow> int" where
  "days_before y m d = (\<Sum>k\<in>{1970..<y}. year_days k) + (\<Sum>j\<leftarrow>[1..m - 1]. month_days y j) + (d - 1)"

section \<open>The sums in closed form\<close>

lemma div_between: "0 < n \<Longrightarrow> n * (a div n) \<le> a \<and> a < n * (a div n) + n" for a n :: int
  using pos_mod_bound [of n a] pos_mod_sign [of n a] mult_div_mod_eq [of n a] by linarith

lemma div_is: "n * k \<le> a \<Longrightarrow> a < n * k + n \<Longrightarrow> a div n = k" for a n k :: int
  by (rule int_div_pos_eq [where r = "a - n * k"]) simp_all

lemma div_pred: "0 < n \<Longrightarrow> (y - 1) div n = y div n - (if n dvd y then 1 else 0)" for y n :: int
proof -
  assume n: "0 < n"
  show ?thesis
  proof (cases "n dvd y")
    case True
    then obtain k where "y = n * k" by (rule dvdE)
    moreover have "(n * k - 1) div n = k - 1"
      using n by (intro int_div_pos_eq [where r = "n - 1"]) (simp_all add: algebra_simps)
    ultimately show ?thesis using n by simp
  next
    case False
    then have "0 < y mod n" using n by (simp add: dvd_eq_mod_eq_0 order_less_le)
    moreover have "y mod n < n" using n by simp
    ultimately have "(y - 1) div n = y div n"
      by (intro int_div_pos_eq [where r = "y mod n - 1"]) (simp_all add: algebra_simps minus_mod_eq_mult_div)
    with False show ?thesis by simp
  qed
qed

definition leaps :: "int \<Rightarrow> int" where
  "leaps y = y div 4 - y div 100 + y div 400"

lemma leaps_pred: "leaps (y - 1) = leaps y - (if leap y then 1 else 0)"
proof -
  have up: "400 dvd y \<Longrightarrow> 100 dvd y" "100 dvd y \<Longrightarrow> 4 dvd y"
    using dvd_trans [of 100 400 y] dvd_trans [of 4 100 y] by simp_all
  have d: "(y - 1) div 4 = y div 4 - (if 4 dvd y then 1 else 0)"
    "(y - 1) div 100 = y div 100 - (if 100 dvd y then 1 else 0)"
    "(y - 1) div 400 = y div 400 - (if 400 dvd y then 1 else 0)"
    by (rule div_pred, simp)+
  have split: "(C \<Longrightarrow> B) \<Longrightarrow> (B \<Longrightarrow> A) \<Longrightarrow>
      a - (if A then 1 else 0) - (b - (if B then 1 else 0)) + (c - (if C then 1 else 0))
        = a - b + c - (if A \<and> (\<not> B \<or> C) then 1 else 0)" for A B C and a b c :: int
    by (cases A; cases B; cases C) simp_all
  show ?thesis unfolding leaps_def leap_def d by (rule split) (rule up, assumption)+
qed

lemma sum_year_days: "1970 \<le> y \<Longrightarrow> (\<Sum>k\<in>{1970..<y}. year_days k) = 365 * (y - 1970) + leaps (y - 1) - 477"
proof (induction y rule: int_ge_induct)
  case base
  show ?case by (simp add: leaps_def)
next
  case (step y)
  have "{1970..<y + 1} = insert y {1970..<y}" using step.hyps by auto
  then show ?case using step.IH leaps_pred [of y] by (simp add: year_days_def)
qed

lemma sum_month_days:
  "1 \<le> m \<Longrightarrow> m \<le> 12 \<Longrightarrow> (\<Sum>j\<leftarrow>[1..m - 1]. month_days y j) =
     (if m \<le> 2 then 31 * (m - 1) else 59 + (153 * (m - 3) + 2) div 5 + (if leap y then 1 else 0))"
proof -
  assume "1 \<le> m" "m \<le> 12"
  then have "m \<in> {1, 2, 3, 4, 5, 6, 7, 8, 9, 10, 11, 12}" by (simp add: insert_iff) arith
  then show ?thesis by (elim insertE emptyE) (simp_all add: upto.simps month_days_def)
qed

lemma leaps_mono: "a \<le> b \<Longrightarrow> leaps a \<le> leaps b"
proof (induction b rule: int_ge_induct)
  case (step b)
  then show ?case using leaps_pred [of "b + 1"] by (auto split: if_splits)
qed simp

section \<open>The year of a day\<close>

text \<open>Years run from March here. A 400-year era has centuries of 36524 days (one more in the last),
  a century has 4-year groups of 1461 days (one less in the last, unless it is the last century).\<close>

lemma era_parts:
  fixes doe :: int
  assumes "0 \<le> doe" "doe < 146097"
  obtains c q s where "doe = 36524 * c + 1461 * q + s" "0 \<le> c" "c \<le> 3" "0 \<le> q" "q \<le> 24" "0 \<le> s"
    "s \<le> 1460" "q = 24 \<and> c < 3 \<longrightarrow> s \<le> 1459"
    "doe div 36524 - doe div 146096 = c"
proof -
  define c where "c = min 3 (doe div 36524)"
  define r where "r = doe - 36524 * c"
  have c: "0 \<le> c" "c \<le> 3" using assms by (simp_all add: c_def pos_imp_zdiv_nonneg_iff)
  have r: "0 \<le> r" "r \<le> 36524" "c < 3 \<longrightarrow> r \<le> 36523"
    using assms div_between [of 36524 doe] unfolding r_def c_def min_def by (auto split: if_splits)
  have last: "doe div 36524 - doe div 146096 = c"
  proof (cases "doe = 146096")
    case False
    then have "doe div 146096 = 0" using assms by (intro div_is) simp_all
    moreover have "doe div 36524 \<le> 3" using False assms div_between [of 36524 doe] by linarith
    ultimately show ?thesis by (simp add: c_def)
  qed (simp add: c_def)
  have q: "0 \<le> r div 1461" "r div 1461 \<le> 24" using r div_between [of 1461 r] by linarith+
  have s: "0 \<le> r mod 1461" "r mod 1461 \<le> 1460" by presburger+
  have e: "r = 1461 * (r div 1461) + r mod 1461" by simp
  then have "r div 1461 = 24 \<and> c < 3 \<longrightarrow> r mod 1461 \<le> 1459" using r(3) by linarith
  moreover have "doe = 36524 * c + 1461 * (r div 1461) + r mod 1461" using e r_def by linarith
  ultimately show ?thesis using that c q s last by blast
qed

lemma year_of_era:
  fixes doe :: int
  assumes "0 \<le> doe" "doe < 146097"
  defines "yoe \<equiv> (doe - doe div 1460 + doe div 36524 - doe div 146096) div 365"
  defines "doy \<equiv> doe - (365 * yoe + yoe div 4 - yoe div 100)"
  shows "0 \<le> yoe \<and> yoe \<le> 399 \<and> 0 \<le> doy \<and> doy \<le> 365
     \<and> (doy = 365 \<longrightarrow> 4 dvd yoe + 1 \<and> (\<not> 100 dvd yoe + 1 \<or> yoe = 399))"
proof -
  obtain c q s where p: "doe = 36524 * c + 1461 * q + s" "0 \<le> c" "c \<le> 3" "0 \<le> q" "q \<le> 24" "0 \<le> s"
    "s \<le> 1460" "q = 24 \<and> c < 3 \<longrightarrow> s \<le> 1459" "doe div 36524 - doe div 146096 = c"
    using era_parts [OF assms(1,2)] .
  define t where "t = (24 * c + q + s) div 1460"
  have t: "t = 0 \<and> 24 * c + q + s < 1460 \<or> t = 1 \<and> 1460 \<le> 24 * c + q + s"
    unfolding t_def using p(2-7) div_between [of 1460 "24 * c + q + s"] by arith
  have "doe div 1460 = 25 * c + q + t"
  proof -
    have "doe = 1460 * (25 * c + q) + (24 * c + q + s)" using p(1) by simp
    then show ?thesis unfolding t_def by simp
  qed
  define k where "k = (s - t) div 365"
  have st: "0 \<le> s - t" "s - t \<le> 1459" using t p(2-7) by auto
  have k365: "365 * k \<le> s - t" "s - t < 365 * k + 365"
    using div_between [of 365 "s - t"] by (simp_all add: k_def)
  with st have k: "0 \<le> k" "k \<le> 3" "365 * k \<le> s - t" "s - t < 365 * k + 365" by linarith+
  have "doe - doe div 1460 + doe div 36524 - doe div 146096 = 36500 * c + 1460 * q + (s - t)"
    using p(1,9) \<open>doe div 1460 = 25 * c + q + t\<close> by linarith
  then have y: "yoe = 100 * c + 4 * q + k"
    unfolding yoe_def using k365 by (intro div_is) simp_all
  have y4: "yoe div 4 = 25 * c + q" using k(1,2) unfolding y by (intro div_is) simp_all
  have y100: "yoe div 100 = c" using k(1,2) p(4,5) unfolding y by (intro div_is) simp_all
  have doy: "doy = s - 365 * k" unfolding doy_def y4 y100 using p(1) y by linarith
  have s: "365 * k \<le> s" "s \<le> 365 * k + 365" "s = 365 * k + 365 \<longrightarrow> k = 3"
    using k t p(3,5) by linarith+
  have "4 dvd yoe + 1 \<and> (\<not> 100 dvd yoe + 1 \<or> yoe = 399)" if "doy = 365"
  proof -
    have k3: "k = 3" and "s = 1460" using that s doy by auto
    have four: "yoe + 1 = 4 * (25 * c + q + 1)" using y k3 by simp
    have "4 dvd yoe + 1" unfolding four by (rule dvd_triv_left)
    moreover have "yoe = 399" if "100 dvd yoe + 1"
    proof -
      have e: "yoe + 1 = 100 * c + 4 * (q + 1)" using four by simp
      have "100 dvd 100 * c" by simp
      with that have "100 dvd 4 * (q + 1)" unfolding e by (simp only: dvd_add_right_iff)
      then have "100 \<le> 4 * (q + 1)" using p(4) by (intro zdvd_imp_le) simp_all
      with p(5) have "q = 24" by simp
      moreover from this p(3,8) \<open>s = 1460\<close> have "c = 3" by linarith
      ultimately show ?thesis using y k3 by simp
    qed
    ultimately show ?thesis by blast
  qed
  then show ?thesis using y p(2-5) k(1,2) doy s(1,2) by auto
qed

section \<open>The month of a day\<close>

lemma month_of_year:
  fixes doy :: int
  assumes "0 \<le> doy" "doy \<le> 365"
  defines "mp \<equiv> (5 * doy + 2) div 153"
  shows "0 \<le> mp" "mp \<le> 11" "(153 * mp + 2) div 5 \<le> doy" "doy < (153 * (mp + 1) + 2) div 5"
proof -
  show mp: "0 \<le> mp" "mp \<le> 11" using assms(1,2) div_between [of 153 "5 * doy + 2"] unfolding mp_def by linarith+
  have "153 * mp \<le> 5 * doy + 2" "5 * doy + 2 < 153 * mp + 153"
    using div_between [of 153 "5 * doy + 2"] unfolding mp_def by linarith+
  then have "5 * (doy + 1) \<le> 153 * (mp + 1) + 2" by simp
  then have "(5 * (doy + 1)) div 5 \<le> (153 * (mp + 1) + 2) div 5" by (rule zdiv_mono1) simp
  then show "doy < (153 * (mp + 1) + 2) div 5" by simp
  show "(153 * mp + 2) div 5 \<le> doy"
    using \<open>153 * mp \<le> 5 * doy + 2\<close> div_between [of 5 "153 * mp + 2"] by linarith
qed

section \<open>Correctness\<close>

lemma leap_era: "leap (400 * era + n) \<longleftrightarrow> leap n"
proof -
  have "k dvd 400 * era + n \<longleftrightarrow> k dvd n" if "k dvd 400" for k :: int
    using that by (simp add: dvd_add_right_iff dvd_mult2)
  from this [of 4] this [of 100] this [of 400] show ?thesis by (simp add: leap_def)
qed

text \<open>Day \<open>doy\<close> of the year that starts in March of \<open>y\<close>.\<close>

lemma march_date:
  fixes doy :: int
  assumes doy: "0 \<le> doy" "doy \<le> 365" "doy = 365 \<longrightarrow> leap (y + 1)"
    and pos: "0 \<le> 365 * y + leaps y + doy - 719468"
  defines "mp \<equiv> (5 * doy + 2) div 153"
  defines "d \<equiv> doy - (153 * mp + 2) div 5 + 1"
  defines "m \<equiv> (if mp < 10 then mp + 3 else mp - 9)"
  defines "y' \<equiv> (if m \<le> 2 then y + 1 else y)"
  shows "valid_date y' m d \<and> 1970 \<le> y' \<and> days_before y' m d = 365 * y + leaps y + doy - 719468"
proof -
  have mp_eq: "(5 * doy + 2) div 153 = mp" by (simp add: mp_def)
  note mp = month_of_year [OF doy(1,2), unfolded mp_eq]
  have y: "y \<ge> 1969"
  proof (rule ccontr)
    assume n: "\<not> 1969 \<le> y"
    then have "leaps y \<le> leaps 1968" by (intro leaps_mono) simp
    moreover have "leaps 1968 = 477" by (simp add: leaps_def)
    ultimately show False using pos doy(2) n by linarith
  qed
  have y': "1970 \<le> y'"
  proof (cases "y = 1969")
    case True
    then have "306 \<le> doy" using pos by (simp add: leaps_def)
    then have "10 \<le> mp" using div_between [of 153 "5 * doy + 2"] by (simp add: mp_eq)
    with True mp(2) show ?thesis by (simp add: y'_def m_def)
  qed (use y in \<open>simp add: y'_def\<close>)
  have days: "days_before y' m d = 365 * y + leaps y + doy - 719468"
  proof (cases "mp < 10")
    case True
    then have m: "m = mp + 3" "y' = y" using mp(1) by (simp_all add: m_def y'_def)
    with True mp(1) y' leaps_pred [of y] sum_month_days [of m y'] show ?thesis
      unfolding days_before_def by (simp add: sum_year_days d_def)
  next
    case False
    then have m: "m = mp - 9" "y' = y + 1" using mp(2) by (simp_all add: m_def y'_def)
    have "mp = 10 \<or> mp = 11" using False mp(2) by linarith
    with m mp(2) y' sum_month_days [of m y'] show ?thesis
      unfolding days_before_def by (auto simp: sum_year_days d_def)
  qed
  have "mp \<in> {0, 1, 2, 3, 4, 5, 6, 7, 8, 9, 10, 11}"
    using mp(1,2) by (simp add: insert_iff) arith
  then have "d \<le> month_days y' m" using mp(4) doy(2,3) unfolding d_def y'_def m_def
    by (elim insertE emptyE) (auto simp: month_days_def)
  with mp(1-3) days y' show ?thesis by (auto simp: valid_date_def m_def d_def)
qed

lemma civil_correct:
  assumes "0 \<le> days"
  shows "case civil_of_days days of (y, m, d) \<Rightarrow>
    valid_date y m d \<and> 1970 \<le> y \<and> days_before y m d = days"
proof -
  define era where "era = (days + 719468) div 146097"
  define doe where "doe = (days + 719468) mod 146097"
  define yoe where "yoe = (doe - doe div 1460 + doe div 36524 - doe div 146096) div 365"
  define doy where "doy = doe - (365 * yoe + yoe div 4 - yoe div 100)"
  have doe: "0 \<le> doe" "doe < 146097" by (simp_all add: doe_def)
  note ye = year_of_era [OF doe, folded yoe_def, folded doy_def]
  have leap: "doy = 365 \<longrightarrow> leap (yoe + era * 400 + 1)"
  proof
    assume "doy = 365"
    with ye have "4 dvd yoe + 1" "\<not> 100 dvd yoe + 1 \<or> yoe = 399" by blast+
    then have "leap (yoe + 1)" unfolding leap_def by auto
    then have "leap (400 * era + (yoe + 1))" by (simp only: leap_era)
    then show "leap (yoe + era * 400 + 1)" by (simp add: algebra_simps)
  qed
  have "(yoe + era * 400) div 4 = yoe div 4 + 100 * era"
    using div_between [of 4 yoe] by (intro div_is) simp_all
  moreover have "(yoe + era * 400) div 100 = yoe div 100 + 4 * era"
    using div_between [of 100 yoe] by (intro div_is) simp_all
  moreover have "(yoe + era * 400) div 400 = era" using ye by (intro div_is) simp_all
  ultimately have "leaps (yoe + era * 400) = yoe div 4 - yoe div 100 + 97 * era"
    by (simp add: leaps_def)
  moreover have "146097 * era + doe = days + 719468" by (simp add: era_def doe_def)
  ultimately have days: "365 * (yoe + era * 400) + leaps (yoe + era * 400) + doy - 719468 = days"
    by (simp add: doy_def)
  from ye have "0 \<le> doy" "doy \<le> 365" by blast+
  note md = march_date [of doy "yoe + era * 400", unfolded days, OF this leap assms]
  show ?thesis
    unfolding civil_of_days_def Let_def era_def [symmetric] doe_def [symmetric]
      yoe_def [symmetric] doy_def [symmetric] prod.case by (rule md)
qed

text \<open>The civil-from-days computation is the Gregorian calendar: from the epoch on, it yields a
  date that exists, and the number of days that precede that date is the number given.\<close>

theorem civil_of_days_correct:
  "0 \<le> days \<Longrightarrow>
     (case civil_of_days days of (y, m, d) \<Rightarrow> valid_date y m d \<and> days_before y m d = days)"
  using civil_correct [of days] by auto

lemma length_padded: "0 \<le> n \<Longrightarrow> n < 10 ^ w \<Longrightarrow> 0 < w \<Longrightarrow> length (padded w n) = w"
  using length_show_nat [of "nat n" w] by (simp add: padded_def Let_def nat_less_iff)

lemma civil_year_le:
  "days_before y m d = days \<Longrightarrow> 1970 \<le> y \<Longrightarrow> 1 \<le> d \<Longrightarrow> 365 * (y - 1970) \<le> days"
proof -
  assume a: "days_before y m d = days" "1970 \<le> y" "1 \<le> d"
  have "0 \<le> (\<Sum>j\<leftarrow>[1..m - 1]. month_days y j)"
    by (intro sum_list_nonneg) (auto simp: month_days_def)
  moreover have "leaps 1969 \<le> leaps (y - 1)" using a(2) by (intro leaps_mono) simp
  moreover have "leaps 1969 = 477" by (simp add: leaps_def)
  ultimately show ?thesis using a sum_year_days [OF a(2)] by (simp add: days_before_def)
qed

lemma civil_of_days_correct_witness:
  "case civil_of_days 20705 of (y, m, d) \<Rightarrow> valid_date y m d \<and> days_before y m d = 20705"
  by (rule civil_of_days_correct) simp

text \<open>C40 The text is the instant: it has the 30 characters of the format, its fields are a date of
  the calendar and a time of day, and together they are the given count of nanoseconds.\<close>

theorem iso8601_exact:
  "\<exists>y m d hh mm ss nanos.
     iso8601_z ns = padded 4 y @ ''-'' @ padded 2 m @ ''-'' @ padded 2 d @ ''T'' @ padded 2 hh @ '':''
       @ padded 2 mm @ '':'' @ padded 2 ss @ ''.'' @ padded 9 nanos @ ''Z''
     \<and> length (iso8601_z ns) = 30
     \<and> valid_date y m d \<and> 0 \<le> hh \<and> hh < 24 \<and> 0 \<le> mm \<and> mm < 60 \<and> 0 \<le> ss \<and> ss < 60
     \<and> 0 \<le> nanos \<and> nanos < 1000000000
     \<and> (((days_before y m d * 24 + hh) * 60 + mm) * 60 + ss) * 1000000000 + nanos = int (unat ns)"
proof -
  define secs where "secs = int (unat ns div 1000000000)"
  define sod where "sod = secs mod 86400"
  define nanos where "nanos = int (unat ns mod 1000000000)"
  obtain y m d where civil: "civil_of_days (secs div 86400) = (y, m, d)" by (metis prod_cases3)
  define hh where "hh = sod div 3600"
  define mm where "mm = (sod mod 3600) div 60"
  define ss where "ss = sod mod 60"
  have txt_eq: "iso8601_z ns = padded 4 y @ ''-'' @ padded 2 m @ ''-'' @ padded 2 d @ ''T'' @ padded 2 hh
      @ '':'' @ padded 2 mm @ '':'' @ padded 2 ss @ ''.'' @ padded 9 nanos @ ''Z''"
    unfolding iso8601_z_def Let_def secs_def [symmetric] sod_def [symmetric] nanos_def [symmetric]
      hh_def [symmetric] mm_def [symmetric] ss_def [symmetric] civil prod.case ..
  have secs0: "0 \<le> secs div 86400" by (simp add: secs_def pos_imp_zdiv_nonneg_iff)
  have date: "valid_date y m d" "1970 \<le> y" "days_before y m d = secs div 86400"
    using civil_correct [OF secs0] by (simp_all add: civil)
  have "secs * 1000000000 + nanos =
      int (unat ns div 1000000000 * 1000000000 + unat ns mod 1000000000)"
    by (simp only: secs_def nanos_def of_nat_add of_nat_mult of_nat_numeral)
  then have "secs * 1000000000 + nanos = int (unat ns)" by (simp only: div_mult_mod_eq)
  moreover have sod: "0 \<le> sod" "sod < 86400" "secs = 86400 * (secs div 86400) + sod"
    by (simp_all add: sod_def)
  moreover have hms: "0 \<le> hh" "hh < 24" "0 \<le> mm" "mm < 60" "0 \<le> ss" "ss < 60" "sod = (hh * 60 + mm) * 60 + ss"
  proof -
    have r: "0 \<le> sod mod 3600" "sod mod 3600 < 3600" by simp_all
    show "0 \<le> hh" "hh < 24" using sod(1,2) div_between [of 3600 sod] by (simp_all add: hh_def)
    show "0 \<le> mm" "mm < 60" using r div_between [of 60 "sod mod 3600"] by (simp_all add: mm_def)
    show "0 \<le> ss" "ss < 60" by (simp_all add: ss_def)
    have "sod = 3600 * hh + sod mod 3600" by (simp add: hh_def)
    moreover have "sod mod 3600 = 60 * mm + (sod mod 3600) mod 60" by (simp add: mm_def)
    moreover have "(sod mod 3600) mod 60 = ss" by (simp add: ss_def mod_mod_cancel)
    ultimately show "sod = (hh * 60 + mm) * 60 + ss" by simp
  qed
  ultimately have total:
    "(((days_before y m d * 24 + hh) * 60 + mm) * 60 + ss) * 1000000000 + nanos = int (unat ns)"
    using date(3) by (simp add: algebra_simps)
  have n: "0 \<le> nanos" "nanos < 1000000000" by (simp_all add: nanos_def)
  have "unat ns < 2 ^ 64" using unsigned_less [of ns, where ?'a = nat] by simp
  then have "secs div 86400 < 213504" by (simp add: secs_def)
  moreover have d: "1 \<le> m" "m \<le> 12" "1 \<le> d" "d \<le> 31"
    using date(1) by (auto simp: valid_date_def month_days_def split: if_splits)
  ultimately have "y < 10000" using civil_year_le [OF date(3,2)] by simp
  then have "length (iso8601_z ns) = 30"
    unfolding txt_eq using date(2) d hms n by (simp add: length_padded)
  with txt_eq date(1) hms(1-6) n total show ?thesis by blast
qed

end
