(* ===== verification/Export_Url.thy ===== *)
theory Export_Url
  imports Utf8
begin

text \<open>
  The endpoint handling of \<open>src/trace/export.rs\<close>: the path of the OTLP receiver, the userinfo that
  becomes the Basic-auth header, its percent-decoding, and the flush target built from them.
  Base64 (a crate) is the parameter \<open>b64\<close>.

  A string is its UTF-8 bytes. Slicing a \<open>str\<close> at an offset inside a character panics; the decoder
  slices after every \<open>%\<close>, so its result is an option and \<open>None\<close> is the panic.
\<close>

section \<open>Definitions\<close>

definition normalize_endpoint_path :: "string \<Rightarrow> string" where
  "normalize_endpoint_path endpoint =
     (let trimmed = trim_end_char (CHR ''/'') endpoint in
      if ends_with trimmed ''/v1/traces'' then endpoint
      else trimmed @ ''/v1/traces'')"

text \<open>\<open>u8::from_str_radix(s, 16)\<close>: an optional plus sign, then hexadecimal digits within the width.\<close>

definition hex_value :: "char \<Rightarrow> nat option" where
  "hex_value c =
     (if is_digit c then Some (code c - 48)
      else if 65 \<le> code c \<and> code c \<le> 70 then Some (code c - 55)
      else if 97 \<le> code c \<and> code c \<le> 102 then Some (code c - 87)
      else None)"

fun hex_number :: "nat \<Rightarrow> string \<Rightarrow> nat option" where
  "hex_number acc [] = Some acc"
| "hex_number acc (c # r) =
     (case hex_value c of
        Some v \<Rightarrow> (if acc * 16 + v < 256 then hex_number (acc * 16 + v) r else None)
      | None \<Rightarrow> None)"

definition u8_from_hex :: "string \<Rightarrow> nat option" where
  "u8_from_hex s =
     (let ds = (if starts_with s ''+'' \<and> 1 < length s then drop 1 s else s) in
      if ds = [] then None else hex_number 0 ds)"

text \<open>\<open>is_char_boundary\<close> of the offset that \<open>r\<close> starts at.\<close>

definition boundary :: "string \<Rightarrow> bool" where
  "boundary r \<longleftrightarrow> (case r of [] \<Rightarrow> True | c # _ \<Rightarrow> \<not> is_cont c)"

fun decode_bytes :: "string \<Rightarrow> bytes option" where
  "decode_bytes [] = Some []"
| "decode_bytes (c # r) =
     (if c = CHR ''%'' \<and> 2 \<le> length r then
        (if \<not> boundary r \<or> \<not> boundary (drop 2 r) then None
         else case u8_from_hex (take 2 r) of
                Some v \<Rightarrow> map_option ((#) (char_of v)) (decode_bytes (drop 2 r))
              | None \<Rightarrow> map_option ((#) c) (decode_bytes r))
      else map_option ((#) c) (decode_bytes r))"

definition percent_decode :: "string \<Rightarrow> string option" where
  "percent_decode s = map_option from_utf8_lossy (decode_bytes s)"

definition split_basic_auth :: "(bytes \<Rightarrow> string) \<Rightarrow> string \<Rightarrow> (string \<times> string option) option" where
  "split_basic_auth b64 endpoint =
     (case find_sub ''://'' endpoint of
        None \<Rightarrow> Some (endpoint, None)
      | Some scheme_end \<Rightarrow>
          let rest = drop (scheme_end + 3) endpoint in
          (case find_sub ''@'' rest of
             None \<Rightarrow> Some (endpoint, None)
           | Some i \<Rightarrow>
               if list_all (\<lambda>c. c \<noteq> CHR ''/'' \<and> c \<noteq> CHR ''?'' \<and> c \<noteq> CHR ''#'') (take i rest)
               then map_option
                 (\<lambda>decoded. (take (scheme_end + 3) endpoint @ drop (i + 1) rest,
                             Some (''Basic '' @ b64 decoded)))
                 (percent_decode (take i rest))
               else Some (endpoint, None)))"

definition display_endpoint :: "(bytes \<Rightarrow> string) \<Rightarrow> string \<Rightarrow> string option" where
  "display_endpoint b64 endpoint = map_option fst (split_basic_auth b64 endpoint)"

record flush_target =
  ft_endpoint :: string
  ft_auth_header :: "string option"

definition build_target :: "(bytes \<Rightarrow> string) \<Rightarrow> string \<Rightarrow> flush_target option option" where
  "build_target b64 endpoint =
     (if trim endpoint = [] then Some None
      else map_option (\<lambda>(e, a). Some \<lparr>ft_endpoint = e, ft_auth_header = a\<rparr>)
             (split_basic_auth b64 endpoint))"

section \<open>The receiver's path\<close>

lemma trim_end_char_append:
  "s \<noteq> [] \<Longrightarrow> last s \<noteq> c \<Longrightarrow> trim_end_char c (r @ s) = r @ s"
  by (cases s rule: rev_cases) (simp_all add: trim_end_char_def)

lemma trim_end_char_prefix: "\<exists>r. s = trim_end_char c s @ r"
  unfolding trim_end_char_def
  by (metis rev_append rev_rev_ident takeWhile_dropWhile_id)

text \<open>Every batch is posted to the receiver's path: the normalised endpoint ends with it (up to
  trailing slashes that were configured), keeps everything the operator configured before it, and
  normalising twice changes nothing.\<close>

theorem normalize_endpoint_path_ok:
  "ends_with (trim_end_char (CHR ''/'') (normalize_endpoint_path e)) ''/v1/traces''
     \<and> starts_with (normalize_endpoint_path e) (trim_end_char (CHR ''/'') e)
     \<and> normalize_endpoint_path (normalize_endpoint_path e) = normalize_endpoint_path e"
proof (cases "ends_with (trim_end_char (CHR ''/'') e) ''/v1/traces''")
  case True
  then have "normalize_endpoint_path e = e" by (simp add: normalize_endpoint_path_def)
  with True show ?thesis using trim_end_char_prefix [of e] by (simp add: starts_with_iff)
next
  case False
  then have n: "normalize_endpoint_path e = trim_end_char (CHR ''/'') e @ ''/v1/traces''"
    by (simp add: normalize_endpoint_path_def)
  have "trim_end_char (CHR ''/'') (trim_end_char (CHR ''/'') e @ ''/v1/traces'') =
      trim_end_char (CHR ''/'') e @ ''/v1/traces''"
    by (rule trim_end_char_append) simp_all
  with n show ?thesis by (simp add: normalize_endpoint_path_def ends_with_iff)
qed

section \<open>Credentials\<close>

text \<open>What a client that writes the URL does: every byte outside the safe characters as \<open>%XX\<close>.\<close>

definition hex_upper :: "nat \<Rightarrow> char" where
  "hex_upper d = (if d < 10 then char_of (48 + d) else char_of (55 + d))"

definition percent_encode :: "(char \<Rightarrow> bool) \<Rightarrow> bytes \<Rightarrow> string" where
  "percent_encode safe s =
     concat (map (\<lambda>c. if safe c then [c]
                      else [CHR ''%'', hex_upper (code c div 16), hex_upper (code c mod 16)]) s)"

lemma code_hex_upper: "d < 16 \<Longrightarrow> code (hex_upper d) = (if d < 10 then 48 + d else 55 + d)"
  by (simp add: hex_upper_def)

lemma hex_value_upper: "d < 16 \<Longrightarrow> hex_value (hex_upper d) = Some d"
  by (simp add: hex_value_def is_digit_def code_hex_upper)

lemma hex_upper_ascii: "d < 16 \<Longrightarrow> is_ascii (hex_upper d)"
  by (simp add: is_ascii_def code_hex_upper)

lemma hex_upper_plus: "d < 16 \<Longrightarrow> hex_upper d \<noteq> CHR ''+''"
proof
  assume "d < 16" "hex_upper d = CHR ''+''"
  moreover have "code (CHR ''+'') = 43" by (simp add: code_def)
  ultimately show False using code_hex_upper [of d] by (simp split: if_splits)
qed

lemma u8_from_hex_upper:
  "a < 16 \<Longrightarrow> b < 16 \<Longrightarrow> u8_from_hex [hex_upper a, hex_upper b] = Some (16 * a + b)"
  using hex_upper_plus [of a] by (simp add: u8_from_hex_def starts_with_def hex_value_upper)

lemma percent_encode_Cons:
  "percent_encode safe (c # s) =
     (if safe c then [c] else [CHR ''%'', hex_upper (code c div 16), hex_upper (code c mod 16)])
       @ percent_encode safe s"
  by (simp add: percent_encode_def)

lemma boundary_ascii: "list_all is_ascii s \<Longrightarrow> boundary s"
  by (cases s) (simp_all add: boundary_def ascii_not_cont)

lemma percent_encode_ascii:
  "(\<And>c. safe c \<Longrightarrow> is_ascii c) \<Longrightarrow> list_all is_ascii (percent_encode safe s)"
proof (induction s)
  case (Cons c s)
  have "is_ascii (CHR ''%'')" by (simp add: is_ascii_def code_def)
  with Cons show ?case by (simp add: percent_encode_Cons hex_upper_ascii less_mult_imp_div_less)
qed (simp add: percent_encode_def)

lemma decode_encode:
  "(\<And>c. safe c \<Longrightarrow> is_ascii c \<and> c \<noteq> CHR ''%'') \<Longrightarrow> decode_bytes (percent_encode safe s) = Some s"
proof (induction s)
  case (Cons c s)
  have asc: "list_all is_ascii (percent_encode safe s)" using Cons.prems by (intro percent_encode_ascii) auto
  have d: "code c div 16 < 16" by (rule less_mult_imp_div_less) simp
  have c: "char_of (16 * (code c div 16) + code c mod 16) = c"
    by (simp only: mult_div_mod_eq char_of_code)
  from asc have "boundary (percent_encode safe s)" by (rule boundary_ascii)
  moreover have "boundary (hex_upper (code c div 16) # r)" for r
    using hex_upper_ascii [OF d] by (simp add: boundary_def ascii_not_cont)
  ultimately show ?case
    using Cons d c by (cases "safe c") (auto simp: percent_encode_Cons u8_from_hex_upper)
qed (simp add: percent_encode_def)

lemma hex_upper_alnum:
  "d < 16 \<Longrightarrow> hex_upper d \<noteq> CHR ''@'' \<and> hex_upper d \<noteq> CHR ''/'' \<and> hex_upper d \<noteq> CHR ''?'' \<and> hex_upper d \<noteq> CHR ''#''"
proof -
  assume "d < 16"
  then have "code (hex_upper d) \<in> {48..57} \<union> {65..70}" by (simp add: code_hex_upper)
  moreover have "code (CHR ''@'') = 64" "code (CHR ''/'') = 47" "code (CHR ''?'') = 63" "code (CHR ''#'') = 35"
    by (simp_all add: code_def)
  ultimately show ?thesis by auto
qed

lemma percent_encode_clean:
  assumes "\<And>c. safe c \<Longrightarrow> is_ascii c \<and> c \<notin> {CHR ''%'', CHR ''@'', CHR ''/'', CHR ''?'', CHR ''#''}"
  shows "CHR ''@'' \<notin> set (percent_encode safe s)
    \<and> list_all (\<lambda>c. c \<noteq> CHR ''/'' \<and> c \<noteq> CHR ''?'' \<and> c \<noteq> CHR ''#'') (percent_encode safe s)"
proof (induction s)
  case (Cons c s)
  have "code c div 16 < 16" by (rule less_mult_imp_div_less) simp
  then have "hex_upper (code c div 16) \<notin> {CHR ''@'', CHR ''/'', CHR ''?'', CHR ''#''}"
    "hex_upper (code c mod 16) \<notin> {CHR ''@'', CHR ''/'', CHR ''?'', CHR ''#''}"
    by (simp_all add: hex_upper_alnum)
  with Cons assms [of c] show ?case by (auto simp: percent_encode_Cons)
qed (simp add: percent_encode_def)

lemma find_sub_char: "c \<notin> set u \<Longrightarrow> find_sub [c] (u @ [c] @ v) = Some (length u)"
  by (induction u) (auto simp: starts_with_def)

text \<open>Credentials survive the URL and leave it: for a user and password written percent-encoded
  in the authority (whatever their bytes), the request goes to the URL without them and carries
  exactly \<open>user:password\<close>, decoded, in its Basic-auth header.\<close>

theorem basic_auth_roundtrip:
  assumes "CHR '':'' \<notin> set scheme" and "valid_utf8 creds"
    and "\<And>c. safe c \<Longrightarrow> is_ascii c \<and> c \<notin> {CHR ''%'', CHR ''@'', CHR ''/'', CHR ''?'', CHR ''#''}"
  shows "split_basic_auth b64 (scheme @ ''://'' @ percent_encode safe creds @ ''@'' @ host) =
    Some (scheme @ ''://'' @ host, Some (''Basic '' @ b64 creds))"
proof -
  let ?enc = "percent_encode safe creds"
  have s: "find_sub ''://'' (scheme @ ''://'' @ r) = Some (length scheme)" for r
    using assms(1) by (induction scheme) (auto simp: starts_with_def)
  have clean: "CHR ''@'' \<notin> set ?enc \<and> list_all (\<lambda>c. c \<noteq> CHR ''/'' \<and> c \<noteq> CHR ''?'' \<and> c \<noteq> CHR ''#'') ?enc"
    using assms(3) by (rule percent_encode_clean)
  have at: "find_sub ''@'' (?enc @ ''@'' @ host) = Some (length ?enc)"
    using clean by (intro find_sub_char) simp
  have d: "percent_decode ?enc = Some creds"
    using decode_encode [of safe creds] assms(2,3) by (auto simp: percent_decode_def from_utf8_lossy_valid)
  have drop: "drop (length scheme + 3) (scheme @ ''://'' @ ?enc @ ''@'' @ host) = ?enc @ ''@'' @ host"
    "take (length scheme + 3) (scheme @ ''://'' @ ?enc @ ''@'' @ host) = scheme @ ''://''" by simp_all
  show ?thesis
    unfolding split_basic_auth_def s option.case Let_def drop at using clean d by simp
qed

lemma basic_auth_roundtrip_witness:
  "split_basic_auth id
     (''https'' @ ''://'' @ percent_encode (\<lambda>c. c \<in> set ''user:'') ''user:p@ss'' @ ''@'' @ ''host:4318'') =
   Some (''https'' @ ''://'' @ ''host:4318'', Some (''Basic '' @ id ''user:p@ss''))"
proof (rule basic_auth_roundtrip)
  show "valid_utf8 ''user:p@ss''"
    by (rule valid_utf8_ascii) (simp add: is_ascii_def code_def)
qed (auto simp: is_ascii_def code_def)

text \<open>A percent sign that is not an escape can stop the process: when the second character after
  it is a multi-byte one, the decoder slices inside that character, which panics; everything else
  about the credentials may be valid.\<close>

theorem percent_decode_panics:
  assumes "CHR ''%'' \<notin> set a" and "is_cont c"
  shows "percent_decode (a @ CHR ''%'' # x # y # c # r) = None"
proof -
  have "decode_bytes (a @ CHR ''%'' # x # y # c # r) = None"
    using assms by (induction a) (auto simp: boundary_def)
  then show ?thesis by (simp add: percent_decode_def)
qed

lemma percent_decode_panics_witness:
  "valid_utf8 (''u:p'' @ CHR ''%'' # CHR ''1'' # CHR 0xC3 # CHR 0xA9 # [])
     \<and> percent_decode (''u:p'' @ CHR ''%'' # CHR ''1'' # CHR 0xC3 # CHR 0xA9 # []) = None"
proof
  show "percent_decode (''u:p'' @ CHR ''%'' # CHR ''1'' # CHR 0xC3 # CHR 0xA9 # []) = None"
    by (rule percent_decode_panics) (simp_all add: is_cont_def in_range_def code_def)
  show "valid_utf8 (''u:p'' @ CHR ''%'' # CHR ''1'' # CHR 0xC3 # CHR 0xA9 # [])" by code_simp
qed

end
