(* ===== verification/Export_Span.thy ===== *)
theory Export_Span
  imports Export_Url Timestamp Model "HOL-Library.Sublist"
begin

text \<open>
  The OTLP document of \<open>src/trace/export.rs\<close>: one generation span per turn with its attributes, the
  envelope around a batch, and the request a flush sends. The printer of \<open>serde_json\<close> is the
  parameter \<open>render\<close> (\<open>None\<close>: it failed), the text of the tool calls \<open>render_tools\<close>; the operating
  system's entropy and sha256 are parameters of the random ids.

  A derived \<open>Serialize\<close> writes the fields of a struct in their declared order, so the document is a
  \<open>json\<close> value whose objects list their entries in that order.
\<close>

section \<open>Attributes\<close>

datatype attr_value = Str string | Arr "attr_value list"

record attr =
  a_key :: string
  a_value :: attr_value

definition attr_of :: "string \<Rightarrow> string \<Rightarrow> attr" where
  "attr_of key val = \<lparr>a_key = key, a_value = Str val\<rparr>"

definition attr_array :: "string \<Rightarrow> attr_value list \<Rightarrow> attr" where
  "attr_array key vals = \<lparr>a_key = key, a_value = Arr vals\<rparr>"

definition record_trace_tag :: "turn_record \<Rightarrow> string" where
  "record_trace_tag r = (if trace_tag r = [] then langfuse_trace_tag else trace_tag r)"

definition metadata :: "string \<Rightarrow> string" where
  "metadata k = ''langfuse.trace.metadata.'' @ k"

definition trace_extra :: "turn_record \<Rightarrow> attr list" where
  "trace_extra r =
     (if harness r \<noteq> [] then [attr_of (metadata ''harness'') (harness r)] else [])
   @ (if dialect r \<noteq> [] then [attr_of (metadata ''dialect'') (dialect r)] else [])
   @ (if client_ua r \<noteq> [] then [attr_of (metadata ''client_ua'') (client_ua r)] else [])
   @ map (\<lambda>(n, v). attr_of (metadata (''hdr.'' @ n)) v) (hdr_evidence r)
   @ (if cancelled r then [attr_of (metadata ''cancelled'') ''true''] else [])
   @ (if api_key_fp r \<noteq> [] then [attr_of (metadata ''client_key_fp'') (api_key_fp r)] else [])
   @ (if harness_anomaly r then [attr_of (metadata ''harness_protocol_anomaly'') ''true''] else [])
   @ (if session_synthetic r then [attr_of (metadata ''session_synthetic'') ''true''] else [])
   @ (if session_source r \<noteq> [] then [attr_of (metadata ''session_source'') (session_source r)] else [])
   @ (if 1 < length (harness_candidates r)
      then [attr_of (metadata ''harness_candidates'') (join '','' (harness_candidates r))] else [])
   @ map (\<lambda>(k, v). attr_of (metadata k) v) (harness_enrich r)
   @ [attr_of (metadata ''entry_protocol'') (protocol r)]
   @ (if model_name r \<noteq> [] then [attr_of (metadata ''client_model'') (model_name r)] else [])"

definition span_tags :: "turn_record \<Rightarrow> attr_value list" where
  "span_tags r =
     (if harness r = [] then [Str (record_trace_tag r)]
      else [Str (record_trace_tag r), Str (''harness:'' @ harness r)])"

definition span_attributes ::
  "(json \<Rightarrow> string) \<Rightarrow> (tool_call list \<Rightarrow> string) \<Rightarrow> turn_record \<Rightarrow> attr list" where
  "span_attributes render render_tools r =
     (if session_id r \<noteq> [] then [attr_of ''langfuse.session.id'' (session_id r)] else [])
   @ [attr_of ''protocol'' (protocol r),
      attr_of ''langfuse.trace.name'' langfuse_trace_name,
      attr_array ''langfuse.trace.tags'' (span_tags r),
      attr_of ''langfuse.observation.type'' ''generation'',
      attr_of ''user_input'' (user_input r),
      attr_of ''final_output'' (final_output r),
      attr_of ''raw_request'' (raw_request r),
      attr_of ''raw_response'' (raw_response r),
      attr_of ''breakpoint'' (if breakpoint r then ''true'' else ''false'')]
   @ (if user_input r \<noteq> [] then [attr_of ''langfuse.observation.input'' (user_input r)] else [])
   @ (if user_id r \<noteq> [] then [attr_of ''langfuse.user.id'' (user_id r)] else [])
   @ (if final_output r \<noteq> [] then [attr_of ''langfuse.observation.output'' (final_output r)] else [])
   @ (if model_name r \<noteq> [] then [attr_of ''langfuse.observation.model.name'' (model_name r)] else [])
   @ (case completion_start_ns r of
        Some ns \<Rightarrow> [attr_of ''langfuse.observation.completion_start_time'' (iso8601_z ns)]
      | None \<Rightarrow> [])
   @ (case usage r of
        Some u \<Rightarrow>
          let details = usage_details_json render u in
          if details \<noteq> ''{}'' then [attr_of ''langfuse.observation.usage_details'' details] else []
      | None \<Rightarrow> [])
   @ (if tool_calls r \<noteq> [] then [attr_of ''tool_calls'' (render_tools (tool_calls r))] else [])
   @ trace_extra r"

section \<open>Spans and the document\<close>

record status_json =
  s_code :: nat
  s_message :: string

record span =
  attributes :: "attr list"
  end_time_unix_nano :: string
  kind :: nat
  span_name :: string
  span_id :: string
  start_time_unix_nano :: string
  status :: "status_json option"
  trace_id :: string

definition span_json ::
  "(json \<Rightarrow> string) \<Rightarrow> (tool_call list \<Rightarrow> string) \<Rightarrow> string \<Rightarrow> string \<Rightarrow> turn_record \<Rightarrow> span" where
  "span_json render render_tools tid sid r =
     \<lparr>attributes = span_attributes render render_tools r,
      end_time_unix_nano = show_nat (unat (end_ns r)),
      kind = 3,
      span_name = ''agent.turn.generation'',
      span_id = sid,
      start_time_unix_nano = show_nat (unat (start_ns r)),
      status = map_option (\<lambda>err. \<lparr>s_code = 2, s_message = err\<rparr>) (turn_error r),
      trace_id = tid\<rparr>"

fun value_doc :: "attr_value \<Rightarrow> json" where
  "value_doc (Str s) = JObject [(''stringValue'', JString s)]"
| "value_doc (Arr vs) = JObject [(''arrayValue'', JObject [(''values'', JArray (map value_doc vs))])]"

definition attr_doc :: "attr \<Rightarrow> json" where
  "attr_doc a = JObject [(''key'', JString (a_key a)), (''value'', value_doc (a_value a))]"

definition status_doc :: "status_json \<Rightarrow> json" where
  "status_doc st = JObject [(''code'', JNumber (PosInt (of_nat (s_code st)))), (''message'', JString (s_message st))]"

definition span_doc :: "span \<Rightarrow> json" where
  "span_doc s = JObject
     ([(''attributes'', JArray (map attr_doc (attributes s))),
       (''endTimeUnixNano'', JString (end_time_unix_nano s)),
       (''kind'', JNumber (PosInt (of_nat (kind s)))),
       (''name'', JString (span_name s)),
       (''spanId'', JString (span_id s)),
       (''startTimeUnixNano'', JString (start_time_unix_nano s))]
      @ (case status s of Some st \<Rightarrow> [(''status'', status_doc st)] | None \<Rightarrow> [])
      @ [(''traceId'', JString (trace_id s))])"

definition otlp_doc :: "span list \<Rightarrow> json" where
  "otlp_doc spans = JObject [(''resourceSpans'', JArray [JObject
     [(''resource'', JObject [(''attributes'',
         JArray [attr_doc (attr_of ''service.name'' ''agent-trace-gateway'')])]),
      (''scopeSpans'', JArray [JObject
         [(''scope'', JObject [(''name'', JString ''agent-trace-gateway'')]),
          (''spans'', JArray (map span_doc spans))]])]])]"

text \<open>The ids drawn for a span: the bytes of \<open>/dev/urandom\<close>, or the digest of the clock.\<close>

definition random_bytes :: "(bytes \<Rightarrow> bytes) \<Rightarrow> bytes option \<Rightarrow> nat \<Rightarrow> nat \<Rightarrow> bytes" where
  "random_bytes sha entropy seed n =
     (case entropy of
        Some bs \<Rightarrow> bs
      | None \<Rightarrow> let d = sha (be_bytes 8 seed) in map (\<lambda>i. d ! (i mod 32)) [0..<n])"

definition random_trace_id :: "(bytes \<Rightarrow> bytes) \<Rightarrow> bytes option \<Rightarrow> nat \<Rightarrow> string" where
  "random_trace_id sha entropy seed = hex_encode (random_bytes sha entropy seed 16)"

definition random_span_id :: "(bytes \<Rightarrow> bytes) \<Rightarrow> bytes option \<Rightarrow> nat \<Rightarrow> string" where
  "random_span_id sha entropy seed = hex_encode (random_bytes sha entropy seed 8)"

definition build_otlp_body ::
  "(json \<Rightarrow> bytes option) \<Rightarrow> (json \<Rightarrow> string) \<Rightarrow> (tool_call list \<Rightarrow> string) \<Rightarrow>
     (turn_record \<times> string \<times> string) list \<Rightarrow> bytes" where
  "build_otlp_body to_writer render render_tools batch =
     (case to_writer (otlp_doc (map (\<lambda>(r, tid, sid). span_json render render_tools tid sid r) batch)) of
        Some out \<Rightarrow> out
      | None \<Rightarrow> [])"

definition sat_mul :: "nat \<Rightarrow> nat \<Rightarrow> nat" where
  "sat_mul a b = min usize_max (a * b)"

definition body_size_hint :: "turn_record list \<Rightarrow> nat" where
  "body_size_hint batch = foldl (\<lambda>acc r.
     let content = sat_add (sat_add (sat_add (length (raw_request r)) (length (raw_response r)))
           (sat_mul (length (user_input r)) 2)) (sat_mul (length (final_output r)) 2)
     in sat_add (sat_add acc content) 1024) 0 batch"

section \<open>The request of a flush\<close>

record http_post =
  hp_url :: string
  hp_headers :: "(string \<times> string) list"
  hp_body :: bytes

definition flush_request :: "flush_target \<Rightarrow> bytes \<Rightarrow> http_post" where
  "flush_request t payload =
     \<lparr>hp_url = normalize_endpoint_path (ft_endpoint t),
      hp_headers = [(''content-type'', ''application/json''), (''x-langfuse-ingestion-version'', ''4'')]
        @ (case ft_auth_header t of Some auth \<Rightarrow> [(''authorization'', auth)] | None \<Rightarrow> []),
      hp_body = payload\<rparr>"

section \<open>The byte contract\<close>

text \<open>A value as \<open>serde_json\<close>'s own maps would print it: every object in key order.\<close>

fun canonical :: "json \<Rightarrow> bool" where
  "canonical (JObject m) \<longleftrightarrow> sorted_wrt (<) (map fst m) \<and> (\<forall>(k, v) \<in> set m. canonical v)"
| "canonical (JArray vs) \<longleftrightarrow> (\<forall>v \<in> set vs. canonical v)"
| "canonical _ \<longleftrightarrow> True"

lemma canonical_value_doc: "canonical (value_doc v)"
  by (induction v) auto

lemma canonical_attr_doc: "canonical (attr_doc a)"
  by (simp add: attr_doc_def canonical_value_doc less_char_def)

lemma canonical_span_doc: "canonical (span_doc s)"
  by (auto simp: span_doc_def status_doc_def canonical_attr_doc less_char_def split: option.split)

text \<open>The byte contract of the exporter: the document written straight from structs is one that
  \<open>serde_json\<close>'s sorted maps would hold, key order included, for every batch.\<close>

theorem otlp_doc_canonical: "canonical (otlp_doc spans)"
  by (auto simp: otlp_doc_def canonical_span_doc canonical_attr_doc less_char_def)

section \<open>Attribute keys\<close>

text \<open>The keys an optional part of a list may contribute.\<close>

definition span_keys :: "string list" where
  "span_keys =
     [''langfuse.session.id'', ''protocol'', ''langfuse.trace.name'', ''langfuse.trace.tags'',
      ''langfuse.observation.type'', ''user_input'', ''final_output'', ''raw_request'',
      ''raw_response'', ''breakpoint'', ''langfuse.observation.input'', ''langfuse.user.id'',
      ''langfuse.observation.output'', ''langfuse.observation.model.name'',
      ''langfuse.observation.completion_start_time'', ''langfuse.observation.usage_details'',
      ''tool_calls'']"

definition metadata_names :: "string list" where
  "metadata_names = [''harness'', ''dialect'', ''client_ua'', ''cancelled'', ''client_key_fp'',
     ''harness_protocol_anomaly'', ''session_synthetic'', ''session_source'',
     ''harness_candidates'', ''entry_protocol'', ''client_model'']"

lemma key_attr_of [simp]: "a_key (attr_of k v) = k" "a_key (attr_array k vs) = k"
  by (simp_all add: attr_of_def attr_array_def)

lemma metadata_inj [simp]: "metadata a = metadata b \<longleftrightarrow> a = b"
  by (simp add: metadata_def)

lemma extra_keys:
  "map a_key (trace_extra r) = map metadata
     ((if harness r \<noteq> [] then [''harness''] else []) @ (if dialect r \<noteq> [] then [''dialect''] else [])
      @ (if client_ua r \<noteq> [] then [''client_ua''] else []) @ map (\<lambda>(n, v). ''hdr.'' @ n) (hdr_evidence r)
      @ (if cancelled r then [''cancelled''] else []) @ (if api_key_fp r \<noteq> [] then [''client_key_fp''] else [])
      @ (if harness_anomaly r then [''harness_protocol_anomaly''] else [])
      @ (if session_synthetic r then [''session_synthetic''] else [])
      @ (if session_source r \<noteq> [] then [''session_source''] else [])
      @ (if 1 < length (harness_candidates r) then [''harness_candidates''] else [])
      @ map fst (harness_enrich r) @ [''entry_protocol'']
      @ (if model_name r \<noteq> [] then [''client_model''] else []))"
  by (simp add: trace_extra_def split_def comp_def)

lemma subseq_opt: "subseq (if c then [x] else []) [x]"
  by (cases c) simp_all

definition extra_names :: "turn_record \<Rightarrow> string list" where
  "extra_names r = [''harness''] @ [''dialect''] @ [''client_ua''] @ map (\<lambda>(n, v). ''hdr.'' @ n) (hdr_evidence r)
     @ [''cancelled''] @ [''client_key_fp''] @ [''harness_protocol_anomaly''] @ [''session_synthetic'']
     @ [''session_source''] @ [''harness_candidates''] @ map fst (harness_enrich r) @ [''entry_protocol'']
     @ [''client_model'']"

lemma subseq_extra: "subseq (map a_key (trace_extra r)) (map metadata (extra_names r))"
  unfolding extra_keys extra_names_def
  by (intro subseq_map list_emb_append_mono subseq_opt subseq_order.refl)

lemma distinct_shuffle: "distinct (a @ h @ b @ e @ c) \<longleftrightarrow> distinct ((a @ b @ c) @ h @ e)"
  by auto

lemma extra_names_distinct:
  assumes "distinct (map fst (hdr_evidence r))" "distinct (map fst (harness_enrich r))"
    and "\<And>k. k \<in> fst ` set (harness_enrich r) \<Longrightarrow> k \<notin> set metadata_names \<and> \<not> starts_with k ''hdr.''"
  shows "distinct (extra_names r)"
proof -
  have h: "distinct (map (\<lambda>(n, v). ''hdr.'' @ n) (hdr_evidence r))"
    using assms(1) by (simp add: distinct_map inj_on_def split_def)
  have hdr: "x \<notin> set metadata_names" "starts_with x ''hdr.''"
    if "x \<in> set (map (\<lambda>(n, v). ''hdr.'' @ n) (hdr_evidence r))" for x
    using that by (auto simp: metadata_names_def starts_with_def)
  define H where "H = map (\<lambda>(n, v). ''hdr.'' @ n) (hdr_evidence r)"
  define E where "E = map fst (harness_enrich r)"
  have "distinct metadata_names" by (simp add: metadata_names_def)
  moreover have "set metadata_names \<inter> (set H \<union> set E) = {}" using hdr(1) assms(3) by (auto simp: H_def E_def)
  moreover have "set H \<inter> set E = {}"
  proof -
    have "x \<notin> set E" if "x \<in> set H" for x
      using hdr(2) [of x] that assms(3) [of x] unfolding H_def E_def set_map by blast
    then show ?thesis by blast
  qed
  ultimately have "distinct (metadata_names @ H @ E)" using h assms(2) by (auto simp: H_def E_def)
  moreover have "metadata_names = [''harness'', ''dialect'', ''client_ua''] @ [''cancelled'', ''client_key_fp'',
      ''harness_protocol_anomaly'', ''session_synthetic'', ''session_source'', ''harness_candidates'']
      @ [''entry_protocol'', ''client_model'']" by (simp add: metadata_names_def)
  moreover have "extra_names r = [''harness'', ''dialect'', ''client_ua''] @ H @ [''cancelled'', ''client_key_fp'',
      ''harness_protocol_anomaly'', ''session_synthetic'', ''session_source'', ''harness_candidates''] @ E
      @ [''entry_protocol'', ''client_model'']" by (simp add: extra_names_def H_def E_def)
  ultimately show ?thesis by (simp only: distinct_shuffle)
qed

lemma subseq_distinct: "subseq xs ys \<Longrightarrow> distinct ys \<Longrightarrow> distinct xs"
proof (induction rule: list_emb.induct)
  case (list_emb_Cons2 x y xs ys)
  then have "set xs \<subseteq> set ys" using list_emb_set [of "(=)" xs ys] by auto
  with list_emb_Cons2 show ?case by auto
qed simp_all

lemma span_keys_eq:
  "map a_key (span_attributes render render_tools r) =
     ((if session_id r \<noteq> [] then [''langfuse.session.id''] else [])
      @ [''protocol'', ''langfuse.trace.name'', ''langfuse.trace.tags'', ''langfuse.observation.type'',
         ''user_input'', ''final_output'', ''raw_request'', ''raw_response'', ''breakpoint'']
      @ (if user_input r \<noteq> [] then [''langfuse.observation.input''] else [])
      @ (if user_id r \<noteq> [] then [''langfuse.user.id''] else [])
      @ (if final_output r \<noteq> [] then [''langfuse.observation.output''] else [])
      @ (if model_name r \<noteq> [] then [''langfuse.observation.model.name''] else [])
      @ (if completion_start_ns r \<noteq> None then [''langfuse.observation.completion_start_time''] else [])
      @ (if \<exists>u. usage r = Some u \<and> usage_details_json render u \<noteq> ''{}''
         then [''langfuse.observation.usage_details''] else [])
      @ (if tool_calls r \<noteq> [] then [''tool_calls''] else []))
     @ map a_key (trace_extra r)"
  by (cases "completion_start_ns r"; cases "usage r") (simp_all add: span_attributes_def Let_def)

lemma span_keys_subseq:
  "subseq (map a_key (span_attributes render render_tools r))
     (([''langfuse.session.id'']
      @ [''protocol'', ''langfuse.trace.name'', ''langfuse.trace.tags'', ''langfuse.observation.type'',
         ''user_input'', ''final_output'', ''raw_request'', ''raw_response'', ''breakpoint'']
      @ [''langfuse.observation.input''] @ [''langfuse.user.id''] @ [''langfuse.observation.output'']
      @ [''langfuse.observation.model.name''] @ [''langfuse.observation.completion_start_time'']
      @ [''langfuse.observation.usage_details''] @ [''tool_calls'']) @ map metadata (extra_names r))"
  unfolding span_keys_eq
  by (intro list_emb_append_mono subseq_opt subseq_order.refl subseq_extra)

text \<open>No attribute of a span is written twice: whatever the turn, the attribute keys are distinct,
  as long as the captured header names and the enrichment keys are, and an enrichment key is not
  one of the exporter's own.\<close>

theorem span_keys_distinct:
  assumes "distinct (map fst (hdr_evidence r))" and "distinct (map fst (harness_enrich r))"
    and "\<And>k. k \<in> fst ` set (harness_enrich r) \<Longrightarrow> k \<notin> set metadata_names \<and> \<not> starts_with k ''hdr.''"
  shows "distinct (map a_key (attributes (span_json render render_tools tid sid r)))"
proof -
  have "distinct (map metadata (extra_names r))"
    using extra_names_distinct [OF assms] by (simp add: distinct_map inj_on_def)
  then have "distinct (span_keys @ map metadata (extra_names r))"
    by (auto simp: span_keys_def metadata_def)
  then show ?thesis
    using subseq_distinct [OF span_keys_subseq] by (simp add: span_json_def span_keys_def)
qed

lemma span_keys_distinct_witness:
  "distinct (map a_key (attributes (span_json render render_tools tid sid
     (default_turn\<lparr>hdr_evidence := [(''accept'', ''x''), (''host'', ''y'')],
        harness_enrich := [(''installation_id'', ''z'')]\<rparr>))))"
  by (rule span_keys_distinct) (auto simp: metadata_names_def starts_with_def)

lemma extra_no_span_key: "k \<in> set span_keys \<Longrightarrow> filter (\<lambda>a. a_key a = k) (trace_extra r) = []"
proof -
  assume k: "k \<in> set span_keys"
  have "\<not> starts_with k ''langfuse.trace.metadata.''"
    using k by (auto simp: span_keys_def starts_with_def)
  moreover have "a \<in> set (trace_extra r) \<Longrightarrow> starts_with (a_key a) ''langfuse.trace.metadata.''" for a
  proof -
    assume "a \<in> set (trace_extra r)"
    then have "a_key a \<in> set (map a_key (trace_extra r))" by simp
    then obtain n where "a_key a = metadata n" unfolding extra_keys set_map by blast
    then show ?thesis by (simp only: metadata_def starts_with_append)
  qed
  ultimately show ?thesis by (auto simp: filter_empty_conv)
qed

text \<open>What a turn shows on the wire: the session id, the completion start and the error status are
  there exactly when the turn has them and then once, the tags carry the line and the harness, a
  missing line tag falls back to the default, and the two timestamps are the turn's own.\<close>

theorem span_presence:
  "filter (\<lambda>a. a_key a = ''langfuse.session.id'') (attributes (span_json render render_tools tid sid r)) =
     (if session_id r \<noteq> [] then [attr_of ''langfuse.session.id'' (session_id r)] else [])
   \<and> filter (\<lambda>a. a_key a = ''langfuse.trace.tags'') (attributes (span_json render render_tools tid sid r)) =
     [attr_array ''langfuse.trace.tags''
        (Str (if trace_tag r = [] then ''line:atg'' else trace_tag r)
         # (if harness r = [] then [] else [Str (''harness:'' @ harness r)]))]
   \<and> filter (\<lambda>a. a_key a = ''langfuse.observation.completion_start_time'')
       (attributes (span_json render render_tools tid sid r)) =
     (case completion_start_ns r of
        Some ns \<Rightarrow> [attr_of ''langfuse.observation.completion_start_time'' (iso8601_z ns)] | None \<Rightarrow> [])
   \<and> status (span_json render render_tools tid sid r) =
      map_option (\<lambda>err. \<lparr>s_code = 2, s_message = err\<rparr>) (turn_error r)
   \<and> digits_value (start_time_unix_nano (span_json render render_tools tid sid r)) = unat (start_ns r)
   \<and> digits_value (end_time_unix_nano (span_json render render_tools tid sid r)) = unat (end_ns r)"
proof -
  have no: "filter (\<lambda>a. a_key a = ''langfuse.session.id'') (trace_extra r) = []"
    "filter (\<lambda>a. a_key a = ''langfuse.trace.tags'') (trace_extra r) = []"
    "filter (\<lambda>a. a_key a = ''langfuse.observation.completion_start_time'') (trace_extra r) = []"
    by (rule extra_no_span_key, simp add: span_keys_def)+
  show ?thesis
    by (cases "usage r"; cases "completion_start_ns r")
      (simp_all add: span_json_def span_attributes_def no span_tags_def record_trace_tag_def
        langfuse_trace_tag_def Let_def)
qed

end
