(* ===== verification/Session.thy ===== *)
theory Session
  imports Json
begin

text \<open>
  \<open>crates/atg-protocol/src/session.rs\<close>: the Claude Code shapes of \<open>metadata.user_id\<close>.
  \<open>parse\<close> is \<open>serde_json::from_str\<close>. The source scans characters; over the UTF-8 bytes the
  scans stop at the same place, because a byte of a multi-byte character is never a hex digit.
\<close>

definition find_index :: "('a \<Rightarrow> bool) \<Rightarrow> 'a list \<Rightarrow> nat option" where
  "find_index p xs = (let i = length (takeWhile (\<lambda>x. \<not> p x) xs) in if i < length xs then Some i else None)"

definition split_at_class :: "string \<Rightarrow> nat \<Rightarrow> bool \<Rightarrow> (string \<times> string) option" where
  "split_at_class s n allow_dash =
     (let end = unwrap_or (length s)
            (find_index (\<lambda>(i, c). n \<le> i \<or> \<not> (is_hex c \<or> (allow_dash \<and> c = CHR ''-'')))
              (List.enumerate 0 s))
      in if end \<noteq> n then None else Some (take end s, drop end s))"

definition split_at_hex :: "string \<Rightarrow> nat \<Rightarrow> (string \<times> string) option" where
  "split_at_hex s n = split_at_class s n False"

definition claude_code_legacy_parts :: "string \<Rightarrow> (string \<times> string option) option" where
  "claude_code_legacy_parts user_id =
     Option.bind (strip_prefix user_id ''user_'') (\<lambda>rest.
     Option.bind (split_at_hex rest 64) (\<lambda>(hex64, rest).
     Option.bind (strip_prefix rest ''_account_'') (\<lambda>rest.
       let acct_len = unwrap_or (length rest)
             (find_index (\<lambda>c. \<not> is_hex c \<and> c \<noteq> CHR ''-'') rest);
           account = (if acct_len > 0 then Some (take acct_len rest) else None);
           rest = drop acct_len rest
       in Option.bind (strip_prefix rest ''_session_'') (\<lambda>rest.
          Option.bind (split_at_class rest 36 True) (\<lambda>(uuid36, tail).
            if tail \<noteq> [] \<or> \<not> list_ex (\<lambda>b. b = CHR ''-'') uuid36 then None
            else Some (ascii_lower uuid36, account))))))"

definition claude_code_legacy_user_id_session :: "string \<Rightarrow> string option" where
  "claude_code_legacy_user_id_session user_id = map_option fst (claude_code_legacy_parts user_id)"

definition envelope_session :: "json \<Rightarrow> string option" where
  "envelope_session v =
     opt_filter (\<lambda>s. s \<noteq> []) (map_option trim (Option.bind (jget v ''session_id'') as_str))"

definition metadata_user_id_session ::
  "(string \<Rightarrow> json option) \<Rightarrow> json \<Rightarrow> string option" where
  "metadata_user_id_session parse user_id =
     (case user_id of
        JString s \<Rightarrow>
          (case Option.bind (parse s) envelope_session of
             Some sid \<Rightarrow> Some sid
           | None \<Rightarrow> claude_code_legacy_user_id_session s)
      | JObject _ \<Rightarrow> envelope_session user_id
      | _ \<Rightarrow> None)"

definition metadata_envelope_transform ::
  "(string \<Rightarrow> json option) \<Rightarrow> string \<Rightarrow> string option" where
  "metadata_envelope_transform parse metadata_str =
     Option.bind (parse metadata_str) (\<lambda>parsed.
     Option.bind (jget parsed ''user_id'') (\<lambda>u.
     Option.bind (as_str u) (\<lambda>user_id.
       metadata_user_id_session parse (unwrap_or (JString user_id) (parse user_id)))))"

section \<open>Laws\<close>

definition in_class :: "bool \<Rightarrow> char \<Rightarrow> bool" where
  "in_class dash c \<longleftrightarrow> is_hex c \<or> (dash \<and> c = CHR ''-'')"

lemma find_index_takeWhile:
  "unwrap_or (length xs) (find_index p xs) = length (takeWhile (\<lambda>x. \<not> p x) xs)"
  by (simp add: find_index_def Let_def) (metis length_takeWhile_le nat_less_le)

lemma enumerate_takeWhile:
  "length (takeWhile (\<lambda>(i, c). i < n + k \<and> q c) (List.enumerate k s)) =
     length (takeWhile q (take n s))"
proof (induction s arbitrary: n k)
  case Nil
  then show ?case by simp
next
  case (Cons a s)
  show ?case
  proof (cases n)
    case 0
    then show ?thesis by simp
  next
    case (Suc m)
    with Cons.IH [of m "Suc k"] show ?thesis by simp
  qed
qed

lemma length_takeWhile_all: "length (takeWhile q xs) = length xs \<longleftrightarrow> list_all q xs"
  by (induction xs) auto

lemma split_at_class_Some:
  "split_at_class s n dash = Some (a, b) \<longleftrightarrow>
     s = a @ b \<and> length a = n \<and> list_all (in_class dash) a"
proof -
  let ?e = "length (takeWhile (in_class dash) (take n s))"
  have neg: "(\<lambda>x. \<not> (case x of (i, c) \<Rightarrow> n \<le> i \<or> \<not> (is_hex c \<or> dash \<and> c = CHR ''-''))) =
      (\<lambda>(i, c). i < n + 0 \<and> in_class dash c)"
    by (auto simp: in_class_def)
  have "unwrap_or (length s) (find_index
      (\<lambda>(i, c). n \<le> i \<or> \<not> (is_hex c \<or> dash \<and> c = CHR ''-'')) (List.enumerate 0 s)) = ?e"
    using find_index_takeWhile [of "List.enumerate 0 s"
        "\<lambda>(i, c). n \<le> i \<or> \<not> (is_hex c \<or> dash \<and> c = CHR ''-'')"]
    by (simp only: neg enumerate_takeWhile length_enumerate)
  then have "split_at_class s n dash = (if ?e \<noteq> n then None else Some (take ?e s, drop ?e s))"
    by (simp add: split_at_class_def Let_def)
  moreover have "?e = n \<longleftrightarrow> n \<le> length s \<and> list_all (in_class dash) (take n s)"
  proof
    assume e: "?e = n"
    then have "n \<le> length (take n s)" by (metis length_takeWhile_le)
    then show "n \<le> length s \<and> list_all (in_class dash) (take n s)"
      using e length_takeWhile_all [of "in_class dash" "take n s"] by simp
  next
    assume "n \<le> length s \<and> list_all (in_class dash) (take n s)"
    then show "?e = n" using length_takeWhile_all [of "in_class dash" "take n s"] by simp
  qed
  ultimately show ?thesis
    by (auto simp: append_eq_conv_conj)
qed

lemma acct_split:
  assumes "list_all (in_class True) a"
  shows "takeWhile (in_class True) (a @ ''_session_'' @ u) = a"
proof -
  have "takeWhile (in_class True) (a @ CHR ''_'' # (''session_'' @ u)) = a"
    using assms by (simp add: takeWhile_append in_class_def is_hex_def is_digit_def code_def
        list_all_iff)
  then show ?thesis by simp
qed

lemma legacy_shape:
  assumes "list_all (in_class False) h" "length h = 64" "list_all (in_class True) a"
    "list_all (in_class True) u" "length u = 36" "CHR ''-'' \<in> set u"
  shows "claude_code_legacy_parts (''user_'' @ h @ ''_account_'' @ a @ ''_session_'' @ u) =
     Some (ascii_lower u, if a = [] then None else Some a)"
proof -
  have h: "split_at_hex (h @ ''_account_'' @ a @ ''_session_'' @ u) 64 =
      Some (h, ''_account_'' @ a @ ''_session_'' @ u)"
    using assms by (simp add: split_at_hex_def split_at_class_Some)
  have neg: "(\<lambda>c. \<not> (\<not> is_hex c \<and> c \<noteq> CHR ''-'')) = in_class True"
    by (auto simp: in_class_def)
  have i: "unwrap_or (length (a @ ''_session_'' @ u))
      (find_index (\<lambda>c. \<not> is_hex c \<and> c \<noteq> CHR ''-'') (a @ ''_session_'' @ u)) = length a"
    by (simp only: find_index_takeWhile neg acct_split assms)
  have u: "split_at_class u 36 True = Some (u, [])"
    using assms by (simp add: split_at_class_Some)
  have sp: "strip_prefix (p @ x) p = Some x" for p x :: string
    by (simp add: strip_prefix_Some)
  have d: "drop (length a) (a @ x) = x" "take (length a) (a @ x) = a" for x
    by simp_all
  show ?thesis
    unfolding claude_code_legacy_parts_def sp Option.bind.bind_lunit h prod.case i Let_def d u
    using assms(6) by (simp add: list_ex_iff)
qed

lemma legacy_parts_SomeD:
  assumes "claude_code_legacy_parts s = Some (sid, acct)"
  obtains h a u where "s = ''user_'' @ h @ ''_account_'' @ a @ ''_session_'' @ u"
    "list_all (in_class False) h" "length h = 64" "list_all (in_class True) a"
    "list_all (in_class True) u" "length u = 36" "CHR ''-'' \<in> set u"
proof -
  have neg: "(\<lambda>c. \<not> (\<not> is_hex c \<and> c \<noteq> CHR ''-'')) = in_class True"
    by (auto simp: in_class_def)
  from assms obtain r1 h r2 r3 r4 u tail n
    where 1: "s = ''user_'' @ r1" "split_at_hex r1 64 = Some (h, r2)" "r2 = ''_account_'' @ r3"
      and n: "n = unwrap_or (length r3) (find_index (\<lambda>c. \<not> is_hex c \<and> c \<noteq> CHR ''-'') r3)"
      and 2: "drop n r3 = ''_session_'' @ r4" "split_at_class r4 36 True = Some (u, tail)"
        "tail = []" "list_ex (\<lambda>b. b = CHR ''-'') u"
    by (auto simp: claude_code_legacy_parts_def bind_eq_Some_conv strip_prefix_Some Let_def
        split: if_splits prod.splits)
  have n': "n = length (takeWhile (in_class True) r3)"
    by (simp only: n find_index_takeWhile neg)
  define a where "a = takeWhile (in_class True) r3"
  have r3: "r3 = a @ ''_session_'' @ r4"
    unfolding a_def 2(1) [symmetric] n' by (simp flip: dropWhile_eq_drop)
  have a: "list_all (in_class True) a"
    by (auto simp: a_def list_all_iff dest: set_takeWhileD)
  have r1: "r1 = h @ r2" "length h = 64" "list_all (in_class False) h"
    using 1(2) by (simp_all only: split_at_hex_def split_at_class_Some)
  have r4: "r4 = u" "length u = 36" "list_all (in_class True) u"
    using 2(2,3) by (simp_all add: split_at_class_Some)
  have d: "CHR ''-'' \<in> set u" using 2(4) by (auto simp: list_ex_iff)
  have s: "s = ''user_'' @ h @ ''_account_'' @ a @ ''_session_'' @ u"
    by (simp only: 1(1,3) r1(1) r3 r4(1))
  show ?thesis by (rule that [OF s r1(3,2) a r4(3,2) d])
qed

lemma legacy_session_length:
  assumes "claude_code_legacy_parts s = Some (sid, acct)"
  shows "length sid = 36"
proof -
  from assms obtain h a u where s: "s = ''user_'' @ h @ ''_account_'' @ a @ ''_session_'' @ u"
    and cl: "list_all (in_class False) h" "length h = 64" "list_all (in_class True) a"
    "list_all (in_class True) u" "length u = 36" "CHR ''-'' \<in> set u"
    by (rule legacy_parts_SomeD)
  have "sid = ascii_lower u"
    using assms unfolding s legacy_shape [OF cl] by (simp only: option.inject prod.inject)
  with cl(5) show ?thesis by simp
qed

text \<open>C36 The hand-rolled matcher accepts exactly the language of the pattern
  \<open>user_[hex]{64}_account_[hex-]*_session_[hex-]{36}\<close> with a dash in the session part, and
  answers that part in lower case with the account segment, absent when empty.\<close>

theorem legacy_parts_language:
  "claude_code_legacy_parts s = Some (sid, acct) \<longleftrightarrow>
     (\<exists>h a u. s = ''user_'' @ h @ ''_account_'' @ a @ ''_session_'' @ u
        \<and> length h = 64 \<and> list_all (in_class False) h \<and> list_all (in_class True) a
        \<and> length u = 36 \<and> list_all (in_class True) u \<and> CHR ''-'' \<in> set u
        \<and> sid = ascii_lower u \<and> acct = (if a = [] then None else Some a))"
  (is "?L \<longleftrightarrow> ?R")
proof
  assume l: ?L
  then obtain h a u where s: "s = ''user_'' @ h @ ''_account_'' @ a @ ''_session_'' @ u"
    and cl: "list_all (in_class False) h" "length h = 64" "list_all (in_class True) a"
    "list_all (in_class True) u" "length u = 36" "CHR ''-'' \<in> set u"
    by (rule legacy_parts_SomeD)
  have "(sid, acct) = (ascii_lower u, if a = [] then None else Some a)"
    using l unfolding s legacy_shape [OF cl] by (simp only: option.inject)
  then have e: "sid = ascii_lower u" "acct = (if a = [] then None else Some a)" by simp_all
  show ?R by (intro exI [of _ h] exI [of _ a] exI [of _ u] conjI s cl e)
next
  assume ?R
  then obtain h a u where "s = ''user_'' @ h @ ''_account_'' @ a @ ''_session_'' @ u"
    "length h = 64" "list_all (in_class False) h" "list_all (in_class True) a"
    "length u = 36" "list_all (in_class True) u" "CHR ''-'' \<in> set u"
    "sid = ascii_lower u" "acct = (if a = [] then None else Some a)"
    by (elim exE conjE) (rule that)
  with legacy_shape [of h a u] show ?L by (simp only: refl)
qed

lemma envelope_session_Some:
  "envelope_session v = Some sid \<Longrightarrow> sid \<noteq> [] \<and> trim sid = sid"
  by (auto simp: envelope_session_def)

lemma metadata_session_nonblank:
  assumes "metadata_user_id_session parse v = Some sid"
  shows "sid \<noteq> []"
proof -
  have legacy: "claude_code_legacy_user_id_session s = Some sid \<Longrightarrow> sid \<noteq> []" for s
    by (auto simp: claude_code_legacy_user_id_session_def dest: legacy_session_length)
  show ?thesis
    using assms legacy envelope_session_Some
    by (cases v) (auto simp: metadata_user_id_session_def bind_eq_Some_conv split: option.splits)
qed

end
