(* ===== verification/Config.thy ===== *)
theory Config
  imports Session Utf8
begin

text \<open>
  \<open>src/config.rs\<close>: the schema of \<open>atg.toml\<close>, its loading, its value-domain rules and the
  reading of the upstream address. Parameters: \<open>read\<close> is \<open>std::fs::read\<close> (an error text or the
  bytes), \<open>sha\<close> SHA-256, \<open>toml\<close> the deserializer of the \<open>toml\<close> crate (an error is the start of
  its span, if any, and its message), \<open>dbg\<close> the \<open>Debug\<close> rendering of a string inside an error
  text, and \<open>bench\<close> the build feature \<open>bench-trace-mode\<close>.
\<close>

section \<open>Schema\<close>

definition SCHEMA_VERSION :: u32 where
  "SCHEMA_VERSION = 1"

record server_cfg =
  listen :: string
  upstream :: string
  sni :: string
  worker_threads :: u32
  max_ws_frame_payload :: u64

record trace_cfg =
  tr_tag :: string
  tr_mode :: string

record drain_cfg =
  on_cancel :: bool
  timeout_secs :: u64

record capture_cfg =
  capture_max_bytes :: u64

record store_cfg =
  store_max_records :: u64
  store_max_bytes :: u64

record stitch_cfg =
  stitch_capacity :: u64
  stitch_ttl_ms :: u64

record api_key_cfg =
  salt :: string

record export_cfg =
  otlp_endpoint :: string
  max_inflight :: u64
  export_workers :: u64

record config =
  version :: u32
  c_server :: server_cfg
  c_trace :: trace_cfg
  c_drain :: drain_cfg
  c_capture :: capture_cfg
  c_store :: store_cfg
  c_stitch :: stitch_cfg
  c_api_key :: api_key_cfg
  c_export :: export_cfg

datatype config_error =
    IoError string string
  | ParseError string nat nat string
  | VersionError string u32
  | InvalidKey string string string

definition display_error :: "config_error \<Rightarrow> string" where
  "display_error e =
     (case e of
        IoError p source \<Rightarrow> ''cannot read file: '' @ source
      | ParseError p line col msg \<Rightarrow>
          ''TOML parse error at line '' @ show_nat line @ '' column '' @ show_nat col @ '': '' @ msg
      | VersionError p found \<Rightarrow>
          ''unsupported config version '' @ show_nat (unat found)
          @ '' (this binary supports version '' @ show_nat (unat SCHEMA_VERSION) @ '')''
      | InvalidKey p key reason \<Rightarrow> ''invalid '' @ key @ '': '' @ reason)"

fun error_path :: "config_error \<Rightarrow> string" where
  "error_path (IoError p source) = p"
| "error_path (ParseError p line col msg) = p"
| "error_path (VersionError p found) = p"
| "error_path (InvalidKey p key reason) = p"

fun at_path :: "string \<Rightarrow> config_error \<Rightarrow> config_error" where
  "at_path path (VersionError p found) = VersionError path found"
| "at_path path (InvalidKey p key reason) = InvalidKey path key reason"
| "at_path path other = other"

record loaded =
  ld_config :: config
  ld_sha256 :: bytes
  ld_path :: string
  ld_len :: u64

section \<open>Value domains\<close>

definition port_ok :: "string \<Rightarrow> bool" where
  "port_ok p \<longleftrightarrow> (case parse_uint 65535 p of Some v \<Rightarrow> 1 \<le> v \<and> v \<le> 65535 | None \<Rightarrow> False)"

definition valid_listen :: "string \<Rightarrow> bool" where
  "valid_listen l =
     (let parts =
        (case strip_prefix l ''['' of
           Some v6 \<Rightarrow>
             Option.bind (split_once v6 '']'') (\<lambda>(h, rest).
               map_option (\<lambda>p. (h, p)) (strip_prefix rest '':''))
         | None \<Rightarrow> rsplit_once l (CHR '':''))
      in case parts of
           None \<Rightarrow> False
         | Some (host, port) \<Rightarrow> trim host \<noteq> [] \<and> port_ok port)"

text \<open>The part of a URL rest before its first slash, and the rest from that slash.\<close>

definition authority_of :: "string \<Rightarrow> string" where
  "authority_of r = (case find_index (\<lambda>c. c = CHR ''/'') r of Some i \<Rightarrow> take i r | None \<Rightarrow> r)"

definition path_of :: "string \<Rightarrow> string" where
  "path_of r = (case find_index (\<lambda>c. c = CHR ''/'') r of
     Some i \<Rightarrow> trim_end_char (CHR ''/'') (drop i r) | None \<Rightarrow> [])"

definition valid_upstream :: "string \<Rightarrow> bool" where
  "valid_upstream u =
     (case (case split_once u ''://'' of
              Some (scheme, rest) \<Rightarrow> (if scheme \<noteq> ''http'' \<and> scheme \<noteq> ''https'' then None else Some rest)
            | None \<Rightarrow> Some u) of
        None \<Rightarrow> False
      | Some rest \<Rightarrow>
          (let authority = authority_of rest;
               parts =
                 (case strip_prefix authority ''['' of
                    Some v6 \<Rightarrow> map_option (\<lambda>(h, rest). (h, strip_prefix rest '':'')) (split_once v6 '']'')
                  | None \<Rightarrow>
                      (case rsplit_once authority (CHR '':'') of
                         Some (h, p) \<Rightarrow> Some (h, Some p)
                       | None \<Rightarrow> Some (authority, None)))
           in case parts of
                None \<Rightarrow> False
              | Some (host, port) \<Rightarrow>
                  trim host \<noteq> [] \<and> (case port of None \<Rightarrow> True | Some p \<Rightarrow> port_ok p)))"

definition valid_trace_mode :: "bool \<Rightarrow> string \<Rightarrow> bool" where
  "valid_trace_mode bench mode \<longleftrightarrow>
     (if bench then mode = ''full'' \<or> mode = ''off'' else mode = ''full'')"

definition parse_upstream :: "string \<Rightarrow> string \<times> string \<times> nat \<times> string" where
  "parse_upstream u =
     (let (scheme, rest) =
            (case split_once u ''://'' of Some (s, r) \<Rightarrow> (ascii_lower s, r) | None \<Rightarrow> (''http'', u));
          authority = authority_of rest;
          path = path_of rest;
          default_port = (if scheme = ''https'' then 443 else 80);
          (host, port) =
            (case strip_prefix authority ''['' of
               Some v6 \<Rightarrow>
                 (case split_once v6 '']'' of
                    Some (h, rest) \<Rightarrow>
                      (h, unwrap_or default_port
                            (Option.bind (strip_prefix rest '':'') (parse_uint 65535)))
                  | None \<Rightarrow> (v6, default_port))
             | None \<Rightarrow>
                 (case rsplit_once authority (CHR '':'') of
                    Some (h, p) \<Rightarrow>
                      if p \<noteq> [] \<and> list_all is_digit p
                      then (h, unwrap_or default_port (parse_uint 65535 p))
                      else (authority, default_port)
                  | None \<Rightarrow> (authority, default_port)))
      in (scheme, host, port, path))"

section \<open>Validation\<close>

definition invalid :: "bool \<Rightarrow> string \<Rightarrow> string \<Rightarrow> config_error option" where
  "invalid ok key reason = (if ok then None else Some (InvalidKey [] key reason))"

definition at_least_one :: "string \<Rightarrow> nat \<Rightarrow> bool \<times> string \<times> string" where
  "at_least_one key v = (1 \<le> v, key, ''must be >= 1 (found '' @ show_nat v @ '')'')"

text \<open>The rules of \<open>validate\<close>, in the order of its \<open>?\<close> chain.\<close>

definition rules :: "(string \<Rightarrow> string) \<Rightarrow> bool \<Rightarrow> config \<Rightarrow> (bool \<times> string \<times> string) list" where
  "rules dbg bench cfg =
     [(version cfg = SCHEMA_VERSION, ''version'',
         ''must be '' @ show_nat (unat SCHEMA_VERSION) @ '' (found '' @ show_nat (unat (version cfg)) @ '')''),
      (trim (listen (c_server cfg)) \<noteq> [], ''server.listen'', ''must be a non-empty host:port''),
      (valid_listen (listen (c_server cfg)), ''server.listen'',
         ''must be host:port with port in 1..=65535 (found '' @ dbg (listen (c_server cfg)) @ '')''),
      (trim (upstream (c_server cfg)) \<noteq> [], ''server.upstream'',
         ''must be non-empty (http(s)://'' @ [CHR 0xE2, CHR 0x80, CHR 0xA6] @ '' or host[:port][/path])''),
      (valid_upstream (upstream (c_server cfg)), ''server.upstream'',
         ''must be http(s)://'' @ [CHR 0xE2, CHR 0x80, CHR 0xA6] @ '' or host[:port][/path] (found ''
         @ dbg (upstream (c_server cfg)) @ '')''),
      at_least_one ''server.worker_threads'' (unat (worker_threads (c_server cfg))),
      (trim (tr_tag (c_trace cfg)) \<noteq> [], ''trace.tag'', ''must be non-empty after trimming''),
      (valid_trace_mode bench (tr_mode (c_trace cfg)), ''trace.mode'',
         (if bench then ''must be \"full\" (or \"off\" in bench builds) (found ''
          else ''must be \"full\" (found '') @ dbg (tr_mode (c_trace cfg)) @ '')''),
      at_least_one ''drain.timeout_secs'' (unat (timeout_secs (c_drain cfg))),
      at_least_one ''capture.max_bytes'' (unat (capture_max_bytes (c_capture cfg))),
      at_least_one ''store.max_records'' (unat (store_max_records (c_store cfg))),
      at_least_one ''store.max_bytes'' (unat (store_max_bytes (c_store cfg))),
      at_least_one ''stitch.capacity'' (unat (stitch_capacity (c_stitch cfg))),
      at_least_one ''stitch.ttl_ms'' (unat (stitch_ttl_ms (c_stitch cfg))),
      (trim (salt (c_api_key cfg)) \<noteq> [], ''api_key.salt'', ''must be non-empty''),
      at_least_one ''export.max_inflight'' (unat (max_inflight (c_export cfg))),
      at_least_one ''export.workers'' (unat (export_workers (c_export cfg)))]"

definition validate :: "(string \<Rightarrow> string) \<Rightarrow> bool \<Rightarrow> config \<Rightarrow> config_error option" where
  "validate dbg bench cfg = find_map (\<lambda>(ok, key, reason). invalid ok key reason) (rules dbg bench cfg)"

section \<open>Loading\<close>

text \<open>Line and column of a byte offset.\<close>

definition line_col :: "string \<Rightarrow> nat \<Rightarrow> nat \<times> nat" where
  "line_col text start =
     foldl (\<lambda>(line, col) b. if b = CHR 0x0A then (sat_add line 1, 1) else (line, sat_add col 1))
       (1, 1) (take start text)"

definition parse_toml ::
  "(string \<Rightarrow> (nat option \<times> string) + 'c) \<Rightarrow> string \<Rightarrow> (nat \<times> nat \<times> string) + 'c" where
  "parse_toml toml text =
     (case toml text of
        Inr c \<Rightarrow> Inr c
      | Inl (span, msg) \<Rightarrow>
          (let (line, col) = (case span of Some s \<Rightarrow> line_col text s | None \<Rightarrow> (1, 1))
           in Inl (line, col, msg)))"

definition load_config ::
  "(string \<Rightarrow> string + bytes) \<Rightarrow> (bytes \<Rightarrow> bytes) \<Rightarrow> (string \<Rightarrow> (nat option \<times> string) + config) \<Rightarrow>
     (string \<Rightarrow> string) \<Rightarrow> bool \<Rightarrow> string \<Rightarrow> config_error + loaded" where
  "load_config read sha toml dbg bench path =
     (case read path of
        Inl source \<Rightarrow> Inl (IoError path source)
      | Inr bs \<Rightarrow>
          if \<not> valid_utf8 bs then Inl (ParseError path 1 1 ''file is not valid UTF-8'')
          else (case parse_toml toml bs of
            Inl (line, col, msg) \<Rightarrow> Inl (ParseError path line col msg)
          | Inr cfg \<Rightarrow>
              if version cfg \<noteq> SCHEMA_VERSION then Inl (VersionError path (version cfg))
              else (case validate dbg bench cfg of
                 Some e \<Rightarrow> Inl (at_path path e)
               | None \<Rightarrow> Inr \<lparr>ld_config = cfg, ld_sha256 = sha bs, ld_path = path,
                              ld_len = of_nat (length bs)\<rparr>)))"

section \<open>The redacted view\<close>

definition json_obj :: "(string \<times> json) list \<Rightarrow> json" where
  "json_obj kvs = JObject (fold (\<lambda>(k, v) m. obj_insert k v m) kvs [])"

abbreviation jnat :: "u64 \<Rightarrow> json" where
  "jnat n \<equiv> JNumber (PosInt n)"

definition redacted_api_key :: "api_key_cfg \<Rightarrow> json" where
  "redacted_api_key k = json_obj [(''salt'', JString ''***'')]"

definition redacted_json :: "config \<Rightarrow> json" where
  "redacted_json cfg = json_obj
     [(''version'', jnat (ucast (version cfg))),
      (''server'', json_obj
         [(''listen'', JString (listen (c_server cfg))), (''upstream'', JString (upstream (c_server cfg))),
          (''sni'', JString (sni (c_server cfg))),
          (''worker_threads'', jnat (ucast (worker_threads (c_server cfg)))),
          (''max_ws_frame_payload'', jnat (max_ws_frame_payload (c_server cfg)))]),
      (''trace'', json_obj [(''tag'', JString (tr_tag (c_trace cfg))), (''mode'', JString (tr_mode (c_trace cfg)))]),
      (''drain'', json_obj [(''on_cancel'', JBool (on_cancel (c_drain cfg))),
                            (''timeout_secs'', jnat (timeout_secs (c_drain cfg)))]),
      (''capture'', json_obj [(''max_bytes'', jnat (capture_max_bytes (c_capture cfg)))]),
      (''store'', json_obj [(''max_records'', jnat (store_max_records (c_store cfg))),
                            (''max_bytes'', jnat (store_max_bytes (c_store cfg)))]),
      (''stitch'', json_obj [(''capacity'', jnat (stitch_capacity (c_stitch cfg))),
                             (''ttl_ms'', jnat (stitch_ttl_ms (c_stitch cfg)))]),
      (''api_key'', redacted_api_key (c_api_key cfg)),
      (''export'', json_obj [(''otlp_endpoint'', JString (otlp_endpoint (c_export cfg))),
                             (''max_inflight'', jnat (max_inflight (c_export cfg))),
                             (''workers'', jnat (export_workers (c_export cfg)))])]"

lemma redacted_json_hides_salt:
  "redacted_json (cfg\<lparr>c_api_key := k\<rparr>) = redacted_json cfg"
  by (simp add: redacted_json_def redacted_api_key_def)

section \<open>Laws\<close>

text \<open>The value domains of the key table.\<close>

definition config_ok :: "bool \<Rightarrow> config \<Rightarrow> bool" where
  "config_ok bench cfg \<longleftrightarrow>
     version cfg = 1 \<and> valid_listen (listen (c_server cfg)) \<and> trim (listen (c_server cfg)) \<noteq> []
     \<and> valid_upstream (upstream (c_server cfg)) \<and> trim (upstream (c_server cfg)) \<noteq> []
     \<and> worker_threads (c_server cfg) \<noteq> 0 \<and> trim (tr_tag (c_trace cfg)) \<noteq> []
     \<and> (tr_mode (c_trace cfg) = ''full'' \<or> bench \<and> tr_mode (c_trace cfg) = ''off'')
     \<and> timeout_secs (c_drain cfg) \<noteq> 0 \<and> capture_max_bytes (c_capture cfg) \<noteq> 0
     \<and> store_max_records (c_store cfg) \<noteq> 0 \<and> store_max_bytes (c_store cfg) \<noteq> 0
     \<and> stitch_capacity (c_stitch cfg) \<noteq> 0 \<and> stitch_ttl_ms (c_stitch cfg) \<noteq> 0
     \<and> trim (salt (c_api_key cfg)) \<noteq> [] \<and> max_inflight (c_export cfg) \<noteq> 0
     \<and> export_workers (c_export cfg) \<noteq> 0"

lemma at_least_one_ok: "fst (at_least_one key (unat w)) \<longleftrightarrow> w \<noteq> 0"
  by (simp add: at_least_one_def) (metis One_nat_def less_eq_Suc_le unat_gt_0)

lemma validate_iff: "validate dbg bench cfg = None \<longleftrightarrow> config_ok bench cfg"
proof -
  have "validate dbg bench cfg = None \<longleftrightarrow> list_all fst (rules dbg bench cfg)"
    by (auto simp: validate_def find_map_None_iff list_all_iff invalid_def split: if_splits)
  also have "\<dots> \<longleftrightarrow> config_ok bench cfg"
    by (simp add: rules_def at_least_one_ok config_ok_def SCHEMA_VERSION_def valid_trace_mode_def)
      blast
  finally show ?thesis .
qed

lemma validate_pathless: "validate dbg bench cfg = Some e \<Longrightarrow> error_path (at_path path e) = path"
  by (auto simp: validate_def invalid_def dest!: find_map_SomeD split: if_splits)

text \<open>C39 Loading is all or nothing and names its file: every failure carries the path it is about,
  and a loaded configuration is the parse of the file's valid UTF-8 bytes, fulfils every value
  domain of the key table, and carries the digest and length of exactly those bytes.\<close>

theorem load_sound:
  "case load_config read sha toml dbg bench path of
     Inl e \<Rightarrow> error_path e = path
   | Inr l \<Rightarrow> ld_path l = path
       \<and> (\<exists>bs. read path = Inr bs \<and> valid_utf8 bs \<and> toml bs = Inr (ld_config l)
              \<and> ld_sha256 l = sha bs \<and> ld_len l = of_nat (length bs))
       \<and> config_ok bench (ld_config l)"
  using validate_pathless
  by (auto simp: load_config_def parse_toml_def validate_iff split: sum.splits prod.splits option.splits)

text \<open>A configuration that fulfils every value domain is accepted: loading a readable, parseable
  file fails with a semantic error exactly when some domain is violated.\<close>

theorem load_complete:
  "read path = Inr bs \<Longrightarrow> valid_utf8 bs \<Longrightarrow> toml bs = Inr cfg \<Longrightarrow>
     (\<exists>l. load_config read sha toml dbg bench path = Inr l) \<longleftrightarrow> config_ok bench cfg"
  using validate_iff [of dbg bench cfg]
  by (auto simp: load_config_def parse_toml_def SCHEMA_VERSION_def config_ok_def split: option.split)

definition sample_config :: config where
  "sample_config = \<lparr>version = 1,
     c_server = \<lparr>listen = ''0.0.0.0:8080'', upstream = ''http://u'', sni = [], worker_threads = 2,
       max_ws_frame_payload = 0\<rparr>,
     c_trace = \<lparr>tr_tag = ''line:atg'', tr_mode = ''full''\<rparr>,
     c_drain = \<lparr>on_cancel = True, timeout_secs = 5\<rparr>,
     c_capture = \<lparr>capture_max_bytes = 1000\<rparr>,
     c_store = \<lparr>store_max_records = 10, store_max_bytes = 1000\<rparr>,
     c_stitch = \<lparr>stitch_capacity = 10, stitch_ttl_ms = 1000\<rparr>,
     c_api_key = \<lparr>salt = ''s''\<rparr>,
     c_export = \<lparr>otlp_endpoint = [], max_inflight = 4, export_workers = 1\<rparr>\<rparr>"

lemma load_complete_witness:
  "(\<exists>l. load_config (\<lambda>p. Inr []) (\<lambda>bs. []) (\<lambda>bs. Inr sample_config) id True ''gateway.toml'' = Inr l)
     \<longleftrightarrow> config_ok True sample_config"
  by (rule load_complete [where bs = "[]"]) (simp_all add: valid_utf8_ascii)

lemma find_index_None: "find_index p xs = None \<longleftrightarrow> (\<forall>x \<in> set xs. \<not> p x)"
proof -
  have "length (takeWhile (\<lambda>x. \<not> p x) xs) < length xs \<longleftrightarrow> (\<exists>x \<in> set xs. p x)"
    by (induction xs) auto
  then show ?thesis by (auto simp: find_index_def Let_def)
qed

lemma find_index_Some: "find_index p xs = Some i \<Longrightarrow> i < length xs \<and> p (xs ! i)"
  by (auto simp: find_index_def Let_def split: if_splits)
    (metis nth_length_takeWhile)

lemma path_of_shape: "path_of r = [] \<or> hd (path_of r) = CHR ''/'' \<and> last (path_of r) \<noteq> CHR ''/''"
proof (cases "find_index (\<lambda>c. c = CHR ''/'') r")
  case None
  then show ?thesis by (simp add: path_of_def)
next
  case (Some i)
  from find_index_Some [OF Some] have d: "drop i r = CHR ''/'' # drop (Suc i) r"
    by (metis Cons_nth_drop_Suc)
  let ?t = "trim_end_char (CHR ''/'') (drop i r)"
  have split: "drop i r = ?t @ rev (takeWhile (\<lambda>x. x = CHR ''/'') (rev (drop i r)))"
    unfolding trim_end_char_def by (metis rev_append rev_rev_ident takeWhile_dropWhile_id)
  show ?thesis
  proof (cases "?t = []")
    case True
    then show ?thesis using Some by (simp add: path_of_def)
  next
    case False
    then have "hd ?t = CHR ''/''" using split d by (metis hd_append2 list.sel(1))
    moreover have "last ?t \<noteq> CHR ''/''"
      using False unfolding trim_end_char_def
      by (metis (mono_tags) hd_dropWhile last_rev rev_is_Nil_conv)
    ultimately show ?thesis using Some by (simp add: path_of_def)
  qed
qed

lemma port_ok_parse: "port_ok p \<Longrightarrow> \<exists>v. parse_uint 65535 p = Some v \<and> 1 \<le> v \<and> v \<le> 65535"
  by (auto simp: port_ok_def split: option.splits)

text \<open>An accepted upstream address is always usable: its scheme is http or https, its host is not
  empty, its port is a real port, and its base path is empty or starts with a slash and does not
  end with one.\<close>

theorem parse_upstream_usable:
  assumes "valid_upstream u"
  shows "case parse_upstream u of (scheme, host, port, path) \<Rightarrow>
     (scheme = ''http'' \<or> scheme = ''https'') \<and> host \<noteq> [] \<and> 1 \<le> port \<and> port \<le> 65535
     \<and> (path = [] \<or> hd path = CHR ''/'' \<and> last path \<noteq> CHR ''/'')"
proof -
  have nonblank: "trim h \<noteq> [] \<Longrightarrow> h \<noteq> []" for h using length_trim_le [of h] by auto
  obtain scheme rest where sr: "(scheme = ''http'' \<or> scheme = ''https'')"
    "(case split_once u ''://'' of Some (s, r) \<Rightarrow> (ascii_lower s, r) | None \<Rightarrow> (''http'', u)) = (scheme, rest)"
    "(case split_once u ''://'' of
        Some (scheme, rest) \<Rightarrow> (if scheme \<noteq> ''http'' \<and> scheme \<noteq> ''https'' then None else Some rest)
      | None \<Rightarrow> Some u) = Some rest"
    using assms
    by (cases "split_once u ''://''")
      (auto simp: valid_upstream_def ascii_lower_def to_lower_def code_def split: if_splits)
  let ?a = "authority_of rest" and ?d = "if scheme = ''https'' then 443 else (80 :: nat)"
  have d: "1 \<le> ?d" "?d \<le> 65535" by simp_all
  show ?thesis
  proof (cases "strip_prefix ?a ''[''")
    case (Some v6)
    then obtain h tl where "split_once v6 '']'' = Some (h, tl)" "trim h \<noteq> []"
      "case strip_prefix tl '':'' of None \<Rightarrow> True | Some p \<Rightarrow> port_ok p"
      using assms sr(3) by (auto simp: valid_upstream_def Let_def split: option.splits)
    then show ?thesis
      using Some sr path_of_shape [of rest] nonblank d
      by (auto simp: parse_upstream_def Let_def dest!: port_ok_parse split: option.splits)
  next
    case None
    show ?thesis
    proof (cases "rsplit_once ?a (CHR '':'')")
      case rs: None
      then have "trim ?a \<noteq> []" using assms sr(3) None by (simp add: valid_upstream_def Let_def)
      then show ?thesis
        using None rs sr path_of_shape [of rest] nonblank d by (auto simp: parse_upstream_def Let_def)
    next
      case rs: (Some hp)
      obtain h p where hp: "hp = (h, p)" by (cases hp)
      have v: "trim h \<noteq> []" "port_ok p"
        using assms sr(3) None rs hp by (simp_all add: valid_upstream_def Let_def)
      have "?a \<noteq> []" using rs by auto
      then show ?thesis
        using None rs hp v sr path_of_shape [of rest] nonblank d
        by (auto simp: parse_upstream_def Let_def dest!: port_ok_parse split: if_splits)
    qed
  qed
qed

lemma parse_upstream_usable_witness:
  "case parse_upstream ''https://api.example.com:8443/v1/'' of (scheme, host, port, path) \<Rightarrow>
     (scheme = ''http'' \<or> scheme = ''https'') \<and> host \<noteq> [] \<and> 1 \<le> port \<and> port \<le> 65535
     \<and> (path = [] \<or> hd path = CHR ''/'' \<and> last path \<noteq> CHR ''/'')"
proof -
  have t: "trim ''api.example.com'' = ''api.example.com''"
    by (simp add: trim_def trim_start_of_id strip_head_def white_space_def strip_prefix_def starts_with_def)
  have "valid_upstream ''https://api.example.com:8443/v1/''"
    by (simp add: valid_upstream_def split_once_def authority_of_def find_index_def strip_prefix_def
        starts_with_def port_ok_def parse_uint_def is_digit_def digits_value_def code_def t)
  then show ?thesis by (rule parse_upstream_usable)
qed

lemma find_sub_skip: "x \<noteq> hd p \<Longrightarrow> p \<noteq> [] \<Longrightarrow> find_sub p (x # xs) = map_option Suc (find_sub p xs)"
  by (cases p) (auto simp: starts_with_def)

lemma takeWhile_not: "c \<notin> set h \<Longrightarrow> takeWhile (\<lambda>x. x \<noteq> c) (h @ c # r) = h"
  by (induction h) auto

lemma authority_path_split:
  assumes "CHR ''/'' \<notin> set a" and "p = [] \<or> hd p = CHR ''/'' \<and> last p \<noteq> CHR ''/''"
  shows "authority_of (a @ p) = a \<and> path_of (a @ p) = p"
proof (cases "p = []")
  case True
  have "find_index (\<lambda>c. c = CHR ''/'') a = None" using assms(1) by (auto simp: find_index_None)
  with True show ?thesis by (simp add: authority_of_def path_of_def)
next
  case False
  then obtain r where p: "p = CHR ''/'' # r" using assms(2) by (cases p) auto
  have i: "find_index (\<lambda>c. c = CHR ''/'') (a @ p) = Some (length a)"
    using assms(1) by (simp add: find_index_def p takeWhile_not)
  have "trim_end_char (CHR ''/'') p = p"
    using False assms(2) unfolding trim_end_char_def
    by (metis dropWhile_eq_self_iff hd_rev rev_rev_ident)
  with i show ?thesis by (simp add: authority_of_def path_of_def)
qed

text \<open>An upstream address written in full is read back: for a scheme, a host without delimiters,
  a port and a base path without trailing slash, \<open>parse_upstream\<close> of
  \<open>scheme://host:port/path\<close> gives exactly these.\<close>

theorem parse_upstream_roundtrip:
  assumes "scheme = ''http'' \<or> scheme = ''https''"
    and "host \<noteq> []" "CHR ''/'' \<notin> set host" "CHR '':'' \<notin> set host" "hd host \<noteq> CHR ''[''"
    and "port \<le> 65535" and "path = [] \<or> hd path = CHR ''/'' \<and> last path \<noteq> CHR ''/''"
  shows "parse_upstream (scheme @ ''://'' @ host @ '':'' @ show_nat port @ path) =
     (scheme, host, port, path)"
proof -
  let ?a = "host @ '':'' @ show_nat port"
  have dig: "list_all is_digit (show_nat port)" "show_nat port \<noteq> []"
    using show_nat_digits by auto
  then have nd: "CHR ''/'' \<notin> set (show_nat port)" "CHR '':'' \<notin> set (show_nat port)"
    by (auto simp: list_all_iff is_digit_def code_def)
  have sp: "split_once (scheme @ ''://'' @ r) ''://'' = Some (scheme, r)" for r
    using assms(1) by (auto simp: split_once_def starts_with_def)
  have low: "ascii_lower scheme = scheme"
    using assms(1) by (auto simp: ascii_lower_def to_lower_def code_def)
  have ap: "authority_of (?a @ path) = ?a \<and> path_of (?a @ path) = path"
    using assms nd by (intro authority_path_split) simp_all
  have br: "strip_prefix ?a ''['' = None"
    using assms(2,5) by (cases host) (auto simp: strip_prefix_def starts_with_def)
  have rs: "rsplit_once ?a (CHR '':'') = Some (host, show_nat port)"
    using rsplit_once_sep [OF nd(2), of host] by simp
  have whole: "scheme @ ''://'' @ host @ '':'' @ show_nat port @ path = scheme @ ''://'' @ (?a @ path)"
    by simp
  show ?thesis
    unfolding whole parse_upstream_def sp
    using ap br rs dig assms(6) low by (simp add: Let_def parse_uint_show_nat)
qed

lemma parse_upstream_roundtrip_witness:
  "parse_upstream (''https'' @ ''://'' @ ''api.example'' @ '':'' @ show_nat 8443 @ ''/v1'') =
     (''https'', ''api.example'', 8443, ''/v1'')"
  by (rule parse_upstream_roundtrip) simp_all

text \<open>The two readers of an upstream address disagree on a port with a plus sign: the
  validation accepts \<open>h:+80\<close> as host \<open>h\<close> with port 80, while the relay's parser takes the whole
  text for the host name.\<close>

theorem upstream_plus_port:
  "valid_upstream ''h:+80'' \<and> parse_upstream ''h:+80'' = (''http'', ''h:+80'', 80, [])"
proof -
  have t: "trim ''h'' = ''h''"
    by (simp add: trim_def trim_start_of_id strip_head_def white_space_def strip_prefix_def starts_with_def)
  show ?thesis
    by (simp add: valid_upstream_def parse_upstream_def split_once_def starts_with_def authority_of_def path_of_def
        find_index_def strip_prefix_def port_ok_def parse_uint_def is_digit_def
        digits_value_def code_def t)
qed

end
