(* ===== verification/Export_Tree.thy ===== *)
theory Export_Tree
  imports Export_Span Config
begin

text \<open>
  The pinned reference of \<open>src/trace/export.rs\<close>: \<open>build_otlp_json_value_tree\<close>, the version of the OTLP
  document that was built as a tree of \<open>serde_json::Value\<close> maps before the writer over structs
  replaced it. The repository keeps it, in its test configuration, to hold the writer to it byte for
  byte; here the two are proved to give the same document for every batch.

  The tree is built by pushes and by \<open>json!\<close>, whose objects are sorted maps whatever order the keys
  are written in (\<open>json_obj\<close>). The ids are drawn per span in both, the trace id first.
\<close>

section \<open>The reference\<close>

definition kv :: "string \<Rightarrow> string \<Rightarrow> json" where
  "kv key val = json_obj [(''key'', JString key), (''value'', json_obj [(''stringValue'', JString val)])]"

definition kv_array :: "string \<Rightarrow> string list \<Rightarrow> json" where
  "kv_array key vals = json_obj
     [(''key'', JString key),
      (''value'', json_obj [(''arrayValue'', json_obj
         [(''values'', JArray (map (\<lambda>v. json_obj [(''stringValue'', JString v)]) vals))])])]"

text \<open>\<open>if c { xs.push(x) }\<close>.\<close>

definition push_if :: "bool \<Rightarrow> 'a \<Rightarrow> 'a list \<Rightarrow> 'a list" where
  "push_if c x xs = (if c then xs @ [x] else xs)"

definition tree_tags :: "turn_record \<Rightarrow> string list" where
  "tree_tags r =
     (case (if harness r \<noteq> [] then Some (''harness:'' @ harness r) else None) of
        Some t \<Rightarrow> [record_trace_tag r, t]
      | None \<Rightarrow> [record_trace_tag r])"

definition tree_extra :: "turn_record \<Rightarrow> json list" where
  "tree_extra r =
     (let ex = [];
          ex = push_if (harness r \<noteq> []) (kv (metadata ''harness'') (harness r)) ex;
          ex = push_if (dialect r \<noteq> []) (kv (metadata ''dialect'') (dialect r)) ex;
          ex = push_if (client_ua r \<noteq> []) (kv (metadata ''client_ua'') (client_ua r)) ex;
          ex = fold (\<lambda>(name, val) ex. ex @ [kv (metadata (''hdr.'' @ name)) val]) (hdr_evidence r) ex;
          ex = push_if (cancelled r) (kv (metadata ''cancelled'') ''true'') ex;
          ex = push_if (api_key_fp r \<noteq> []) (kv (metadata ''client_key_fp'') (api_key_fp r)) ex;
          ex = push_if (harness_anomaly r) (kv (metadata ''harness_protocol_anomaly'') ''true'') ex;
          ex = push_if (session_synthetic r) (kv (metadata ''session_synthetic'') ''true'') ex;
          ex = push_if (session_source r \<noteq> []) (kv (metadata ''session_source'') (session_source r)) ex;
          ex = push_if (1 < length (harness_candidates r))
                 (kv (metadata ''harness_candidates'') (join '','' (harness_candidates r))) ex;
          ex = fold (\<lambda>(k, v) ex. ex @ [kv (metadata k) v]) (harness_enrich r) ex;
          ex = ex @ [kv (metadata ''entry_protocol'') (protocol r)];
          ex = push_if (model_name r \<noteq> []) (kv (metadata ''client_model'') (model_name r)) ex
      in ex)"

definition tree_attributes ::
  "(json \<Rightarrow> string) \<Rightarrow> (tool_call list \<Rightarrow> string) \<Rightarrow> turn_record \<Rightarrow> json list" where
  "tree_attributes render render_tools r =
     (let ex = tree_extra r;
          as = [];
          as = push_if (session_id r \<noteq> []) (kv ''langfuse.session.id'' (session_id r)) as;
          as = as @
            [kv ''protocol'' (protocol r),
             kv ''langfuse.trace.name'' langfuse_trace_name,
             kv_array ''langfuse.trace.tags'' (tree_tags r),
             kv ''langfuse.observation.type'' ''generation'',
             kv ''user_input'' (user_input r),
             kv ''final_output'' (final_output r),
             kv ''raw_request'' (raw_request r),
             kv ''raw_response'' (raw_response r),
             kv ''breakpoint'' (if breakpoint r then ''true'' else ''false'')];
          as = push_if (user_input r \<noteq> []) (kv ''langfuse.observation.input'' (user_input r)) as;
          as = push_if (user_id r \<noteq> []) (kv ''langfuse.user.id'' (user_id r)) as;
          as = push_if (final_output r \<noteq> []) (kv ''langfuse.observation.output'' (final_output r)) as;
          as = push_if (model_name r \<noteq> []) (kv ''langfuse.observation.model.name'' (model_name r)) as;
          as = (case completion_start_ns r of
                  Some ns \<Rightarrow> as @ [kv ''langfuse.observation.completion_start_time'' (iso8601_z ns)]
                | None \<Rightarrow> as);
          as = (case usage r of
                  Some u \<Rightarrow>
                    let details = usage_details_json render u
                    in push_if (details \<noteq> ''{}'') (kv ''langfuse.observation.usage_details'' details) as
                | None \<Rightarrow> as);
          as = push_if (tool_calls r \<noteq> []) (kv ''tool_calls'' (render_tools (tool_calls r))) as
      in as @ ex)"

text \<open>\<open>span["status"] = v\<close>.\<close>

definition jset :: "string \<Rightarrow> json \<Rightarrow> json \<Rightarrow> json" where
  "jset k v x = (case x of JObject m \<Rightarrow> JObject (obj_insert k v m) | _ \<Rightarrow> x)"

definition tree_span ::
  "(json \<Rightarrow> string) \<Rightarrow> (tool_call list \<Rightarrow> string) \<Rightarrow> string \<Rightarrow> string \<Rightarrow> turn_record \<Rightarrow> json" where
  "tree_span render render_tools tid sid r =
     (let span = json_obj
            [(''traceId'', JString tid),
             (''spanId'', JString sid),
             (''name'', JString ''agent.turn.generation''),
             (''kind'', JNumber (PosInt 3)),
             (''startTimeUnixNano'', JString (show_nat (unat (start_ns r)))),
             (''endTimeUnixNano'', JString (show_nat (unat (end_ns r)))),
             (''attributes'', JArray (tree_attributes render render_tools r))]
      in case turn_error r of
           Some err \<Rightarrow> jset ''status''
             (json_obj [(''code'', JNumber (PosInt 2)), (''message'', JString err)]) span
         | None \<Rightarrow> span)"

definition build_otlp_json_value_tree ::
  "(json \<Rightarrow> string) \<Rightarrow> (tool_call list \<Rightarrow> string) \<Rightarrow> (turn_record \<times> string \<times> string) list \<Rightarrow> json" where
  "build_otlp_json_value_tree render render_tools batch =
     (let spans = map (\<lambda>(r, tid, sid). tree_span render render_tools tid sid r) batch
      in json_obj [(''resourceSpans'', JArray [json_obj
           [(''resource'', json_obj
               [(''attributes'', JArray [kv ''service.name'' ''agent-trace-gateway''])]),
            (''scopeSpans'', JArray [json_obj
               [(''scope'', json_obj [(''name'', JString ''agent-trace-gateway'')]),
                (''spans'', JArray spans)]])]])])"

section \<open>The writer agrees with the reference\<close>

lemma kv_doc: "kv k v = attr_doc (attr_of k v)"
  by (simp add: kv_def attr_doc_def attr_of_def json_obj_def less_char_def)

lemma kv_array_doc: "kv_array k vs = attr_doc (attr_array k (map Str vs))"
  by (simp add: kv_array_def attr_doc_def attr_array_def json_obj_def less_char_def comp_def)

lemma push_if_append: "push_if c x xs = xs @ (if c then [x] else [])"
  by (simp add: push_if_def)

lemma fold_push: "fold (\<lambda>(a, b) xs. xs @ [f a b]) ps xs = xs @ map (\<lambda>(a, b). f a b) ps"
  by (induction ps arbitrary: xs) auto

lemma map_if: "map f (if c then [x] else []) = (if c then [f x] else [])"
  by simp

lemma tree_extra_doc: "tree_extra r = map attr_doc (trace_extra r)"
  unfolding tree_extra_def trace_extra_def Let_def push_if_append fold_push kv_doc
  by (simp only: map_append map_if list.map append.simps append_Nil append_assoc map_map comp_def split_def)

lemma tree_tags_doc: "map Str (tree_tags r) = span_tags r"
  by (simp add: tree_tags_def span_tags_def)

lemma tree_attributes_doc:
  "tree_attributes render render_tools r = map attr_doc (span_attributes render render_tools r)"
  by (cases "completion_start_ns r"; cases "usage r")
    (simp_all add: tree_attributes_def span_attributes_def push_if_append kv_doc kv_array_doc tree_tags_doc
      tree_extra_doc Let_def)

lemma tree_span_doc: "tree_span render render_tools tid sid r = span_doc (span_json render render_tools tid sid r)"
  by (cases "turn_error r")
    (simp_all add: tree_span_def span_doc_def span_json_def status_doc_def jset_def json_obj_def
      tree_attributes_doc less_char_def)

text \<open>C28 The byte contract of the exporter: the document written straight from structs is the one of
  the pinned reference, a tree of sorted maps, for every batch and whatever each record holds; so
  with one printer and the same ids the two payloads are equal byte for byte.\<close>

theorem writer_matches_value_tree:
  "otlp_doc (map (\<lambda>(r, tid, sid). span_json render render_tools tid sid r) batch)
     = build_otlp_json_value_tree render render_tools batch
   \<and> build_otlp_body to_writer render render_tools batch
     = unwrap_or [] (to_writer (build_otlp_json_value_tree render render_tools batch))"
proof -
  have "otlp_doc (map (\<lambda>(r, tid, sid). span_json render render_tools tid sid r) batch)
      = build_otlp_json_value_tree render render_tools batch"
    by (simp add: otlp_doc_def build_otlp_json_value_tree_def json_obj_def kv_doc tree_span_doc Let_def
        less_char_def comp_def split_def)
  then show ?thesis by (simp add: build_otlp_body_def unwrap_or_def split: option.split)
qed

end
