(* ===== verification/Harness.thy ===== *)
theory Harness
  imports Descriptors Session Utf8
begin

text \<open>
  The crate \<open>atg-harness\<close>: who sent a request (identity) and how its session is carried
  (dialect). The tables are functions of \<open>parse\<close> (\<open>serde_json::from_str\<close>), which the shape
  tests call. A header lookup is the closure \<open>header_get\<close> of the source.
\<close>

section \<open>Types\<close>

datatype ident_kind =
    UaPrefix string
  | HeaderPresent string
  | BodyShape "json \<Rightarrow> bool"

datatype evidence_class = Identity | Shape

record evidence =
  kind :: ident_kind
  strength :: nat
  ev_class :: evidence_class

record dialect_rules =
  dl_name :: string
  body_shapes :: "(json \<Rightarrow> bool) list"
  header_shapes :: "string list"
  session_body :: "(json \<Rightarrow> string option) option"
  dl_owner :: string

record harness_descriptor =
  h_name :: string
  h_protocols :: "string list"
  identity_evidence :: "evidence list"
  h_dialects :: "string list"
  session_header_mounts :: "string list"
  enrichers :: "(string \<times> (json \<Rightarrow> string option)) list"

record harness_facts =
  hf_identity :: "string option"
  hf_dialect :: string
  hf_candidates :: "string list"
  hf_anomaly :: bool

definition char_boundary :: "string \<Rightarrow> nat \<Rightarrow> bool" where
  "char_boundary s n \<longleftrightarrow> n = 0 \<or> n = length s \<or> (n < length s \<and> \<not> is_cont (s ! n))"

definition ua_matches :: "string \<Rightarrow> string option \<Rightarrow> bool" where
  "ua_matches prefix ua \<longleftrightarrow>
     (case Option.bind ua (\<lambda>u. if char_boundary u (length prefix)
                                then Some (take (length prefix) u) else None) of
        Some s \<Rightarrow> eq_ignore_case s prefix
      | None \<Rightarrow> False)"

definition header_present :: "(string \<Rightarrow> string option) \<Rightarrow> string \<Rightarrow> bool" where
  "header_present header_get nm \<longleftrightarrow>
     (case header_get nm of Some v \<Rightarrow> trim v \<noteq> [] | None \<Rightarrow> False)"

definition req_is :: "json option \<Rightarrow> (json \<Rightarrow> bool) \<Rightarrow> bool" where
  "req_is req test \<longleftrightarrow> (case req of Some r \<Rightarrow> test r | None \<Rightarrow> False)"

section \<open>claude-code\<close>

abbreviation meta_user_id :: "json \<Rightarrow> json" where
  "meta_user_id req \<equiv> jat (jat req ''metadata'') ''user_id''"

definition envelope_shape :: "(string \<Rightarrow> json option) \<Rightarrow> json \<Rightarrow> bool" where
  "envelope_shape parse req \<longleftrightarrow>
     (case as_str (meta_user_id req) of
        None \<Rightarrow> False
      | Some raw \<Rightarrow> (case parse raw of
            None \<Rightarrow> False
          | Some parsed \<Rightarrow> Option.bind (jget parsed ''session_id'') as_str \<noteq> None))"

definition legacy_shape_test :: "json \<Rightarrow> bool" where
  "legacy_shape_test req \<longleftrightarrow>
     (case as_str (meta_user_id req) of
        Some raw \<Rightarrow> claude_code_legacy_parts raw \<noteq> None | None \<Rightarrow> False)"

definition object_shape :: "json \<Rightarrow> bool" where
  "object_shape req \<longleftrightarrow>
     (case as_object (meta_user_id req) of
        Some m \<Rightarrow> map_of m ''session_id'' \<noteq> None | None \<Rightarrow> False)"

definition metadata_envelope_shape :: "(string \<Rightarrow> json option) \<Rightarrow> json \<Rightarrow> bool" where
  "metadata_envelope_shape parse req \<longleftrightarrow>
     (case as_str (jat req ''metadata'') of
        Some raw \<Rightarrow>
          unwrap_or False (Option.bind (parse raw)
            (\<lambda>v. map_option (\<lambda>u. as_str u \<noteq> None) (jget v ''user_id'')))
      | None \<Rightarrow> False)"

definition dialect_session :: "(string \<Rightarrow> json option) \<Rightarrow> json \<Rightarrow> string option" where
  "dialect_session parse req =
     (case Option.bind (as_str (meta_user_id req))
             (\<lambda>raw. metadata_user_id_session parse (unwrap_or (JString raw) (parse raw))) of
        Some sid \<Rightarrow> Some sid
      | None \<Rightarrow>
         (case as_str (jat req ''metadata'') of
            Some raw \<Rightarrow> metadata_envelope_transform parse raw
          | None \<Rightarrow>
              opt_filter (\<lambda>s. s \<noteq> [])
                (Option.bind (Option.bind (as_object (meta_user_id req))
                   (\<lambda>m. map_of m ''session_id'')) as_str)))"

definition account :: "json \<Rightarrow> string option" where
  "account req =
     Option.bind (as_str (meta_user_id req)) (\<lambda>raw.
     Option.bind (claude_code_legacy_parts raw) snd)"

definition claude_code_dialect :: "(string \<Rightarrow> json option) \<Rightarrow> dialect_rules" where
  "claude_code_dialect parse = \<lparr>
     dl_name = ''claude-code'',
     body_shapes = [envelope_shape parse, legacy_shape_test, object_shape,
                    metadata_envelope_shape parse],
     header_shapes = [HDR_CC_SESSION],
     session_body = Some (dialect_session parse),
     dl_owner = ''claude-code''\<rparr>"

definition ident :: "ident_kind \<Rightarrow> nat \<Rightarrow> evidence" where
  "ident k s = \<lparr>kind = k, strength = s, ev_class = Identity\<rparr>"

definition claude_code_harness :: harness_descriptor where
  "claude_code_harness = \<lparr>
     h_name = ''claude-code'',
     h_protocols = [''anthropic.messages''],
     identity_evidence = [ident (BodyShape legacy_shape_test) 3, ident (UaPrefix ''claude-cli/'') 4],
     h_dialects = [''claude-code''],
     session_header_mounts = [],
     enrichers = [(''cc_account'', account)]\<rparr>"

section \<open>codex, grok, omp, opencode\<close>

definition codex_metadata_shape :: "json \<Rightarrow> bool" where
  "codex_metadata_shape req \<longleftrightarrow>
     (case as_object (jat req ''client_metadata'') of
        Some cm \<Rightarrow> list_ex (\<lambda>(k, _). starts_with k ''x-codex-'') cm | None \<Rightarrow> False)"

definition installation_id :: "json \<Rightarrow> string option" where
  "installation_id req =
     opt_filter (\<lambda>s. s \<noteq> [])
       (as_str (jat (jat req ''client_metadata'') ''x-codex-installation-id''))"

definition codex_harness :: harness_descriptor where
  "codex_harness = \<lparr>
     h_name = ''codex'',
     h_protocols = [''openai.responses'', ''openai.live''],
     identity_evidence = [ident (BodyShape codex_metadata_shape) 4, ident (UaPrefix ''codex'') 4],
     h_dialects = [],
     session_header_mounts = [],
     enrichers = [(''codex_installation'', installation_id)]\<rparr>"

definition grok_harness :: harness_descriptor where
  "grok_harness = \<lparr>
     h_name = ''grok'',
     h_protocols = [''openai.responses''],
     identity_evidence = [ident (HeaderPresent HDR_GROK_CONV) 5],
     h_dialects = [],
     session_header_mounts = [],
     enrichers = []\<rparr>"

definition opencode_harness :: harness_descriptor where
  "opencode_harness = \<lparr>
     h_name = ''opencode'',
     h_protocols = [''openai.responses'', ''openai.chat_completions'', ''anthropic.messages''],
     identity_evidence =
       [ident (UaPrefix ''opencode/'') 4, ident (HeaderPresent HDR_OPENCODE_SESSION) 4],
     h_dialects = [],
     session_header_mounts =
       [HDR_SESSION, HDR_SESSION_AFFINITY, HDR_OPENCODE_SESSION, HDR_CONVERSATION_ID],
     enrichers = []\<rparr>"

definition omp_harness :: harness_descriptor where
  "omp_harness = \<lparr>
     h_name = ''omp'',
     h_protocols = [''anthropic.messages'', ''openai.responses'', ''openai.chat_completions''],
     identity_evidence = [ident (UaPrefix ''omp/'') 4],
     h_dialects = [''claude-code''],
     session_header_mounts = [],
     enrichers = []\<rparr>"

definition DIALECTS :: "(string \<Rightarrow> json option) \<Rightarrow> dialect_rules list" where
  "DIALECTS parse = [claude_code_dialect parse]"

definition HARNESSES :: "harness_descriptor list" where
  "HARNESSES = [claude_code_harness, codex_harness, grok_harness, opencode_harness, omp_harness]"

section \<open>Identification\<close>

definition evidence_matched ::
  "json option \<Rightarrow> string option \<Rightarrow> (string \<Rightarrow> string option) \<Rightarrow> evidence \<Rightarrow> bool" where
  "evidence_matched req ua header_get i \<longleftrightarrow>
     (case kind i of
        UaPrefix p \<Rightarrow> ua_matches p ua
      | HeaderPresent nm \<Rightarrow> header_present header_get nm
      | BodyShape test \<Rightarrow> req_is req test)"

definition best_strength ::
  "json option \<Rightarrow> string option \<Rightarrow> (string \<Rightarrow> string option) \<Rightarrow> harness_descriptor \<Rightarrow> nat option" where
  "best_strength req ua header_get h =
     foldl (\<lambda>best i.
       if evidence_matched req ua header_get i \<and> ev_class i = Identity
          \<and> (case best of None \<Rightarrow> True | Some s \<Rightarrow> s < strength i)
       then Some (strength i) else best) None (identity_evidence h)"

definition identity_hits ::
  "json option \<Rightarrow> string option \<Rightarrow> (string \<Rightarrow> string option) \<Rightarrow> (string \<times> nat) list" where
  "identity_hits req ua header_get =
     List.map_filter
       (\<lambda>h. map_option (\<lambda>s. (h_name h, s)) (best_strength req ua header_get h)) HARNESSES"

definition detect_dialect ::
  "(string \<Rightarrow> json option) \<Rightarrow> json option \<Rightarrow> (string \<Rightarrow> string option) \<Rightarrow> string" where
  "detect_dialect parse req header_get =
     unwrap_or [] (map_option dl_name
       (List.find (\<lambda>d. list_ex (req_is req) (body_shapes d)
                      \<or> list_ex (header_present header_get) (header_shapes d)) (DIALECTS parse)))"

definition find_harness :: "string \<Rightarrow> harness_descriptor option" where
  "find_harness nm = List.find (\<lambda>h. h_name h = nm) HARNESSES"

definition identify ::
  "(string \<Rightarrow> json option) \<Rightarrow> string \<Rightarrow> json option \<Rightarrow> string option \<Rightarrow>
     (string \<Rightarrow> string option) \<Rightarrow> harness_facts" where
  "identify parse proto req ua header_get =
     (let hits = identity_hits req ua header_get;
          dl = detect_dialect parse req header_get
      in if hits = []
         then \<lparr>hf_identity = None, hf_dialect = dl, hf_candidates = [], hf_anomaly = False\<rparr>
         else
           let top = fold max (map snd hits) 0;
               candidates = map fst (filter (\<lambda>h. snd h = top) hits);
               winner = (case candidates of [] \<Rightarrow> [] | w # _ \<Rightarrow> w);
               anomaly = (case find_harness winner of
                   Some d \<Rightarrow> h_protocols d \<noteq> [] \<and> proto \<notin> set (h_protocols d)
                 | None \<Rightarrow> False)
           in \<lparr>hf_identity = Some winner, hf_dialect = dl, hf_candidates = candidates,
               hf_anomaly = anomaly\<rparr>)"

definition harness_label :: "harness_facts \<Rightarrow> string" where
  "harness_label facts =
     (case hf_identity facts of
        Some n \<Rightarrow> n
      | None \<Rightarrow> if hf_dialect facts \<noteq> [] then hf_dialect facts @ ''-compatible'' else [])"

section \<open>Sessions and enrichment\<close>

definition h_session_from_body ::
  "(string \<Rightarrow> json option) \<Rightarrow> harness_facts \<Rightarrow> json \<Rightarrow> string option" where
  "h_session_from_body parse facts req =
     Option.bind (List.find (\<lambda>d. dl_name d = hf_dialect facts) (DIALECTS parse)) (\<lambda>d.
       case session_body d of Some rule \<Rightarrow> rule req | None \<Rightarrow> None)"

definition h_session_from_headers_with_source ::
  "harness_facts \<Rightarrow> (string \<Rightarrow> string option) \<Rightarrow> (string \<times> string) option" where
  "h_session_from_headers_with_source facts get =
     Option.bind (hf_identity facts) (\<lambda>nm.
     Option.bind (find_harness nm) (\<lambda>d.
       find_map (\<lambda>mount.
         map_option (\<lambda>v. (trim v, mount)) (opt_filter (\<lambda>s. trim s \<noteq> []) (get mount)))
         (session_header_mounts d)))"

definition h_session_from_headers ::
  "harness_facts \<Rightarrow> (string \<Rightarrow> string option) \<Rightarrow> string option" where
  "h_session_from_headers facts get = map_option fst (h_session_from_headers_with_source facts get)"

definition enrich ::
  "(string \<Rightarrow> json option) \<Rightarrow> harness_facts \<Rightarrow> json \<Rightarrow> (string \<times> string) list" where
  "enrich parse facts req =
     (case or_else (hf_identity facts)
             (map_option dl_owner
               (List.find (\<lambda>d. dl_name d = hf_dialect facts) (DIALECTS parse))) of
        None \<Rightarrow> []
      | Some owner \<Rightarrow>
          (case find_harness owner of
             None \<Rightarrow> []
           | Some d \<Rightarrow>
               List.map_filter (\<lambda>(key, extract). map_option (Pair key) (extract req)) (enrichers d)))"

section \<open>Laws\<close>

lemma find_harness_simps [simp]:
  "find_harness ''claude-code'' = Some claude_code_harness"
  "find_harness ''codex'' = Some codex_harness"
  "find_harness ''grok'' = Some grok_harness"
  "find_harness ''opencode'' = Some opencode_harness"
  "find_harness ''omp'' = Some omp_harness"
  by (simp_all add: find_harness_def HARNESSES_def claude_code_harness_def codex_harness_def
      grok_harness_def opencode_harness_def omp_harness_def)

text \<open>Two User-Agent prefixes of which neither extends the other never match together.\<close>

lemma ua_matchesD:
  "ua_matches p (Some u) \<Longrightarrow> ascii_lower (take (length p) u) = ascii_lower p"
  by (auto simp: ua_matches_def eq_ignore_case_def split: if_splits)

lemma ua_matches_None [simp]: "\<not> ua_matches p None"
  by (simp add: ua_matches_def)

lemma ua_prefix_clash:
  assumes "ua_matches p ua" "ua_matches q ua" "length p \<le> length q"
  shows "take (length p) (ascii_lower q) = ascii_lower p"
proof (cases ua)
  case (Some u)
  have "ascii_lower p = take (length p) (ascii_lower (take (length q) u))"
    using ua_matchesD [of p u] assms Some
    by (simp add: ascii_lower_def take_map min_def)
  also have "ascii_lower (take (length q) u) = ascii_lower q"
    using ua_matchesD [of q u] assms Some by simp
  finally show ?thesis by simp
qed (use assms in simp)

lemma ua_disjoint:
  "ua_matches ''codex'' ua \<Longrightarrow> \<not> ua_matches ''claude-cli/'' ua"
  "ua_matches ''codex'' ua \<Longrightarrow> \<not> ua_matches ''opencode/'' ua"
  "ua_matches ''omp/'' ua \<Longrightarrow> \<not> ua_matches ''claude-cli/'' ua"
  "ua_matches ''omp/'' ua \<Longrightarrow> \<not> ua_matches ''codex'' ua"
  "ua_matches ''omp/'' ua \<Longrightarrow> \<not> ua_matches ''opencode/'' ua"
  "ua_matches ''opencode/'' ua \<Longrightarrow> \<not> ua_matches ''claude-cli/'' ua"
  using ua_prefix_clash [of "''codex''" ua "''claude-cli/''"]
    ua_prefix_clash [of "''codex''" ua "''opencode/''"]
    ua_prefix_clash [of "''omp/''" ua "''claude-cli/''"]
    ua_prefix_clash [of "''omp/''" ua "''codex''"]
    ua_prefix_clash [of "''omp/''" ua "''opencode/''"]
    ua_prefix_clash [of "''opencode/''" ua "''claude-cli/''"]
  by (auto simp: ascii_lower_def to_lower_def code_def)

lemma best_strength_table:
  "best_strength req ua hg claude_code_harness =
     (if ua_matches ''claude-cli/'' ua then Some 4
      else if req_is req legacy_shape_test then Some 3 else None)"
  "best_strength req ua hg codex_harness =
     (if req_is req codex_metadata_shape \<or> ua_matches ''codex'' ua then Some 4 else None)"
  "best_strength req ua hg grok_harness = (if header_present hg HDR_GROK_CONV then Some 5 else None)"
  "best_strength req ua hg opencode_harness =
     (if ua_matches ''opencode/'' ua \<or> header_present hg HDR_OPENCODE_SESSION then Some 4 else None)"
  "best_strength req ua hg omp_harness = (if ua_matches ''omp/'' ua then Some 4 else None)"
  by (auto simp: best_strength_def claude_code_harness_def codex_harness_def grok_harness_def
      opencode_harness_def omp_harness_def ident_def evidence_matched_def)

text \<open>The harnesses identified at strength 4, in table order.\<close>

definition strong_hits ::
  "json option \<Rightarrow> string option \<Rightarrow> (string \<Rightarrow> string option) \<Rightarrow> string list" where
  "strong_hits req ua hg =
     (if ua_matches ''claude-cli/'' ua then [''claude-code''] else [])
     @ (if req_is req codex_metadata_shape \<or> ua_matches ''codex'' ua then [''codex''] else [])
     @ (if ua_matches ''opencode/'' ua \<or> header_present hg HDR_OPENCODE_SESSION
        then [''opencode''] else [])
     @ (if ua_matches ''omp/'' ua then [''omp''] else [])"

definition identity_candidates ::
  "json option \<Rightarrow> string option \<Rightarrow> (string \<Rightarrow> string option) \<Rightarrow> string list" where
  "identity_candidates req ua hg =
     (if header_present hg HDR_GROK_CONV then [''grok'']
      else if strong_hits req ua hg \<noteq> [] then strong_hits req ua hg
      else if req_is req legacy_shape_test then [''claude-code''] else [])"

lemma harness_names [simp]:
  "h_name claude_code_harness = ''claude-code''" "h_name codex_harness = ''codex''"
  "h_name grok_harness = ''grok''" "h_name opencode_harness = ''opencode''"
  "h_name omp_harness = ''omp''"
  by (simp_all add: claude_code_harness_def codex_harness_def grok_harness_def
      opencode_harness_def omp_harness_def)

text \<open>The identity of a request is decided by strength, then table order: a grok header wins
  outright; otherwise the User-Agent and body fingerprints of strength 4 are the candidates in
  table order; the legacy Claude Code user id identifies only when nothing stronger speaks. The
  winner is the first candidate, and there is a winner exactly when there is evidence.\<close>

theorem identify_candidates:
  "hf_candidates (identify parse proto req ua hg) = identity_candidates req ua hg
   \<and> hf_identity (identify parse proto req ua hg) =
       (case identity_candidates req ua hg of [] \<Rightarrow> None | w # _ \<Rightarrow> Some w)"
proof -
  define cc where "cc = ua_matches ''claude-cli/'' ua"
  define cx where "cx \<longleftrightarrow> req_is req codex_metadata_shape \<or> ua_matches ''codex'' ua"
  define oc where "oc \<longleftrightarrow> ua_matches ''opencode/'' ua \<or> header_present hg HDR_OPENCODE_SESSION"
  define om where "om = ua_matches ''omp/'' ua"
  define lg where "lg = req_is req legacy_shape_test"
  define gk where "gk = header_present hg HDR_GROK_CONV"
  have table: "best_strength req ua hg claude_code_harness =
      (if cc then Some 4 else if lg then Some 3 else None)"
    "best_strength req ua hg codex_harness = (if cx then Some 4 else None)"
    "best_strength req ua hg grok_harness = (if gk then Some 5 else None)"
    "best_strength req ua hg opencode_harness = (if oc then Some 4 else None)"
    "best_strength req ua hg omp_harness = (if om then Some 4 else None)"
    by (simp_all only: best_strength_table cc_def cx_def oc_def om_def lg_def gk_def)
  have cand: "identity_candidates req ua hg =
      (let s = (if cc then [''claude-code''] else []) @ (if cx then [''codex''] else [])
             @ (if oc then [''opencode''] else []) @ (if om then [''omp''] else [])
       in if gk then [''grok''] else if s \<noteq> [] then s else if lg then [''claude-code''] else [])"
    by (simp only: identity_candidates_def strong_hits_def Let_def cc_def cx_def oc_def om_def
        lg_def gk_def)
  show ?thesis
    unfolding cand identify_def identity_hits_def HARNESSES_def Let_def
    by (cases cc; cases cx; cases oc; cases om; cases lg; cases gk)
      (simp_all add: table List.map_filter_def)
qed

text \<open>A session read from the body by the dialect rules does not depend on who is identified:
  for any protocol, User-Agent and headers, two requests with the same body whose dialect is
  detected get the same session from it, and it is the one of the shape rules.\<close>

theorem dialect_session_independent_of_identity:
  "h_session_from_body parse (identify parse proto (Some req) ua hg) req =
     (if list_ex (\<lambda>shape. shape req) (body_shapes (claude_code_dialect parse))
         \<or> header_present hg HDR_CC_SESSION
      then dialect_session parse req else None)"
proof -
  have d: "hf_dialect (identify parse proto (Some req) ua hg) = detect_dialect parse (Some req) hg"
    by (simp add: identify_def Let_def)
  show ?thesis
    unfolding h_session_from_body_def d
    by (simp add: detect_dialect_def DIALECTS_def claude_code_dialect_def req_is_def)
qed

end
