(* ===== verification/Unpack.thy ===== *)
theory Unpack
  imports Engine Harness
begin

text \<open>
  \<open>src/trace/unpack.rs\<close>: from the bytes of a request and a response to the facts of a turn.
  \<open>parse\<close> is \<open>serde_json\<close>'s reader (of a slice or of a string: the same bytes).
\<close>

definition detect_protocol :: "(json \<Rightarrow> string) \<Rightarrow> string \<Rightarrow> string option" where
  "detect_protocol render path = map_option d_name (detect render path)"

definition looks_like_sse :: "string \<Rightarrow> bool" where
  "looks_like_sse content_type \<longleftrightarrow> contains_sub content_type ''text/event-stream''"

definition reassemble_sse ::
  "(string \<Rightarrow> json option) \<Rightarrow> (json \<Rightarrow> string) \<Rightarrow> string \<Rightarrow> bytes \<Rightarrow>
     string \<times> turn_usage option \<times> tool_call list \<times> string option \<times> u32" where
  "reassemble_sse parse render proto response_body =
     (case detect_by_name render proto of
        None \<Rightarrow> ([], None, [], None, 0)
      | Some d \<Rightarrow>
          (let out = stream_response parse render d response_body
           in (so_text out, so_usage out, so_tools out, so_error out, so_frame_errors out)))"

definition unpack_nonstreaming ::
  "(string \<Rightarrow> json option) \<Rightarrow> (json \<Rightarrow> string) \<Rightarrow> string \<Rightarrow> json option \<Rightarrow> bytes \<Rightarrow>
     turn_record option" where
  "unpack_nonstreaming parse render proto request response_body =
     Option.bind (detect_by_name render proto) (\<lambda>d.
     Option.bind request (\<lambda>req.
     Option.bind (parse response_body) (\<lambda>resp.
       nonstreaming d req resp)))"

definition parse_body :: "(string \<Rightarrow> json option) \<Rightarrow> bytes \<Rightarrow> json option" where
  "parse_body parse request_body = parse request_body"

record turn_facts =
  tf_session_id :: "string option"
  tf_session_source :: string
  tf_user_input :: string
  tf_model_name :: string
  tf_user_id :: string
  tf_messages :: "json list option"
  tf_stitch_eligible :: bool

definition extract_messages :: "json \<Rightarrow> json list option" where
  "extract_messages req = opt_filter (\<lambda>v. v \<noteq> []) (as_array (jat req ''messages''))"

definition facts_session ::
  "(string \<Rightarrow> json option) \<Rightarrow> descriptor \<Rightarrow> json \<Rightarrow> (string \<Rightarrow> string option) \<Rightarrow> harness_facts \<Rightarrow>
     string option \<times> string" where
  "facts_session parse d req header_get facts =
     (case session_from_body_with_source d req of
        Some (sid, path) \<Rightarrow> (Some sid, ''body:'' @ join ''.'' path)
      | None \<Rightarrow>
     (case h_session_from_body parse facts req of
        Some sid \<Rightarrow> (Some sid, ''body:harness'')
      | None \<Rightarrow>
     (case session_from_headers_with_source d header_get of
        Some (sid, nm) \<Rightarrow> (Some sid, ''header:'' @ nm)
      | None \<Rightarrow>
     (case h_session_from_headers_with_source facts header_get of
        Some (sid, nm) \<Rightarrow> (Some sid, ''harness-header:'' @ nm)
      | None \<Rightarrow> (None, [])))))"

definition turn_facts_of ::
  "(string \<Rightarrow> json option) \<Rightarrow> (json \<Rightarrow> string) \<Rightarrow> string \<Rightarrow> json \<Rightarrow> (string \<Rightarrow> string option) \<Rightarrow>
     harness_facts \<Rightarrow> turn_facts option" where
  "turn_facts_of parse render proto req header_get facts =
     map_option (\<lambda>d.
       (let (sid, source) = facts_session parse d req header_get facts
        in \<lparr>tf_session_id = sid,
            tf_session_source = source,
            tf_user_input = unwrap_or [] (user_input_of d req),
            tf_model_name = str_or_empty (jat req ''model''),
            tf_user_id = unwrap_or [] (end_user d req),
            tf_messages = extract_messages req,
            tf_stitch_eligible = stitch_eligible d\<rparr>)) (detect_by_name render proto)"

definition resolve_session ::
  "(string \<Rightarrow> json option) \<Rightarrow> (json \<Rightarrow> string) \<Rightarrow> string \<Rightarrow> json \<Rightarrow> (string \<Rightarrow> string option) \<Rightarrow>
     harness_facts \<Rightarrow> string option" where
  "resolve_session parse render proto req header_get facts =
     Option.bind (detect_by_name render proto) (\<lambda>d.
       or_else (session_from_body d req)
      (or_else (h_session_from_body parse facts req)
      (or_else (session_from_headers d header_get)
               (h_session_from_headers facts header_get))))"

definition extract_user_input ::
  "(string \<Rightarrow> json option) \<Rightarrow> (json \<Rightarrow> string) \<Rightarrow> string \<Rightarrow> bytes \<Rightarrow> string option" where
  "extract_user_input parse render proto request_body =
     Option.bind (detect_by_name render proto) (\<lambda>d.
     Option.bind (parse request_body) (\<lambda>req. user_input_of d req))"

section \<open>Laws\<close>

lemma detect_by_name_known:
  "detect_by_name render proto = Some d \<Longrightarrow> d \<in> set (DESCRIPTORS render) \<and> d_name d = proto"
  by (auto simp: detect_by_name_def find_Some_iff)

lemma body_source_transforms:
  "d \<in> set (DESCRIPTORS render) \<Longrightarrow> src \<in> set (body_sources d) \<Longrightarrow>
     transform src = None \<or> transform src = Some pck_namespace"
  by (auto simp: DESCRIPTORS_def anthropic_descriptor_def responses_descriptor_def
      chat_descriptor_def live_descriptor_def plain_source_def pck_source_def)

lemma body_session_nonblank:
  assumes "d \<in> set (DESCRIPTORS render)" "session_from_body_with_source d req = Some (sid, p)"
  shows "sid \<noteq> []"
proof -
  from session_from_body_Some [OF assms(2)] obtain src
    where "src \<in> set (body_sources d)" "read_source req src = Some sid"
    by (metis in_set_conv_decomp)
  then show ?thesis
    using body_source_transforms [OF assms(1), of src] read_source_plain [of src req sid]
      read_source_pck [of src req sid] by auto
qed

lemma dialect_session_nonblank: "dialect_session parse req = Some sid \<Longrightarrow> sid \<noteq> []"
  using metadata_session_nonblank
  by (auto simp: dialect_session_def metadata_envelope_transform_def bind_eq_Some_conv
      split: option.splits)

lemma harness_session_nonblank: "h_session_from_body parse facts req = Some sid \<Longrightarrow> sid \<noteq> []"
  using dialect_session_nonblank
  by (auto simp: h_session_from_body_def DIALECTS_def claude_code_dialect_def bind_eq_Some_conv
      split: if_splits)

lemma harness_header_session_nonblank:
  "h_session_from_headers_with_source facts get = Some (sid, nm) \<Longrightarrow> sid \<noteq> []"
  by (auto simp: h_session_from_headers_with_source_def bind_eq_Some_conv dest!: find_map_SomeD)

text \<open>The single-pass extraction agrees with the session pipeline: the session of
  \<open>turn_facts\<close> is the one of \<open>resolve_session\<close>, with the same priority of body mounts, dialect
  shapes, protocol headers and harness headers; it is never empty, and the provenance marker is
  empty exactly when there is no session.\<close>

theorem turn_facts_session:
  "map_option tf_session_id (turn_facts_of parse render proto req header_get facts) =
     map_option (\<lambda>_. resolve_session parse render proto req header_get facts)
       (detect_by_name render proto)
   \<and> resolve_session parse render proto req header_get facts \<noteq> Some []
   \<and> (case turn_facts_of parse render proto req header_get facts of
        None \<Rightarrow> True
      | Some t \<Rightarrow> tf_session_source t = [] \<longleftrightarrow> tf_session_id t = None)"
proof (cases "detect_by_name render proto")
  case None
  then show ?thesis by (simp add: turn_facts_of_def resolve_session_def)
next
  case (Some d)
  note d = conjunct1 [OF detect_by_name_known [OF Some]]
  have "resolve_session parse render proto req header_get facts =
      fst (facts_session parse d req header_get facts)"
    by (auto simp: resolve_session_def Some facts_session_def session_from_body_def
        session_from_headers_def h_session_from_headers_def or_else_def split: option.split)
  moreover have "fst (facts_session parse d req header_get facts) \<noteq> Some []"
    using body_session_nonblank [OF d] harness_session_nonblank session_from_headers_Some
      harness_header_session_nonblank
    by (auto simp: facts_session_def split: option.splits)
  moreover have "snd (facts_session parse d req header_get facts) = [] \<longleftrightarrow>
      fst (facts_session parse d req header_get facts) = None"
    by (auto simp: facts_session_def split: option.splits)
  ultimately show ?thesis
    by (cases "facts_session parse d req header_get facts") (simp add: turn_facts_of_def Some)
qed

end
