(* ===== verification/Capture.thy ===== *)
theory Capture
  imports Utf8
begin

text \<open>
  \<open>src/trace/capture.rs\<close>: the cap on verbatim content. The shared atomic of \<open>CaptureCap\<close> is its
  current value; \<open>bound\<close> reads it once. The marker appended to a cut body carries the original
  and the kept byte counts.
\<close>

record capture_cap =
  cap_bytes :: nat

definition capture_new :: "nat \<Rightarrow> capture_cap" where
  "capture_new n = \<lparr>cap_bytes = max n 1\<rparr>"

definition capture_default :: capture_cap where
  "capture_default = capture_new (16 * 2 ^ 20)"

definition set_max :: "nat \<Rightarrow> capture_cap \<Rightarrow> capture_cap" where
  "set_max n c = c\<lparr>cap_bytes := max n 1\<rparr>"

definition max_bytes :: "capture_cap \<Rightarrow> nat" where
  "max_bytes c = cap_bytes c"

text \<open>The loop that backs up over continuation bytes.\<close>

fun back_up :: "bytes \<Rightarrow> nat \<Rightarrow> nat" where
  "back_up d 0 = 0"
| "back_up d (Suc e) = (if is_cont (d ! Suc e) then back_up d e else Suc e)"

definition truncation_marker :: "nat \<Rightarrow> nat \<Rightarrow> string" where
  "truncation_marker original captured =
     ''[truncated:original_bytes='' @ show_nat original @ '',captured_bytes='' @ show_nat captured
       @ '']''"

definition bound :: "capture_cap \<Rightarrow> bytes \<Rightarrow> string" where
  "bound c d =
     (if length d \<le> max_bytes c then from_utf8_lossy d
      else (let e = back_up d (max_bytes c)
            in from_utf8_lossy (take e d) @ truncation_marker (length d) e))"

section \<open>Laws\<close>

lemma back_up_le: "back_up d e \<le> e"
  by (induction d e rule: back_up.induct) auto

lemma back_up_boundary: "back_up d e = 0 \<or> \<not> is_cont (d ! back_up d e)"
  by (induction d e rule: back_up.induct) auto

lemma back_up_run: "back_up d e < i \<Longrightarrow> i \<le> e \<Longrightarrow> is_cont (d ! i)"
  by (induction d e rule: back_up.induct) (auto simp: le_Suc_eq split: if_splits)

lemma cont_seq_length: "is_cont b \<Longrightarrow> seq_length b = 0"
  by (auto simp: is_cont_def in_range_def seq_length_def)

lemma utf8_step_True: "utf8_step b r = (True, n) \<Longrightarrow> n \<le> 4 \<and> \<not> is_cont b"
  by (auto simp: utf8_step.simps Let_def cont_seq_length split: if_splits list.splits)

text \<open>A character has at most three continuation bytes, so a boundary is never far.\<close>

lemma boundary_near:
  "valid_utf8 s \<Longrightarrow> k < length s \<Longrightarrow> \<exists>j\<le>3. j \<le> k \<and> \<not> is_cont (s ! (k - j))"
proof (induction s arbitrary: k rule: utf8_chunks.induct)
  case 1
  then show ?case by simp
next
  case (2 b r)
  from 2(2) obtain n where st: "utf8_step b r = (True, n)" and rest: "valid_utf8 (drop n (b # r))"
    by (auto simp: valid_utf8_Cons)
  have n: "0 < n" "n \<le> 4" "\<not> is_cont b" using utf8_step_pos [OF st] utf8_step_True [OF st] by auto
  show ?case
  proof (cases "k < n")
    case True
    with n have "k \<le> 3" "\<not> is_cont ((b # r) ! (k - k))" by simp_all
    then show ?thesis by blast
  next
    case False
    then have "k - n < length (drop n (b # r))" using 2(3) by simp
    from 2(1) [unfolded st snd_conv, OF rest this] obtain j
      where j: "j \<le> 3" "j \<le> k - n" "\<not> is_cont (drop n (b # r) ! (k - n - j))" by blast
    have "n \<le> length (b # r)" "n + (k - n - j) = k - j" using False j 2(3) by simp_all
    then have "drop n (b # r) ! (k - n - j) = (b # r) ! (k - j)"
      using nth_drop [of n "b # r" "k - n - j"] by simp
    with j have "j \<le> 3 \<and> j \<le> k \<and> \<not> is_cont ((b # r) ! (k - j))" by simp
    then show ?thesis by blast
  qed
qed



end
