(* ===== verification/Config_Store.thy ===== *)
theory Config_Store
  imports Config
begin

text \<open>
  \<open>src/config_store.rs\<close>: the current snapshot, the structural values the process was started
  with, and the transactional reload. The state of the running components that the hot-apply hook
  re-seeds is the type \<open>'w\<close>; the hook is a function on it. The result of reading the file is
  \<open>load_config\<close>; the clock readings are arguments.
\<close>

record snapshot =
  sn_cfg :: config
  sn_sha256 :: bytes
  sn_generation :: u64
  sn_loaded_at_ms :: nat
  sn_path :: string
  sn_restart_required :: "string list"

record running_structural =
  rs_listen :: string
  rs_worker_threads :: u64
  rs_export_workers :: u64
  rs_trace_mode :: string

definition HOT_KEYS :: "string list" where
  "HOT_KEYS = [''server.upstream'', ''server.sni'', ''server.max_ws_frame_payload'', ''trace.tag'',
     ''drain.on_cancel'', ''drain.timeout_secs'', ''capture.max_bytes'', ''store.max_records'',
     ''store.max_bytes'', ''stitch.capacity'', ''stitch.ttl_ms'', ''api_key.salt'',
     ''export.otlp_endpoint'', ''export.max_inflight'']"

definition STRUCTURAL_KEYS :: "string list" where
  "STRUCTURAL_KEYS = [''server.listen'', ''server.worker_threads'', ''trace.mode'', ''export.workers'']"

record reload_report =
  rr_generation :: u64
  rr_applied :: "string list"
  rr_restart_required :: "string list"
  rr_sha256 :: bytes
  rr_elapsed_ms :: nat

record 'w config_store =
  inner :: snapshot
  reload_failures :: u64
  structural :: running_structural
  on_reload :: "(config \<Rightarrow> 'w \<Rightarrow> 'w) option"

definition structural_of :: "config \<Rightarrow> running_structural" where
  "structural_of cfg = \<lparr>rs_listen = listen (c_server cfg),
     rs_worker_threads = ucast (worker_threads (c_server cfg)),
     rs_export_workers = export_workers (c_export cfg), rs_trace_mode = tr_mode (c_trace cfg)\<rparr>"

definition config_store_new :: "nat \<Rightarrow> loaded \<Rightarrow> 'w config_store" where
  "config_store_new now_ms l = \<lparr>
     inner = \<lparr>sn_cfg = ld_config l, sn_sha256 = ld_sha256 l, sn_generation = 1,
              sn_loaded_at_ms = now_ms, sn_path = ld_path l, sn_restart_required = []\<rparr>,
     reload_failures = 0,
     structural = structural_of (ld_config l),
     on_reload = None\<rparr>"

definition from_config :: "nat \<Rightarrow> config \<Rightarrow> 'w config_store" where
  "from_config now_ms cfg = config_store_new now_ms
     \<lparr>ld_config = cfg, ld_sha256 = replicate 32 (CHR 0x00), ld_path = [], ld_len = 0\<rparr>"

definition set_on_reload :: "(config \<Rightarrow> 'w \<Rightarrow> 'w) \<Rightarrow> 'w config_store \<Rightarrow> 'w config_store" where
  "set_on_reload hook cs = cs\<lparr>on_reload := Some hook\<rparr>"

definition hot_changed :: "config \<Rightarrow> config \<Rightarrow> bool list" where
  "hot_changed old new =
     [upstream (c_server old) \<noteq> upstream (c_server new),
      sni (c_server old) \<noteq> sni (c_server new),
      max_ws_frame_payload (c_server old) \<noteq> max_ws_frame_payload (c_server new),
      tr_tag (c_trace old) \<noteq> tr_tag (c_trace new),
      on_cancel (c_drain old) \<noteq> on_cancel (c_drain new),
      timeout_secs (c_drain old) \<noteq> timeout_secs (c_drain new),
      capture_max_bytes (c_capture old) \<noteq> capture_max_bytes (c_capture new),
      store_max_records (c_store old) \<noteq> store_max_records (c_store new),
      store_max_bytes (c_store old) \<noteq> store_max_bytes (c_store new),
      stitch_capacity (c_stitch old) \<noteq> stitch_capacity (c_stitch new),
      stitch_ttl_ms (c_stitch old) \<noteq> stitch_ttl_ms (c_stitch new),
      salt (c_api_key old) \<noteq> salt (c_api_key new),
      otlp_endpoint (c_export old) \<noteq> otlp_endpoint (c_export new),
      max_inflight (c_export old) \<noteq> max_inflight (c_export new)]"

definition structural_changed :: "running_structural \<Rightarrow> config \<Rightarrow> bool list" where
  "structural_changed running new =
     [rs_listen running \<noteq> listen (c_server new),
      rs_worker_threads running \<noteq> ucast (worker_threads (c_server new)),
      rs_trace_mode running \<noteq> tr_mode (c_trace new),
      rs_export_workers running \<noteq> export_workers (c_export new)]"

definition changed_keys :: "string list \<Rightarrow> bool list \<Rightarrow> string list" where
  "changed_keys keys changed = map fst (filter snd (zip keys changed))"

definition diff :: "config \<Rightarrow> config \<Rightarrow> running_structural \<Rightarrow> string list \<times> string list" where
  "diff old new running =
     (changed_keys HOT_KEYS (hot_changed old new),
      changed_keys STRUCTURAL_KEYS (structural_changed running new))"

definition reload ::
  "(string \<Rightarrow> config_error + loaded) \<Rightarrow> nat \<Rightarrow> nat \<Rightarrow> 'w config_store \<Rightarrow> 'w \<Rightarrow>
     (config_error + reload_report) \<times> 'w config_store \<times> 'w" where
  "reload load now_ms elapsed cs w =
     (let current = inner cs in
      case load (sn_path current) of
        Inr l \<Rightarrow>
          (let (applied, restart) = diff (sn_cfg current) (ld_config l) (structural cs);
               snap = \<lparr>sn_cfg = ld_config l, sn_sha256 = ld_sha256 l,
                       sn_generation = sat_add_u64 (sn_generation current) 1,
                       sn_loaded_at_ms = now_ms, sn_path = ld_path l,
                       sn_restart_required = restart\<rparr>;
               report = \<lparr>rr_generation = sn_generation snap, rr_applied = applied,
                         rr_restart_required = sn_restart_required snap,
                         rr_sha256 = sn_sha256 snap, rr_elapsed_ms = elapsed\<rparr>;
               cs = cs\<lparr>inner := snap\<rparr>;
               w = (case on_reload cs of Some hook \<Rightarrow> hook (sn_cfg snap) w | None \<Rightarrow> w)
           in (Inr report, cs, w))
      | Inl err \<Rightarrow> (Inl err, cs\<lparr>reload_failures := reload_failures cs + 1\<rparr>, w))"

section \<open>Laws\<close>

lemma changed_keys_Nil:
  "length keys = length changed \<Longrightarrow> changed_keys keys changed = [] \<longleftrightarrow> list_all Not changed"
proof (induction keys changed rule: list_induct2)
  case Nil
  then show ?case by (simp add: changed_keys_def)
next
  case (Cons k ks c cs)
  then show ?case by (simp add: changed_keys_def)
qed

lemma key_lengths [simp]:
  "length HOT_KEYS = length (hot_changed a b)" "length STRUCTURAL_KEYS = length (structural_changed r b)"
  by (simp_all add: HOT_KEYS_def STRUCTURAL_KEYS_def hot_changed_def structural_changed_def)

lemma unat_ucast_u32: "unat (ucast (a :: u32) :: u64) = unat a"
proof -
  have "unat a < 2 ^ 64" using unsigned_less [of a, where ?'a = nat] by simp
  then show ?thesis by (simp add: unsigned_ucast_eq take_bit_nat_eq_self)
qed

lemma ucast_u32_inj: "(ucast (a :: u32) :: u64) = ucast b \<longleftrightarrow> a = b"
  by (metis unat_ucast_u32 word_unat_eq_iff)

text \<open>No change of the file is silently ignored: if a reload reports neither an applied key nor a
  key that needs a restart, while every structural value still is the running one, then the new
  configuration is the old one.\<close>

theorem diff_complete:
  assumes "diff old new (structural_of old) = ([], [])" and "version old = version new"
  shows "new = old"
proof -
  have h: "list_all Not (hot_changed old new)"
    and s: "list_all Not (structural_changed (structural_of old) new)"
    using assms(1) by (simp_all add: diff_def changed_keys_Nil)
  have "c_server new = c_server old"
    using h s
    by (intro server_cfg.equality)
      (simp_all add: hot_changed_def structural_changed_def structural_of_def ucast_u32_inj)
  moreover have "c_trace new = c_trace old"
    using h s by (intro trace_cfg.equality) (simp_all add: hot_changed_def structural_changed_def structural_of_def)
  moreover have "c_export new = c_export old"
    using h s by (intro export_cfg.equality) (simp_all add: hot_changed_def structural_changed_def structural_of_def)
  moreover have "c_drain new = c_drain old"
    using h by (intro drain_cfg.equality) (simp_all add: hot_changed_def)
  moreover have "c_capture new = c_capture old"
    using h by (intro capture_cfg.equality) (simp_all add: hot_changed_def)
  moreover have "c_store new = c_store old"
    using h by (intro store_cfg.equality) (simp_all add: hot_changed_def)
  moreover have "c_stitch new = c_stitch old"
    using h by (intro stitch_cfg.equality) (simp_all add: hot_changed_def)
  moreover have "c_api_key new = c_api_key old"
    using h by (intro api_key_cfg.equality) (simp_all add: hot_changed_def)
  ultimately show ?thesis using assms(2) by (intro config.equality) simp_all
qed

lemma diff_complete_witness: "diff sample_config sample_config (structural_of sample_config) = ([], [])
    \<and> sample_config = sample_config"
proof -
  have d: "diff sample_config sample_config (structural_of sample_config) = ([], [])"
    by (simp add: diff_def changed_keys_Nil) (simp add: hot_changed_def structural_changed_def structural_of_def)
  from diff_complete [OF d refl] d show ?thesis by simp
qed

text \<open>The history of a store: reloads of whatever the file held at the time.\<close>

definition reload_runs ::
  "((string \<Rightarrow> config_error + loaded) \<times> nat \<times> nat) list \<Rightarrow> 'w config_store \<times> 'w \<Rightarrow> 'w config_store \<times> 'w" where
  "reload_runs rs st = fold (\<lambda>(load, now, el) (cs, w). snd (reload load now el cs w)) rs st"


lemma reload_step:
  obtains (bad) "isl (load (sn_path (inner cs)))"
      "snd (reload load now el cs w) = (cs\<lparr>reload_failures := reload_failures cs + 1\<rparr>, w)"
    | (good) l s where "load (sn_path (inner cs)) = Inr l" "sn_cfg s = ld_config l" "sn_path s = ld_path l"
      "sn_generation s = sat_add_u64 (sn_generation (inner cs)) 1"
      "snd (reload load now el cs w) = (cs\<lparr>inner := s\<rparr>,
         case on_reload cs of Some hook \<Rightarrow> hook (ld_config l) w | None \<Rightarrow> w)"
proof (cases "load (sn_path (inner cs))")
  case (Inl e)
  then show ?thesis by (intro bad) (simp_all add: reload_def Let_def)
next
  case (Inr l)
  show ?thesis
    by (rule good [where l = l and s = "inner (fst (snd (reload load now el cs w)))"])
      (cases "on_reload cs"; simp add: reload_def Let_def diff_def Inr)+
qed

text \<open>The two counters of a store account for every reload: after any history from a fresh store,
  with a loader that keeps the path and fewer reloads than the counters can count, the generation
  is one more than the number of successful reloads, the failure counter the number of failed
  ones, and together they are all of them.\<close>

theorem reload_counts:
  fixes l0 :: loaded and w0 :: 'w
  assumes "length rs < 2 ^ 64 - 1"
  shows "\<exists>good bad. good + bad = length rs
     \<and> unat (sn_generation (inner (fst (reload_runs rs (config_store_new now0 l0, w0))))) = 1 + good
     \<and> unat (reload_failures (fst (reload_runs rs (config_store_new now0 l0, w0)))) = bad
     \<and> structural (fst (reload_runs rs (config_store_new now0 l0, w0))) = structural_of (ld_config l0)"
  using assms
proof (induction rs rule: rev_induct)
  case Nil
  then show ?case by (simp add: reload_runs_def config_store_new_def)
next
  case (snoc r rs)
  obtain load now el where r: "r = (load, now, el)" by (cases r)
  obtain cs w where st: "reload_runs rs (config_store_new now0 l0, w0) = (cs, w)" by fastforce
  have st': "reload_runs (rs @ [r]) (config_store_new now0 l0, w0) = snd (reload load now el cs w)"
    using st by (simp add: reload_runs_def r)
  from snoc have "length rs < 2 ^ 64 - 1" by simp
  with snoc.IH st obtain good bad where gb: "good + bad = length rs"
    "unat (sn_generation (inner cs)) = 1 + good" "unat (reload_failures cs) = bad"
    "structural cs = structural_of (ld_config l0)" by auto
  show ?case
  proof (cases rule: reload_step [of load cs now el w])
    case bad
    have "unat (reload_failures cs + 1) = Suc bad"
      using gb snoc.prems by (simp add: unat_word_ariths)
    then show ?thesis unfolding st' bad(2) using gb by (intro exI [of _ good] exI [of _ "Suc bad"]) simp
  next
    case (good l s)
    have "unat (sat_add_u64 (sn_generation (inner cs)) 1) = 1 + Suc good"
      using gb snoc.prems by (simp add: unat_sat_add_u64)
    then show ?thesis unfolding st' good(5) using gb good(4)
      by (intro exI [of _ "Suc good"] exI [of _ bad]) simp
  qed
qed

lemma reload_counts_witness:
  "\<exists>good bad. good + bad = length [(\<lambda>p. Inl (IoError p []), 0, 0), (\<lambda>p. Inr \<lparr>ld_config = sample_config, ld_sha256 = [], ld_path = p, ld_len = 0\<rparr>, 1, 2)]
     \<and> unat (sn_generation (inner (fst (reload_runs
          [(\<lambda>p. Inl (IoError p []), 0, 0), (\<lambda>p. Inr \<lparr>ld_config = sample_config, ld_sha256 = [], ld_path = p, ld_len = 0\<rparr>, 1, 2)]
          (config_store_new 0 \<lparr>ld_config = sample_config, ld_sha256 = [], ld_path = ''gateway.toml'', ld_len = 0\<rparr>, ()))))) = 1 + good"
  using reload_counts [of "[(\<lambda>p. Inl (IoError p []), 0, 0), (\<lambda>p. Inr \<lparr>ld_config = sample_config, ld_sha256 = [], ld_path = p, ld_len = 0\<rparr>, 1, 2)]"
      0 "\<lparr>ld_config = sample_config, ld_sha256 = [], ld_path = ''gateway.toml'', ld_len = 0\<rparr>" "()"]
  by auto

end
