(* ===== verification/Stepped.thy ===== *)
theory Stepped
  imports Prelude
begin

text \<open>
  The interface of a parser that takes one item at a time off a byte buffer: it waits for more
  bytes, refuses the buffer, or yields an item and the rest. The client feeds bytes as they arrive
  and collects the items; the laws (an item or a refusal does not depend on bytes that come later)
  make the outputs independent of how the bytes were cut, as long as nothing is refused.
\<close>

datatype 'o next_item = Wait | Refuse | Item 'o bytes

locale stepped_parser =
  fixes next_of :: "bytes \<Rightarrow> 'o next_item"
    and drain :: "bytes \<Rightarrow> 'o list \<times> bytes"
    and accepts :: "bytes \<Rightarrow> bool"
  assumes drain_eq: "drain b = (case next_of b of Wait \<Rightarrow> ([], b) | Refuse \<Rightarrow> ([], [])
      | Item x r \<Rightarrow> (x # fst (drain r), snd (drain r)))"
    and accepts_eq: "accepts b = (case next_of b of Wait \<Rightarrow> True | Refuse \<Rightarrow> False
      | Item x r \<Rightarrow> accepts r)"
    and item_shorter: "next_of b = Item x r \<Longrightarrow> length r < length b"
    and item_resume: "next_of b = Item x r \<Longrightarrow> next_of (b @ later) = Item x (r @ later)"
    and refuse_resume: "next_of b = Refuse \<Longrightarrow> next_of (b @ later) = Refuse"
begin

lemma drain_append:
  "accepts (a @ b) \<Longrightarrow>
     accepts (snd (drain a) @ b)
     \<and> drain (a @ b) = (fst (drain a) @ fst (drain (snd (drain a) @ b)), snd (drain (snd (drain a) @ b)))"
proof (induction a rule: length_induct)
  case (1 a)
  show ?case
  proof (cases "next_of a")
    case Wait
    then have "drain a = ([], a)" by (subst drain_eq) simp
    with 1(2) show ?thesis by simp
  next
    case Refuse
    then have "next_of (a @ b) = Refuse" by (rule refuse_resume)
    with 1(2) show ?thesis by (subst (asm) accepts_eq) simp
  next
    case (Item x r)
    note n = item_resume [OF this, of b]
    have d: "drain a = (x # fst (drain r), snd (drain r))"
      "drain (a @ b) = (x # fst (drain (r @ b)), snd (drain (r @ b)))"
      using Item n by (subst drain_eq, simp)+
    have "accepts (r @ b)" using 1(2) n by (subst (asm) accepts_eq) simp
    with 1(1) item_shorter [OF Item] show ?thesis unfolding d by simp
  qed
qed

lemma accepts_prefix: "accepts (a @ b) \<Longrightarrow> accepts a"
proof (induction a rule: length_induct)
  case (1 a)
  show ?case
  proof (cases "next_of a")
    case Wait
    then show ?thesis by (subst accepts_eq) simp
  next
    case Refuse
    then have "next_of (a @ b) = Refuse" by (rule refuse_resume)
    with 1(2) show ?thesis by (subst (asm) accepts_eq) simp
  next
    case (Item x r)
    with item_resume [OF this, of b] 1(2) have "accepts (r @ b)" by (subst (asm) accepts_eq) simp
    with 1(1) item_shorter [OF Item] Item show ?thesis by (subst accepts_eq) simp
  qed
qed

text \<open>Pushing chunk after chunk, the buffer carried along.\<close>

lemma drain_chunks:
  "accepts (buf @ concat chunks) \<Longrightarrow> drain buf = ([], buf) \<Longrightarrow>
     foldl (\<lambda>(out, buf) c. (out @ fst (drain (buf @ c)), snd (drain (buf @ c)))) (out, buf) chunks =
     (out @ fst (drain (buf @ concat chunks)), snd (drain (buf @ concat chunks)))"
proof (induction chunks arbitrary: out buf)
  case Nil
  then show ?case by simp
next
  case (Cons c cs)
  let ?r = "snd (drain (buf @ c))"
  from drain_append [of "buf @ c" "concat cs"] Cons.prems(1)
  have acc: "accepts (?r @ concat cs)"
    and d: "drain (buf @ concat (c # cs)) =
      (fst (drain (buf @ c)) @ fst (drain (?r @ concat cs)), snd (drain (?r @ concat cs)))"
    by simp_all
  have "drain ?r = ([], ?r)"
  proof -
    have a0: "accepts ((buf @ c) @ [])"
      using accepts_prefix [of "buf @ c" "concat cs"] Cons.prems(1) by simp
    show ?thesis
      using drain_append [OF a0] by (metis append_Nil2 append_self_conv prod.collapse fst_conv snd_conv)
  qed
  with Cons.IH [OF acc, of "out @ fst (drain (buf @ c))"] d show ?case by simp
qed

end

end
