(* ===== verification/Live.thy ===== *)
theory Live
  imports Usage Utf8 Stepped
begin

unbundle bit_operations_syntax

text \<open>
  \<open>crates/atg-protocol/src/openai/live.rs\<close>: the WebSocket frame parser of upgraded connections
  and the state of the turn that is assembled from the frames. Byte arithmetic is on \<open>code\<close>;
  the declared length is a \<open>u64\<close>, read as a natural number below \<open>2 ^ 64\<close>, so that the checked
  addition is the comparison with \<open>2 ^ 64\<close>. \<open>parse\<close> is \<open>serde_json::from_slice\<close>.
\<close>

section \<open>Frame parser\<close>

record ws_parser =
  ws_buf :: bytes
  expect_masked :: bool
  max_payload :: nat

definition ws_new :: "bool \<Rightarrow> ws_parser" where
  "ws_new masked = \<lparr>ws_buf = [], expect_masked = masked, max_payload = 0\<rparr>"

definition with_max_payload :: "bool \<Rightarrow> nat \<Rightarrow> ws_parser" where
  "with_max_payload masked n = \<lparr>ws_buf = [], expect_masked = masked, max_payload = n\<rparr>"

definition be_value :: "bytes \<Rightarrow> nat" where
  "be_value bs = foldl (\<lambda>a b. 256 * a + code b) 0 bs"

text \<open>Declared length and header size, once enough bytes are there.\<close>

definition ws_header :: "bytes \<Rightarrow> (nat \<times> nat) option" where
  "ws_header buf =
     (let len = code (buf ! 1) mod 128 in
      if len = 126 then (if 4 \<le> length buf then Some (be_value (take 2 (drop 2 buf)), 4) else None)
      else if len = 127 then
        (if 10 \<le> length buf then Some (be_value (take 8 (drop 2 buf)), 10) else None)
      else Some (len, 2))"

definition byte_xor :: "char \<Rightarrow> char \<Rightarrow> char" where
  "byte_xor a b = char_of (unat ((word_of_nat (code a) :: 8 word) XOR word_of_nat (code b)))"

definition unmask :: "bytes \<Rightarrow> bytes \<Rightarrow> bytes" where
  "unmask key payload = map (\<lambda>(i, b). byte_xor b (key ! (i mod 4))) (List.enumerate 0 payload)"

text \<open>One round of the loop in \<open>push\<close>: an item is the opcode and the payload.\<close>

definition ws_next :: "nat \<Rightarrow> bytes \<Rightarrow> (nat \<times> bytes) next_item" where
  "ws_next cap buf =
     (if length buf < 2 then Wait
      else
        let opcode = code (buf ! 0) mod 16;
            masked = (128 \<le> code (buf ! 1))
        in case ws_header buf of
             None \<Rightarrow> Wait
           | Some (len, hdr) \<Rightarrow>
               let mask_len = (if masked then 4 else 0);
                   total = hdr + mask_len + len
               in if 2 ^ 64 \<le> total then Refuse
                  else if 0 < cap \<and> cap < len then Refuse
                  else if length buf < total then Wait
                  else
                    let payload = take len (drop (hdr + mask_len) buf);
                        payload = (if masked then unmask (take 4 (drop hdr buf)) payload else payload)
                    in Item (opcode, payload) (drop total buf))"

lemma ws_next_shorter: "ws_next cap b = Item x r \<Longrightarrow> length r < length b"
  by (auto simp: ws_next_def ws_header_def Let_def split: if_splits option.splits)

function ws_drain :: "nat \<Rightarrow> bytes \<Rightarrow> (nat \<times> bytes) list \<times> bytes" where
  "ws_drain cap buf =
     (case ws_next cap buf of
        Wait \<Rightarrow> ([], buf)
      | Refuse \<Rightarrow> ([], [])
      | Item x rest \<Rightarrow> (x # fst (ws_drain cap rest), snd (ws_drain cap rest)))"
  by pat_completeness auto
termination
  by (relation "measure (length \<circ> snd)") (auto dest: ws_next_shorter)

declare ws_drain.simps [simp del]

definition text_payloads :: "(nat \<times> bytes) list \<Rightarrow> bytes list" where
  "text_payloads items = map snd (filter (\<lambda>(opcode, _). opcode = 1) items)"

definition ws_push :: "bytes \<Rightarrow> ws_parser \<Rightarrow> bytes list \<times> ws_parser" where
  "ws_push data p =
     (let (items, buf) = ws_drain (max_payload p) (ws_buf p @ data)
      in (text_payloads items, p\<lparr>ws_buf := buf\<rparr>))"

section \<open>Turn state\<close>

definition text_event :: "string option" where
  "text_event = find_map (\<lambda>r. case action r of TextAt _ \<Rightarrow> Some (on r) | _ \<Rightarrow> None)
     (sse_rules live_descriptor)"

definition tool_event :: "string option" where
  "tool_event = find_map (\<lambda>r. if action r = ToolDone then Some (on r) else None)
     (sse_rules live_descriptor)"

definition start_marker :: string where
  "start_marker = unwrap_or [] (map_option marker_start (markers live_descriptor))"

record ws_turn =
  wt_input :: "string option"
  wt_session_id :: string
  wt_usage :: "turn_usage option"
  wt_output :: string
  wt_tool_calls :: "tool_call list"
  wt_raw_request :: string
  wt_raw_response :: string
  wt_model_name :: string
  wt_user_id :: string

definition empty_turn :: ws_turn where
  "empty_turn = \<lparr>wt_input = None, wt_session_id = [], wt_usage = None, wt_output = [],
     wt_tool_calls = [], wt_raw_request = [], wt_raw_response = [], wt_model_name = [],
     wt_user_id = []\<rparr>"

definition ws_active :: "ws_turn \<Rightarrow> bool" where
  "ws_active t \<longleftrightarrow> wt_input t \<noteq> None"

definition apply_client_frame :: "(string \<Rightarrow> json option) \<Rightarrow> bytes \<Rightarrow> ws_turn \<Rightarrow> ws_turn" where
  "apply_client_frame parse payload t =
     (case parse payload of
        None \<Rightarrow> t
      | Some v \<Rightarrow>
          if str_eq (jat v ''type'') start_marker then
            (let text = from_utf8_lossy payload
             in t\<lparr>wt_input := Some text, wt_raw_request := text, wt_raw_response := [],
                  wt_session_id := str_or_empty (jat (jat v ''client_metadata'') ''session_id''),
                  wt_model_name := str_or_empty (jat v ''model''),
                  wt_user_id := unwrap_or [] (end_user live_descriptor v),
                  wt_output := [], wt_tool_calls := []\<rparr>)
          else t)"

definition take_record :: "ws_turn \<Rightarrow> turn_record \<times> ws_turn" where
  "take_record t =
     (default_turn\<lparr>
        protocol := d_name live_descriptor,
        session_id := wt_session_id t,
        user_input := unwrap_or [] (wt_input t),
        final_output := wt_output t,
        raw_request := wt_raw_request t,
        raw_response := wt_raw_response t,
        tool_calls := wt_tool_calls t,
        usage := wt_usage t,
        model_name := wt_model_name t,
        user_id := wt_user_id t,
        session_source := (if wt_session_id t = [] then [] else ''body:client_metadata.session_id'')\<rparr>,
      empty_turn)"

definition apply_server_frame ::
  "(string \<Rightarrow> json option) \<Rightarrow> bytes \<Rightarrow> ws_turn \<Rightarrow> turn_record option \<times> ws_turn" where
  "apply_server_frame parse payload t0 =
     (let t = t0\<lparr>wt_raw_response := wt_raw_response t0 @ from_utf8_lossy payload @ newline\<rparr>
      in case parse payload of
        None \<Rightarrow> (None, t)
      | Some v \<Rightarrow>
          let event = as_str (jat v ''type''); item = jat v ''item'' in
          if event = tool_event \<and> str_eq (jat item ''type'') ''function_call'' then
            (None, t\<lparr>wt_tool_calls := wt_tool_calls t @
               [\<lparr>tc_name = str_or_empty (jat item ''name''),
                 tc_arguments = str_or_empty (jat item ''arguments'')\<rparr>]\<rparr>)
          else if event = text_event then
            (case as_str (jat v ''delta'') of
               Some d \<Rightarrow> (None, t\<lparr>wt_output := wt_output t @ d\<rparr>)
             | None \<Rightarrow> (None, t))
          else if event = map_option marker_end (markers live_descriptor) then
            (let path = obj_path (hd (usage_frames live_descriptor));
                 u = resolve_path v path;
                 t = (if is_null u then t
                      else t\<lparr>wt_usage := Some (usage_from_obj live_descriptor u)\<rparr>);
                 (r, t) = take_record t
             in (Some r, t))
          else (None, t))"

section \<open>Laws of the frame parser\<close>

lemma nth_take_drop_append:
  "k + n \<le> length a \<Longrightarrow> take n (drop k (a @ b)) = take n (drop k a)"
  by simp

lemma ws_header_resume:
  "2 \<le> length a \<Longrightarrow> ws_header a = Some x \<Longrightarrow> ws_header (a @ b) = Some x"
  by (auto simp: ws_header_def Let_def nth_append split: if_splits)

lemma ws_next_resume:
  assumes "ws_next cap a \<noteq> Wait"
  shows "ws_next cap (a @ b) =
     (case ws_next cap a of Item x r \<Rightarrow> Item x (r @ b) | other \<Rightarrow> other)"
proof -
  from assms have len: "2 \<le> length a" by (auto simp: ws_next_def split: if_splits)
  from assms obtain n hdr where h: "ws_header a = Some (n, hdr)"
    by (auto simp: ws_next_def Let_def split: if_splits option.splits)
  note h' = ws_header_resume [OF len h, of b]
  have "0 < length a" "1 < length a" using len by linarith+
  then have at: "(a @ b) ! 0 = a ! 0" "(a @ b) ! 1 = a ! 1"
    by (simp_all only: nth_append if_True)
  define t where "t = hdr + (if 128 \<le> code (a ! 1) then 4 else 0) + n"
  have unfold: "ws_next cap x =
      (if 2 ^ 64 \<le> t then Refuse else if 0 < cap \<and> cap < n then Refuse
       else if length x < t then Wait
       else Item (code (a ! 0) mod 16,
         if 128 \<le> code (a ! 1) then unmask (take 4 (drop hdr x)) (take n (drop (hdr + 4) x))
         else take n (drop hdr x)) (drop t x))"
    if "2 \<le> length x" "ws_header x = Some (n, hdr)" "x ! 0 = a ! 0" "x ! 1 = a ! 1" for x
    using that by (simp add: ws_next_def t_def Let_def)
  have len': "2 \<le> length (a @ b)" using len by simp
  let ?pay = "\<lambda>x. if 128 \<le> code (a ! 1) then unmask (take 4 (drop hdr x)) (take n (drop (hdr + 4) x))
    else take n (drop hdr x)"
  have pay: "?pay (a @ b) = ?pay a" "drop t (a @ b) = drop t a @ b" if "t \<le> length a"
  proof -
    have m1: "take 4 (drop hdr (a @ b)) = take 4 (drop hdr a)
        \<and> take n (drop (hdr + 4) (a @ b)) = take n (drop (hdr + 4) a)" if "128 \<le> code (a ! 1)"
    proof -
      have "t = hdr + 4 + n" unfolding t_def using that by (simp only: if_True)
      with \<open>t \<le> length a\<close> show ?thesis by (intro conjI nth_take_drop_append) linarith+
    qed
    have m2: "take n (drop hdr (a @ b)) = take n (drop hdr a)" if "\<not> 128 \<le> code (a ! 1)"
    proof -
      have "t = hdr + 0 + n" unfolding t_def using that by (simp only: if_False)
      with \<open>t \<le> length a\<close> show ?thesis by (intro nth_take_drop_append) linarith
    qed
    show "?pay (a @ b) = ?pay a"
      by (cases "128 \<le> code (a ! 1)") (simp_all only: m1 m2 if_True if_False not_False_eq_True)
    show "drop t (a @ b) = drop t a @ b" using that by simp
  qed
  show ?thesis
  proof (cases "2 ^ 64 \<le> t \<or> (0 < cap \<and> cap < n)")
    case True
    then show ?thesis unfolding unfold [OF len h refl refl] unfold [OF len' h' at] by auto
  next
    case False
    then have la: "t \<le> length a"
      using assms unfolding unfold [OF len h refl refl] by (auto split: if_splits)
    then have lab: "t \<le> length (a @ b)" by simp
    show ?thesis
      unfolding unfold [OF len h refl refl] unfold [OF len' h' at] pay [OF la]
      using False la lab by (simp only: not_less [symmetric] if_False de_Morgan_disj next_item.case)
  qed
qed

text \<open>Whether the parser gets through a buffer without refusing it.\<close>

function ws_accepts :: "nat \<Rightarrow> bytes \<Rightarrow> bool" where
  "ws_accepts cap buf =
     (case ws_next cap buf of Wait \<Rightarrow> True | Refuse \<Rightarrow> False | Item x rest \<Rightarrow> ws_accepts cap rest)"
  by pat_completeness auto
termination
  by (relation "measure (length \<circ> snd)") (auto dest: ws_next_shorter)

declare ws_accepts.simps [simp del]

interpretation ws: stepped_parser "ws_next cap" "ws_drain cap" "ws_accepts cap" for cap
proof unfold_locales
  show "ws_drain cap b = (case ws_next cap b of Wait \<Rightarrow> ([], b) | Refuse \<Rightarrow> ([], [])
      | Item x r \<Rightarrow> (x # fst (ws_drain cap r), snd (ws_drain cap r)))" for b
    by (rule ws_drain.simps)
  show "ws_accepts cap b = (case ws_next cap b of Wait \<Rightarrow> True | Refuse \<Rightarrow> False
      | Item x r \<Rightarrow> ws_accepts cap r)" for b
    by (rule ws_accepts.simps)
  show "ws_next cap b = Item x r \<Longrightarrow> length r < length b" for b x r
    by (rule ws_next_shorter)
  show "ws_next cap b = Item x r \<Longrightarrow> ws_next cap (b @ later) = Item x (r @ later)" for b x r later
    by (simp add: ws_next_resume)
  show "ws_next cap b = Refuse \<Longrightarrow> ws_next cap (b @ later) = Refuse" for b later
    by (simp add: ws_next_resume)
qed

definition push_all :: "bytes list \<Rightarrow> ws_parser \<Rightarrow> bytes list \<times> ws_parser" where
  "push_all chunks p =
     foldl (\<lambda>(out, p) c. (out @ fst (ws_push c p), snd (ws_push c p))) ([], p) chunks"

lemma push_all_drain:
  "push_all chunks p =
     (let (items, buf) = foldl (\<lambda>(out, buf) c. (out @ fst (ws_drain (max_payload p) (buf @ c)),
            snd (ws_drain (max_payload p) (buf @ c)))) ([], ws_buf p) chunks
      in (text_payloads items, p\<lparr>ws_buf := buf\<rparr>))"
proof -
  have "foldl (\<lambda>(out, p) c. (out @ fst (ws_push c p), snd (ws_push c p)))
      (text_payloads items, p\<lparr>ws_buf := b\<rparr>) chunks =
    (let (items, buf) = foldl (\<lambda>(out, buf) c. (out @ fst (ws_drain (max_payload p) (buf @ c)),
            snd (ws_drain (max_payload p) (buf @ c)))) (items, b) chunks
     in (text_payloads items, p\<lparr>ws_buf := buf\<rparr>))" for items b
  proof (induction chunks arbitrary: items b)
    case Nil
    then show ?case by simp
  next
    case (Cons c cs)
    have "ws_push c (p\<lparr>ws_buf := b\<rparr>) = (text_payloads (fst (ws_drain (max_payload p) (b @ c))),
        p\<lparr>ws_buf := snd (ws_drain (max_payload p) (b @ c))\<rparr>)"
      by (simp add: ws_push_def split: prod.split)
    moreover have "text_payloads items @ text_payloads (fst (ws_drain (max_payload p) (b @ c))) =
        text_payloads (items @ fst (ws_drain (max_payload p) (b @ c)))"
      by (simp add: text_payloads_def)
    ultimately show ?case using Cons by simp
  qed
  from this [of "[]" "ws_buf p"] show ?thesis by (simp add: push_all_def text_payloads_def)
qed

text \<open>The frames recovered from a connection do not depend on how its bytes arrive: on a fresh
  parser, if the byte stream as a whole contains no refused frame, pushing it in any chunks yields
  the same text payloads, and leaves the same bytes buffered, as pushing it at once.\<close>

theorem ws_chunking:
  assumes "ws_accepts cap (concat chunks)"
  shows "push_all chunks (with_max_payload masked cap) =
    ws_push (concat chunks) (with_max_payload masked cap)"
proof -
  have "ws_drain cap [] = ([], [])" by (simp add: ws_drain.simps ws_next_def)
  from ws.drain_chunks [of cap "[]" chunks "[]"] assms this
  show ?thesis
    by (simp add: push_all_drain with_max_payload_def ws_push_def split: prod.split)
qed

section \<open>Writing frames\<close>

definition ws_frame :: "nat \<Rightarrow> bytes option \<Rightarrow> bytes \<Rightarrow> bytes" where
  "ws_frame opcode key payload =
     (let n = length payload; m = (case key of None \<Rightarrow> 0 | Some _ \<Rightarrow> 128) in
      char_of (128 + opcode) #
      (if n < 126 then [char_of (m + n)]
       else if n < 65536 then char_of (m + 126) # be_bytes 2 n
       else char_of (m + 127) # be_bytes 8 n)
      @ (case key of None \<Rightarrow> payload | Some k \<Rightarrow> k @ unmask k payload))"

definition key_ok :: "bytes option \<Rightarrow> bool" where
  "key_ok key \<longleftrightarrow> (case key of None \<Rightarrow> True | Some k \<Rightarrow> length k = 4)"

lemma byte_xor_cancel [simp]: "byte_xor (byte_xor a b) b = a"
proof -
  have "code (byte_xor a b) = unat ((word_of_nat (code a) :: 8 word) XOR word_of_nat (code b))"
    unfolding byte_xor_def using unsigned_less [of "(word_of_nat (code a) :: 8 word) XOR word_of_nat (code b)", where ?'a = nat]
    by (intro code_char_of) simp
  then have "(word_of_nat (code (byte_xor a b)) :: 8 word) =
      word_of_nat (code a) XOR word_of_nat (code b)" by simp
  then have "byte_xor (byte_xor a b) b = char_of (unat (word_of_nat (code a) :: 8 word))"
    by (simp add: byte_xor_def [of "byte_xor a b" b] xor.assoc)
  also have "unat (word_of_nat (code a) :: 8 word) = code a"
    by (simp add: unsigned_of_nat take_bit_nat_eq_self)
  finally show ?thesis by simp
qed

lemma length_unmask [simp]: "length (unmask key p) = length p"
  by (simp add: unmask_def)

lemma unmask_unmask [simp]: "unmask key (unmask key p) = p"
  by (rule nth_equalityI) (simp_all add: unmask_def nth_enumerate_eq)

lemma be_value_snoc: "be_value (xs @ [c]) = 256 * be_value xs + code c"
  by (simp add: be_value_def)

lemma be_bytes_Suc: "be_bytes (Suc n) v = be_bytes n (v div 256) @ [char_of (v mod 256)]"
proof -
  have "256 ^ (n - i) = (256 :: nat) * 256 ^ (n - 1 - i)" if "i < n" for i
  proof -
    have "n - i = Suc (n - 1 - i)" using that by simp
    then show ?thesis by (metis power_Suc)
  qed
  then show ?thesis
    by (auto simp: be_bytes_def div_mult2_eq)
qed

lemma be_value_be_bytes: "v < 256 ^ n \<Longrightarrow> be_value (be_bytes n v) = v"
proof (induction n arbitrary: v)
  case 0
  then show ?case by (simp add: be_value_def be_bytes_def)
next
  case (Suc n)
  then have "v div 256 < 256 ^ n" by (simp add: less_mult_imp_div_less mult.commute)
  with Suc.IH show ?case by (simp add: be_bytes_Suc be_value_snoc code_char_of_mod)
qed

lemma ws_header_frame:
  assumes "length p < 2 ^ 64"
  shows "\<exists>hdr h. ws_frame opc key p = h @ (case key of None \<Rightarrow> p | Some k \<Rightarrow> k @ unmask k p)
     \<and> length h = hdr \<and> 2 \<le> hdr \<and> hdr \<le> 10 \<and> h ! 0 = char_of (128 + opc)
     \<and> (128 \<le> code (h ! 1) \<longleftrightarrow> key \<noteq> None)
     \<and> (\<forall>later. ws_header (h @ later) = Some (length p, hdr))"
proof -
  let ?n = "length p" and ?m = "(case key of None \<Rightarrow> 0 | Some _ \<Rightarrow> 128) :: nat"
  let ?body = "case key of None \<Rightarrow> p | Some k \<Rightarrow> k @ unmask k p"
  have m: "?m = 0 \<or> ?m = 128" "?m = 128 \<longleftrightarrow> key \<noteq> None" by (auto split: option.split)
  consider (short) "?n < 126" | (mid) "126 \<le> ?n" "?n < 65536" | (long) "65536 \<le> ?n" by linarith
  then show ?thesis
  proof cases
    case short
    let ?h = "[char_of (128 + opc), char_of (?m + ?n)]"
    have "ws_frame opc key p = ?h @ ?body" using short by (simp add: ws_frame_def Let_def)
    moreover have "code (?h ! 1) = ?m + ?n" using m short by (auto simp: code_char_of_mod)
    moreover have "ws_header (?h @ later) = Some (?n, 2)" for later
      using m short by (auto simp: ws_header_def code_char_of_mod)
    ultimately show ?thesis using m short by (intro exI [of _ 2] exI [of _ ?h]) auto
  next
    case mid
    let ?h = "char_of (128 + opc) # char_of (?m + 126) # be_bytes 2 ?n"
    have "ws_frame opc key p = ?h @ ?body" using mid by (simp add: ws_frame_def Let_def)
    moreover have "code (?h ! 1) = ?m + 126" using m by (auto simp: code_char_of_mod)
    moreover have "ws_header (?h @ later) = Some (?n, 4)" for later
      using m mid be_value_be_bytes [of ?n 2] by (auto simp: ws_header_def code_char_of_mod)
    ultimately show ?thesis using m by (intro exI [of _ 4] exI [of _ ?h]) auto
  next
    case long
    let ?h = "char_of (128 + opc) # char_of (?m + 127) # be_bytes 8 ?n"
    have "ws_frame opc key p = ?h @ ?body" using long by (simp add: ws_frame_def Let_def)
    moreover have "code (?h ! 1) = ?m + 127" using m by (auto simp: code_char_of_mod)
    moreover have "ws_header (?h @ later) = Some (?n, 10)" for later
      using m assms be_value_be_bytes [of ?n 8] by (auto simp: ws_header_def code_char_of_mod)
    ultimately show ?thesis using m by (intro exI [of _ 10] exI [of _ ?h]) auto
  qed
qed

lemma ws_next_frame:
  assumes "opc < 16" "key_ok key" "length p + 14 < 2 ^ 64"
  shows "ws_next 0 (ws_frame opc key p @ later) = Item (opc, p) later"
proof -
  let ?body = "case key of None \<Rightarrow> p | Some k \<Rightarrow> k @ unmask k p"
  from assms(3) have "length p < 2 ^ 64" by simp
  from ws_header_frame [OF this, of opc key] obtain hdr h
    where f: "ws_frame opc key p = h @ ?body" and h: "length h = hdr" "2 \<le> hdr" "hdr \<le> 10"
      "h ! 0 = char_of (128 + opc)" "128 \<le> code (h ! 1) \<longleftrightarrow> key \<noteq> None"
      and head: "\<And>l. ws_header (h @ l) = Some (length p, hdr)" by blast
  have opc: "code (char_of (128 + opc)) mod 16 = opc"
    using assms(1) by (simp add: code_char_of_mod) presburger
  have "0 < length h" "1 < length h" using h by linarith+
  then have at: "(h @ l) ! 0 = h ! 0" "(h @ l) ! 1 = h ! 1" for l
    by (simp_all only: nth_append if_True)
  have len: "\<not> length (h @ l) < 2" for l using h by simp
  show ?thesis
  proof (cases key)
    case None
    then have nm: "\<not> 128 \<le> code (h ! 1)" using h by simp
    show ?thesis
      using assms(3) h(1,3) unfolding f [unfolded None option.case] None append.assoc ws_next_def
      by (simp only: len if_False Let_def at head option.case prod.case h(4) opc nm) simp
  next
    case (Some k)
    then have k: "length k = 4" and msk: "128 \<le> code (h ! 1)" using assms(2) h by (simp_all add: key_ok_def)
    show ?thesis
      using assms(3) h(1,3) k unfolding f [unfolded Some option.case] Some append.assoc ws_next_def
      by (simp only: len if_False if_True Let_def at head option.case prod.case h(4) opc msk) simp
  qed
qed

text \<open>What a peer frames is what the parser returns: any sequence of frames (any opcode, masked
  with any key or not, any payload length below the address space) pushed into a fresh parser with
  no cap yields the payloads of its text frames, in order, and leaves nothing buffered.\<close>

theorem ws_roundtrip:
  assumes "\<forall>(opc, key, p) \<in> set frames. opc < 16 \<and> key_ok key \<and> length p + 14 < 2 ^ 64"
  shows "ws_push (concat (map (\<lambda>(opc, key, p). ws_frame opc key p) frames)) (ws_new masked) =
     (map (\<lambda>(opc, key, p). p) (filter (\<lambda>(opc, key, p). opc = 1) frames), ws_new masked)"
proof -
  let ?bytes = "\<lambda>fs. concat (map (\<lambda>(opc, key, p). ws_frame opc key p) fs)"
  have "ws_drain 0 (?bytes frames) = (map (\<lambda>(opc, key, p). (opc, p)) frames, [])"
    using assms
  proof (induction frames)
    case Nil
    then show ?case by (simp add: ws_drain.simps ws_next_def)
  next
    case (Cons f fs)
    obtain opc key p where f: "f = (opc, key, p)" by (cases f)
    with Cons ws_next_frame [of opc key p "?bytes fs"] show ?case
      by (subst ws_drain.simps) simp
  qed
  then have "ws_push (?bytes frames) (ws_new masked) =
      (text_payloads (map (\<lambda>(opc, key, p). (opc, p)) frames), ws_new masked)"
    by (simp add: ws_push_def ws_new_def)
  moreover have "text_payloads (map (\<lambda>(opc, key, p). (opc, p)) frames) =
      map (\<lambda>(opc, key, p). p) (filter (\<lambda>(opc, key, p). opc = 1) frames)"
    by (induction frames) (auto simp: text_payloads_def)
  ultimately show ?thesis by simp
qed

lemma ws_roundtrip_witness:
  "ws_push (ws_frame 1 (Some ''wxyz'') ''hello'' @ ws_frame 9 None ''ping'') (ws_new True) =
     ([''hello''], ws_new True)"
proof -
  have "\<forall>(opc, key, p) \<in> set [(1 :: nat, Some ''wxyz'', ''hello''), (9, None, ''ping'')].
      opc < 16 \<and> key_ok key \<and> length p + 14 < 2 ^ 64"
    by (simp add: key_ok_def)
  from ws_roundtrip [OF this, of True] show ?thesis by simp
qed

lemma ws_chunking_witness:
  "push_all [[CHR 0x81], [CHR 0x01, CHR ''x'']] (with_max_payload False 5) =
     ws_push [CHR 0x81, CHR 0x01, CHR ''x''] (with_max_payload False 5)"
proof -
  have "ws_accepts 5 (concat [[CHR 0x81], [CHR 0x01, CHR ''x'']])"
    by (subst ws_accepts.simps, simp add: ws_next_def ws_header_def code_def Let_def,
        subst ws_accepts.simps, simp add: ws_next_def)
  from ws_chunking [OF this, of False] show ?thesis by simp
qed

lemma ws_drain_rest: "snd (ws_drain cap b) = [] \<or> ws_next cap (snd (ws_drain cap b)) = Wait"
proof (induction cap b rule: ws_drain.induct)
  case (1 cap buf)
  then show ?case
    by (subst (1 2) ws_drain.simps) (auto split: next_item.split)
qed

lemma ws_wait_bound: "ws_next cap b = Wait \<Longrightarrow> 0 < cap \<Longrightarrow> length b < cap + 14"
  by (auto simp: ws_next_def ws_header_def Let_def split: if_splits)

text \<open>With a payload cap the parser's memory is bounded whatever a peer sends: after any push
  the bytes kept back are fewer than the cap plus the largest header.\<close>

theorem ws_buffer_bound:
  assumes "0 < max_payload p"
  shows "length (ws_buf (snd (ws_push data p))) < max_payload p + 14"
proof -
  have "ws_buf (snd (ws_push data p)) = snd (ws_drain (max_payload p) (ws_buf p @ data))"
    by (simp add: ws_push_def split: prod.split)
  with ws_drain_rest [of "max_payload p" "ws_buf p @ data"] ws_wait_bound assms show ?thesis
    by fastforce
qed

lemma ws_buffer_bound_witness: "length (ws_buf (snd (ws_push ''abc'' (with_max_payload True 8)))) < 22"
  using ws_buffer_bound [of "with_max_payload True 8" "''abc''"] by (simp add: with_max_payload_def)

section \<open>Turns\<close>

text \<open>The names the source reads off the descriptor.\<close>

lemma live_names [simp]:
  "tool_event = Some ''response.output_item.done''"
  "text_event = Some ''response.audio_transcript.delta''"
  "start_marker = ''response.create''"
  "map_option marker_end (markers live_descriptor) = Some ''response.done''"
  "obj_path (hd (usage_frames live_descriptor)) = [''response'', ''usage'']"
  by (simp_all add: tool_event_def text_event_def start_marker_def live_descriptor_def mk_rule_def)

definition live_type :: "(string \<Rightarrow> json option) \<Rightarrow> bytes \<Rightarrow> string option" where
  "live_type parse p = Option.bind (parse p) (\<lambda>v. as_str (jat v ''type''))"

definition live_delta :: "(string \<Rightarrow> json option) \<Rightarrow> bytes \<Rightarrow> string" where
  "live_delta parse p =
     (case parse p of
        Some v \<Rightarrow> if live_type parse p = Some ''response.audio_transcript.delta''
                  then str_or_empty (jat v ''delta'') else []
      | None \<Rightarrow> [])"

definition live_tool :: "(string \<Rightarrow> json option) \<Rightarrow> bytes \<Rightarrow> tool_call list" where
  "live_tool parse p =
     (case parse p of
        Some v \<Rightarrow> if live_type parse p = Some ''response.output_item.done''
                     \<and> str_eq (jat (jat v ''item'') ''type'') ''function_call''
                  then [\<lparr>tc_name = str_or_empty (jat (jat v ''item'') ''name''),
                         tc_arguments = str_or_empty (jat (jat v ''item'') ''arguments'')\<rparr>]
                  else []
      | None \<Rightarrow> [])"

definition raw_line :: "bytes \<Rightarrow> string" where
  "raw_line p = from_utf8_lossy p @ newline"

lemma server_frame_step:
  "live_type parse p \<noteq> Some ''response.done'' \<Longrightarrow>
     apply_server_frame parse p t =
       (None, t\<lparr>wt_raw_response := wt_raw_response t @ raw_line p,
                wt_output := wt_output t @ live_delta parse p,
                wt_tool_calls := wt_tool_calls t @ live_tool parse p\<rparr>)"
  by (cases t) (auto simp: apply_server_frame_def Let_def live_type_def live_delta_def live_tool_def
      raw_line_def str_or_empty_def unwrap_or_def split: option.split)

definition run_server :: "(string \<Rightarrow> json option) \<Rightarrow> bytes list \<Rightarrow> ws_turn \<Rightarrow> ws_turn" where
  "run_server parse ps t = fold (\<lambda>p t. snd (apply_server_frame parse p t)) ps t"

lemma run_server_fields:
  "\<forall>p \<in> set ps. live_type parse p \<noteq> Some ''response.done'' \<Longrightarrow>
     run_server parse ps t = t\<lparr>wt_raw_response := wt_raw_response t @ concat (map raw_line ps),
       wt_output := wt_output t @ concat (map (live_delta parse) ps),
       wt_tool_calls := wt_tool_calls t @ concat (map (live_tool parse) ps)\<rparr>"
proof (induction ps arbitrary: t)
  case Nil
  then show ?case by (cases t) (simp add: run_server_def)
next
  case (Cons p ps)
  from Cons.prems have "snd (apply_server_frame parse p t) =
      t\<lparr>wt_raw_response := wt_raw_response t @ raw_line p,
        wt_output := wt_output t @ live_delta parse p,
        wt_tool_calls := wt_tool_calls t @ live_tool parse p\<rparr>"
    by (simp add: server_frame_step)
  with Cons show ?case by (simp add: run_server_def)
qed

text \<open>The states of a connection, with the direction of every frame.\<close>

inductive ws_reach :: "(string \<Rightarrow> json option) \<Rightarrow> ws_turn \<Rightarrow> bool" for parse where
  ws_start: "ws_reach parse empty_turn"
| ws_client: "ws_reach parse t \<Longrightarrow> ws_reach parse (apply_client_frame parse p t)"
| ws_server: "ws_reach parse t \<Longrightarrow> ws_reach parse (snd (apply_server_frame parse p t))"

lemma ws_reach_no_usage: "ws_reach parse t \<Longrightarrow> wt_usage t = None"
proof (induction rule: ws_reach.induct)
  case ws_start
  then show ?case by (simp add: empty_turn_def)
next
  case (ws_client t p)
  then show ?case by (auto simp: apply_client_frame_def Let_def split: option.split)
next
  case (ws_server t p)
  then show ?case
    by (auto simp: apply_server_frame_def Let_def take_record_def empty_turn_def split: option.split)
qed

text \<open>A Realtime turn is recorded whole and alone: from any reachable state of the connection,
  a \<open>response.create\<close> frame, any server frames before the end marker and the \<open>response.done\<close>
  frame give one record, with the transcript deltas and the function calls of exactly those
  frames in order, the verbatim frames of this turn, and the usage reported by its own end frame;
  the state is empty again.\<close>

theorem ws_turn_record:
  assumes "ws_reach parse t" and "parse start = Some v0" and "str_eq (jat v0 ''type'') ''response.create''"
    and "\<forall>p \<in> set ps. live_type parse p \<noteq> Some ''response.done''"
    and "parse fin = Some v" and "as_str (jat v ''type'') = Some ''response.done''"
  shows "\<exists>r. apply_server_frame parse fin (run_server parse ps (apply_client_frame parse start t)) =
       (Some r, empty_turn)
     \<and> final_output r = concat (map (live_delta parse) ps)
     \<and> tool_calls r = concat (map (live_tool parse) ps)
     \<and> raw_request r = from_utf8_lossy start
     \<and> raw_response r = concat (map raw_line (ps @ [fin]))
     \<and> usage r = (let u = resolve_path v [''response'', ''usage'']
                  in if is_null u then None else Some (usage_from_obj live_descriptor u))"
proof -
  have "wt_usage t = None" using assms(1) by (rule ws_reach_no_usage)
  moreover have "apply_client_frame parse start t =
      t\<lparr>wt_input := Some (from_utf8_lossy start), wt_raw_request := from_utf8_lossy start,
        wt_raw_response := [],
        wt_session_id := str_or_empty (jat (jat v0 ''client_metadata'') ''session_id''),
        wt_model_name := str_or_empty (jat v0 ''model''),
        wt_user_id := unwrap_or [] (end_user live_descriptor v0),
        wt_output := [], wt_tool_calls := []\<rparr>"
    using assms(2,3) by (simp add: apply_client_frame_def Let_def)
  ultimately show ?thesis
    using assms(5,6)
    by (simp add: run_server_fields [OF assms(4)] apply_server_frame_def Let_def take_record_def
        raw_line_def del: resolve_path_Cons)
qed

definition toy_parse :: "string \<Rightarrow> json option" where
  "toy_parse s =
     (if s = ''S'' then Some (JObject [(''type'', JString ''response.create'')])
      else if s = ''D'' then Some (JObject [(''delta'', JString ''hi''), (''type'', JString ''response.audio_transcript.delta'')])
      else if s = ''E'' then Some (JObject [(''type'', JString ''response.done'')]) else None)"

lemma ws_turn_record_witness:
  "\<exists>r. apply_server_frame toy_parse ''E'' (run_server toy_parse [''D'', ''D'']
         (apply_client_frame toy_parse ''S'' empty_turn)) = (Some r, empty_turn)
     \<and> final_output r = ''hihi'' \<and> usage r = None"
proof -
  have p: "toy_parse ''S'' = Some (JObject [(''type'', JString ''response.create'')])"
    "toy_parse ''E'' = Some (JObject [(''type'', JString ''response.done'')])"
    "\<forall>p \<in> set [''D'', ''D'']. live_type toy_parse p \<noteq> Some ''response.done''"
    by (simp_all add: toy_parse_def live_type_def)
  have "concat (map (live_delta toy_parse) [''D'', ''D'']) = ''hihi''"
    by (simp add: live_delta_def live_type_def toy_parse_def)
  with ws_turn_record [OF ws_start p(1) _ p(3) p(2)] show ?thesis by force
qed

end
