(* ===== verification/Metrics.thy ===== *)
theory Metrics
  imports Prelude
begin

text \<open>
  \<open>src/metrics.rs\<close>: the fixed-bucket latency histogram and the Prometheus text renderer. The
  atomics are \<open>u64\<close> words, \<open>fetch_add\<close> wraps; a renderer appends to the text it is given.
\<close>

section \<open>Histogram\<close>

definition BOUND_NS :: "u64 list" where
  "BOUND_NS = [1000000, 2500000, 5000000, 10000000, 25000000, 50000000, 100000000, 250000000,
     500000000, 1000000000, 1500000000, 2000000000, 3000000000, 5000000000, 8000000000,
     10000000000, 15000000000, 20000000000, 30000000000, 60000000000]"

definition BOUND_LABELS :: "string list" where
  "BOUND_LABELS = [''0.001'', ''0.0025'', ''0.005'', ''0.01'', ''0.025'', ''0.05'', ''0.1'', ''0.25'',
     ''0.5'', ''1'', ''1.5'', ''2'', ''3'', ''5'', ''8'', ''10'', ''15'', ''20'', ''30'', ''60'']"

record histogram =
  h_counts :: "u64 list"
  h_count :: u64
  h_sum_ns :: u64

definition histogram_new :: histogram where
  "histogram_new = \<lparr>h_counts = replicate (length BOUND_NS) 0, h_count = 0, h_sum_ns = 0\<rparr>"

fun position :: "('a \<Rightarrow> bool) \<Rightarrow> 'a list \<Rightarrow> nat option" where
  "position p [] = None"
| "position p (x # xs) = (if p x then Some 0 else map_option Suc (position p xs))"

definition observe :: "u64 \<Rightarrow> histogram \<Rightarrow> histogram" where
  "observe ns h =
     (let h = (case position (\<lambda>b. ns \<le> b) BOUND_NS of
            Some i \<Rightarrow> (if i < length (h_counts h)
                       then h\<lparr>h_counts := (h_counts h)[i := h_counts h ! i + 1]\<rparr> else h)
          | None \<Rightarrow> h)
      in h\<lparr>h_count := h_count h + 1, h_sum_ns := h_sum_ns h + ns\<rparr>)"

section \<open>Text exposition\<close>

abbreviation lf :: string where "lf \<equiv> [CHR 0x0A]"

definition show_u64 :: "u64 \<Rightarrow> string" where
  "show_u64 n = show_nat (unat n)"

definition render_head :: "string \<Rightarrow> string \<Rightarrow> string \<Rightarrow> string \<Rightarrow> string" where
  "render_head out nm help kind =
     out @ ''# HELP '' @ nm @ '' '' @ help @ lf @ ''# TYPE '' @ nm @ '' '' @ kind @ lf"

definition scalar_line :: "string \<Rightarrow> string \<Rightarrow> u64 \<Rightarrow> string" where
  "scalar_line out nm v = out @ nm @ '' '' @ show_u64 v @ lf"

definition render_gauge :: "string \<Rightarrow> string \<Rightarrow> string \<Rightarrow> u64 \<Rightarrow> string" where
  "render_gauge out nm help v = scalar_line (render_head out nm help ''gauge'') nm v"

definition render_counter :: "string \<Rightarrow> string \<Rightarrow> string \<Rightarrow> u64 \<Rightarrow> string" where
  "render_counter out nm help v = scalar_line (render_head out nm help ''counter'') nm v"

definition seconds_text :: "u64 \<Rightarrow> string" where
  "seconds_text ns =
     (let secs = unat ns div 1000000000;
          frac = unat ns mod 1000000000;
          digits = show_nat frac
      in show_nat secs @ ''.'' @ replicate (9 - length digits) (CHR ''0'') @ digits)"

text \<open>The running sums of \<open>render\<close>.\<close>

fun cumulative :: "u64 \<Rightarrow> u64 list \<Rightarrow> u64 list" where
  "cumulative acc [] = []"
| "cumulative acc (c # cs) = (let acc = sat_add_u64 acc c in acc # cumulative acc cs)"

definition bucket_line :: "string \<Rightarrow> u64 \<times> string \<Rightarrow> string" where
  "bucket_line nm = (\<lambda>(total, le). nm @ ''_bucket{le=\"'' @ le @ ''\"} '' @ show_u64 total @ lf)"

definition render_histogram :: "histogram \<Rightarrow> string \<Rightarrow> string \<Rightarrow> string \<Rightarrow> string" where
  "render_histogram h out nm help =
     render_head out nm help ''histogram''
     @ concat (map (bucket_line nm) (zip (cumulative 0 (h_counts h)) BOUND_LABELS))
     @ nm @ ''_bucket{le=\"+Inf\"} '' @ show_u64 (h_count h) @ lf
     @ nm @ ''_sum '' @ seconds_text (h_sum_ns h) @ lf
     @ nm @ ''_count '' @ show_u64 (h_count h) @ lf"

definition escape_char :: "char \<Rightarrow> string" where
  "escape_char c =
     (if c = CHR 0x5C then [CHR 0x5C, CHR 0x5C]
      else if c = CHR 0x22 then [CHR 0x5C, CHR 0x22]
      else if c = CHR 0x0A then [CHR 0x5C, CHR ''n'']
      else [c])"

definition escape_label_value :: "string \<Rightarrow> string" where
  "escape_label_value v = concat (map escape_char v)"

section \<open>Laws\<close>

lemma position_Some:
  "position p xs = Some i \<longleftrightarrow> i < length xs \<and> p (xs ! i) \<and> (\<forall>j<i. \<not> p (xs ! j))"
proof (induction xs arbitrary: i)
  case Nil
  then show ?case by simp
next
  case (Cons x xs)
  show ?case
  proof (cases i)
    case 0
    then show ?thesis by simp
  next
    case (Suc k)
    then show ?thesis using Cons [of k] by (auto simp: less_Suc_eq_0_disj)
  qed
qed

lemma position_None: "position p xs = None \<longleftrightarrow> (\<forall>x \<in> set xs. \<not> p x)"
  by (induction xs) auto

text \<open>The observations that land in bucket \<open>i\<close>.\<close>

definition in_bucket :: "nat \<Rightarrow> u64 \<Rightarrow> bool" where
  "in_bucket i ns \<longleftrightarrow> position (\<lambda>b. ns \<le> b) BOUND_NS = Some i"

lemma bounds_sorted: "sorted BOUND_NS"
  by (simp add: BOUND_NS_def)

lemma in_bucket_upto:
  assumes "i < length BOUND_NS"
  shows "(\<exists>k\<le>i. in_bucket k ns) \<longleftrightarrow> ns \<le> BOUND_NS ! i"
proof
  assume "\<exists>k\<le>i. in_bucket k ns"
  then obtain k where "k \<le> i" "ns \<le> BOUND_NS ! k" by (auto simp: in_bucket_def position_Some)
  with sorted_nth_mono [OF bounds_sorted] assms show "ns \<le> BOUND_NS ! i" by (meson order_trans)
next
  assume le: "ns \<le> BOUND_NS ! i"
  then have "position (\<lambda>b. ns \<le> b) BOUND_NS \<noteq> None"
    using assms by (auto simp: position_None)
  then obtain k where k: "position (\<lambda>b. ns \<le> b) BOUND_NS = Some k" by blast
  then have "k \<le> i" using le by (metis position_Some not_le)
  with k show "\<exists>k\<le>i. in_bucket k ns" by (auto simp: in_bucket_def)
qed

lemma length_counts [simp]: "length (h_counts (observe ns h)) = length (h_counts h)"
  by (auto simp: observe_def Let_def split: option.split)

lemma counts_observe:
  "i < length BOUND_NS \<Longrightarrow> length (h_counts h) = length BOUND_NS \<Longrightarrow>
     h_counts (observe ns h) ! i = h_counts h ! i + (if in_bucket i ns then 1 else 0)"
proof (cases "position (\<lambda>b. ns \<le> b) BOUND_NS")
  case None
  then show ?thesis by (simp add: observe_def in_bucket_def)
next
  case (Some k)
  assume "i < length BOUND_NS" "length (h_counts h) = length BOUND_NS"
  moreover have "k < length BOUND_NS" using Some by (simp add: position_Some)
  ultimately show ?thesis using Some by (simp add: observe_def in_bucket_def nth_list_update)
qed

lemma counts_after:
  "i < length BOUND_NS \<Longrightarrow> length (h_counts h) = length BOUND_NS \<Longrightarrow>
     h_counts (fold observe obs h) ! i = h_counts h ! i + of_nat (length (filter (in_bucket i) obs))"
  by (induction obs arbitrary: h) (auto simp: counts_observe)

lemma count_after: "h_count (fold observe obs h) = h_count h + of_nat (length obs)"
  by (induction obs arbitrary: h) (auto simp: observe_def Let_def split: option.split)

lemma length_after: "length (h_counts (fold observe obs h)) = length (h_counts h)"
  by (induction obs arbitrary: h) auto

lemma length_cumulative [simp]: "length (cumulative acc cs) = length cs"
  by (induction cs arbitrary: acc) (auto simp: Let_def)

lemma nth_cumulative:
  "i < length cs \<Longrightarrow> unat acc + sum_list (map unat cs) < 2 ^ 64 \<Longrightarrow>
     unat (cumulative acc cs ! i) = unat acc + (\<Sum>k\<le>i. unat (cs ! k))"
proof (induction cs arbitrary: acc i)
  case Nil
  then show ?case by simp
next
  case (Cons c cs)
  have u: "unat (sat_add_u64 acc c) = unat acc + unat c"
    using Cons.prems(2) by (simp add: unat_sat_add_u64)
  show ?case
  proof (cases i)
    case 0
    then show ?thesis using u by (simp add: Let_def)
  next
    case (Suc k)
    have "(\<Sum>j\<le>Suc k. unat ((c # cs) ! j)) = unat c + (\<Sum>j\<le>k. unat (cs ! j))"
      by (subst sum.atMost_Suc_shift) simp
    moreover have "unat (cumulative (sat_add_u64 acc c) cs ! k) =
        unat (sat_add_u64 acc c) + (\<Sum>j\<le>k. unat (cs ! j))"
      using Cons.prems Suc u by (intro Cons.IH) simp_all
    ultimately show ?thesis using Suc u by (simp add: Let_def)
  qed
qed

lemma sum_filter_disjoint:
  "(\<And>x a b. P a x \<Longrightarrow> P b x \<Longrightarrow> a = b) \<Longrightarrow>
     (\<Sum>k\<le>(i::nat). length (filter (P k) xs)) = length (filter (\<lambda>x. \<exists>k\<le>i. P k x) xs)"
proof (induction xs)
  case Nil
  then show ?case by simp
next
  case (Cons x xs)
  have "(\<Sum>k\<le>i. (if P k x then 1 else 0)) = (if \<exists>k\<le>i. P k x then 1 else (0::nat))"
  proof (cases "\<exists>k\<le>i. P k x")
    case True
    then obtain k where "k \<le> i" "P k x" by blast
    with Cons.prems have "\<And>j. P j x \<longleftrightarrow> j = k" by blast
    then show ?thesis using True \<open>k \<le> i\<close> by simp
  next
    case False
    then show ?thesis by simp
  qed
  moreover have "(\<Sum>k\<le>i. length (filter (P k) (x # xs))) =
      (\<Sum>k\<le>i. (if P k x then 1 else 0)) + (\<Sum>k\<le>i. length (filter (P k) xs))"
    by (simp add: sum.distrib [symmetric] if_distrib cong: if_cong) (rule sum.cong, simp_all)
  ultimately show ?case using Cons by simp
qed

text \<open>The exposition of a latency histogram is exact: after any sequence of observations (fewer
  than the counters can count), the cumulative number rendered for each bound is the number of
  observations at most that bound, and the total is the number of observations.\<close>

theorem histogram_buckets_exact:
  assumes "length obs < 2 ^ 64" and "i < length BOUND_NS"
  shows "unat (cumulative 0 (h_counts (fold observe obs histogram_new)) ! i) =
       length (filter (\<lambda>ns. ns \<le> BOUND_NS ! i) obs)
     \<and> unat (h_count (fold observe obs histogram_new)) = length obs"
proof -
  let ?h = "fold observe obs histogram_new"
  have len: "length (h_counts ?h) = length BOUND_NS"
    by (simp add: length_after histogram_new_def)
  have small: "length (filter p obs) < 2 ^ 64" for p
    using assms(1) length_filter_le [of p obs] by linarith
  have cnt: "unat (h_counts ?h ! k) = length (filter (in_bucket k) obs)" if "k < length BOUND_NS" for k
  proof -
    have "h_counts ?h ! k = of_nat (length (filter (in_bucket k) obs))"
      using that by (simp add: counts_after histogram_new_def)
    then show ?thesis using small [of "in_bucket k"] by (simp add: unsigned_of_nat take_bit_nat_eq_self)
  qed
  have disj: "in_bucket a x \<Longrightarrow> in_bucket b x \<Longrightarrow> a = b" for a b x by (simp add: in_bucket_def)
  have upto: "(\<Sum>k\<le>j. unat (h_counts ?h ! k)) = length (filter (\<lambda>ns. ns \<le> BOUND_NS ! j) obs)"
    if "j < length BOUND_NS" for j
  proof -
    have "(\<Sum>k\<le>j. unat (h_counts ?h ! k)) = (\<Sum>k\<le>j. length (filter (in_bucket k) obs))"
      using that cnt by (intro sum.cong) simp_all
    also have "\<dots> = length (filter (\<lambda>x. \<exists>k\<le>j. in_bucket k x) obs)"
      by (rule sum_filter_disjoint) (rule disj)
    finally show ?thesis using in_bucket_upto [OF that] by simp
  qed
  have "sum_list (map unat (h_counts ?h)) = (\<Sum>k\<le>19. unat (h_counts ?h ! k))"
    by (simp add: sum_list_sum_nth len BOUND_NS_def atLeast0LessThan lessThan_Suc_atMost
        numeral_eq_Suc)
  also have "\<dots> \<le> length obs" using upto [of 19] by (simp add: BOUND_NS_def)
  finally have "unat (0 :: u64) + sum_list (map unat (h_counts ?h)) < 2 ^ 64" using assms(1) by simp
  from nth_cumulative [OF _ this, of i] assms(2) len upto [OF assms(2)]
  have "unat (cumulative 0 (h_counts ?h) ! i) = length (filter (\<lambda>ns. ns \<le> BOUND_NS ! i) obs)" by simp
  moreover have "unat (h_count ?h) = length obs"
    using assms(1) by (simp add: count_after histogram_new_def unsigned_of_nat take_bit_nat_eq_self)
  ultimately show ?thesis by simp
qed

lemma histogram_buckets_exact_witness:
  "unat (cumulative 0 (h_counts (fold observe [3000000, 700, 90000000000] histogram_new)) ! 2) = 2"
  using histogram_buckets_exact [of "[3000000, 700, 90000000000]" 2] by (simp add: BOUND_NS_def)

section \<open>Text\<close>

lemma digits_value_zeros: "digits_value (replicate k (CHR ''0'') @ s) = digits_value s"
proof -
  have "foldl (\<lambda>a c. 10 * a + (code c - 48)) 0 (replicate k (CHR ''0'')) = 0"
    by (induction k) (simp_all add: code_def)
  then show ?thesis by (simp add: digits_value_def)
qed

text \<open>Durations are printed without rounding: the text is an integer part, a point and exactly
  nine digits, and reading the two numbers back gives the nanoseconds.\<close>

theorem seconds_text_exact:
  "\<exists>i f. seconds_text ns = i @ ''.'' @ f \<and> length f = 9
     \<and> list_all is_digit i \<and> list_all is_digit f
     \<and> digits_value i * 1000000000 + digits_value f = unat ns"
proof -
  let ?s = "show_nat (unat ns div 1000000000)" and ?d = "show_nat (unat ns mod 1000000000)"
  let ?f = "replicate (9 - length ?d) (CHR ''0'') @ ?d"
  have "length ?d \<le> 9" by (rule length_show_nat) simp_all
  then have "length ?f = 9" by simp
  moreover have "list_all is_digit ?s" "list_all is_digit ?f"
    using show_nat_digits by (auto simp: list_all_iff is_digit_def code_def)
  moreover have "digits_value ?s * 1000000000 + digits_value ?f = unat ns"
    by (simp add: digits_value_zeros)
  moreover have "seconds_text ns = ?s @ ''.'' @ ?f" by (simp add: seconds_text_def Let_def)
  ultimately show ?thesis by blast
qed

text \<open>The reader of the exposition format.\<close>

fun unescape :: "string \<Rightarrow> string" where
  "unescape (c # d # s) =
     (if c = CHR 0x5C then (if d = CHR ''n'' then CHR 0x0A else d) # unescape s
      else c # unescape (d # s))"
| "unescape s = s"

lemma unescape_plain: "c \<noteq> CHR 0x5C \<Longrightarrow> unescape (c # s) = c # unescape s"
  by (cases s) auto

text \<open>Label values survive the exposition: whatever the value, reading the escaped form back
  gives it, and the escaped form has no line feed that could break the sample line.\<close>

theorem escape_roundtrip:
  "unescape (escape_label_value v) = v \<and> CHR 0x0A \<notin> set (escape_label_value v)"
proof (induction v)
  case Nil
  then show ?case by (simp add: escape_label_value_def)
next
  case (Cons c v)
  then show ?case
    by (auto simp: escape_label_value_def escape_char_def unescape_plain)
qed

end
