(* ===== verification/Refinement.thy ===== *)
theory Refinement
  imports Main
begin

text \<open>
  Labelled step functions and forward simulation. A component whose operations interleave is a
  partial step function (\<open>None\<close>: the event is not possible in this state); a history is a list of
  events. The interface \<open>simulation\<close> says what a component owes to its abstract specification, one
  step at a time; its lemmas carry that to every history.
\<close>

fun run :: "('s \<Rightarrow> 'e \<Rightarrow> 's option) \<Rightarrow> 's \<Rightarrow> 'e list \<Rightarrow> 's option" where
  "run step s [] = Some s"
| "run step s (e # es) = Option.bind (step s e) (\<lambda>t. run step t es)"

lemma run_append: "run step s (es @ fs) = Option.bind (run step s es) (\<lambda>t. run step t fs)"
proof (induction es arbitrary: s)
  case (Cons e es)
  then show ?case by (cases "step s e") simp_all
qed simp

lemma run_invariant:
  fixes ok :: "'s \<Rightarrow> bool"
  assumes keeps: "\<And>s e t. ok s \<Longrightarrow> step s e = Some t \<Longrightarrow> ok t"
  shows "ok s \<Longrightarrow> run step s es = Some t \<Longrightarrow> ok t"
proof (induction es arbitrary: s)
  case (Cons e es)
  from Cons.prems(2) obtain u where "step s e = Some u" "run step u es = Some t"
    by (auto split: Option.bind_splits)
  with Cons.IH [OF keeps [OF Cons.prems(1)]] show ?case by blast
qed simp

text \<open>The abstract events that a concrete history stands for.\<close>

fun trace_of :: "('s \<Rightarrow> 'e \<Rightarrow> 's option) \<Rightarrow> ('s \<Rightarrow> 'e \<Rightarrow> 'b list) \<Rightarrow> 's \<Rightarrow> 'e list \<Rightarrow> 'b list" where
  "trace_of step ev s [] = []"
| "trace_of step ev s (e # es) =
     ev s e @ (case step s e of Some t \<Rightarrow> trace_of step ev t es | None \<Rightarrow> [])"

locale simulation =
  fixes cstep :: "'c \<Rightarrow> 'e \<Rightarrow> 'c option"
    and astep :: "'a \<Rightarrow> 'b \<Rightarrow> 'a option"
    and ev :: "'c \<Rightarrow> 'e \<Rightarrow> 'b list"
    and ok :: "'c \<Rightarrow> bool"
    and rel :: "'c \<Rightarrow> 'a \<Rightarrow> bool"
  assumes keeps: "ok c \<Longrightarrow> cstep c e = Some c' \<Longrightarrow> ok c'"
    and matched: "ok c \<Longrightarrow> rel c a \<Longrightarrow> cstep c e = Some c' \<Longrightarrow>
      \<exists>a'. run astep a (ev c e) = Some a' \<and> rel c' a'"
begin

lemma run_inv: "ok c \<Longrightarrow> run cstep c es = Some c' \<Longrightarrow> ok c'"
  by (rule run_invariant [where step = cstep]) (rule keeps)

theorem simulates:
  "ok c \<Longrightarrow> rel c a \<Longrightarrow> run cstep c es = Some c' \<Longrightarrow>
     \<exists>a'. run astep a (trace_of cstep ev c es) = Some a' \<and> rel c' a'"
proof (induction es arbitrary: c a)
  case (Cons e es)
  from Cons.prems(3) obtain d where d: "cstep c e = Some d" "run cstep d es = Some c'"
    by (auto split: Option.bind_splits)
  from matched [OF Cons.prems(1,2) d(1)]
  obtain b where b: "run astep a (ev c e) = Some b" "rel d b" by blast
  from Cons.IH [OF keeps [OF Cons.prems(1) d(1)] b(2) d(2)]
  obtain a' where "run astep b (trace_of cstep ev d es) = Some a'" "rel c' a'" by blast
  with b(1) d(1) show ?case by (simp add: run_append)
qed auto

end

text \<open>
  Termination of the internal work of a component: every possible event strictly decreases a
  measure, and until the component is done some event is possible. Then no history is longer than
  the measure, and every history can be continued to the end.
\<close>

locale terminating =
  fixes step :: "'s \<Rightarrow> 'e \<Rightarrow> 's option" and ok :: "'s \<Rightarrow> bool"
    and work :: "'s \<Rightarrow> nat" and finished :: "'s \<Rightarrow> bool"
  assumes keeps: "ok s \<Longrightarrow> step s e = Some t \<Longrightarrow> ok t"
    and decreases: "ok s \<Longrightarrow> step s e = Some t \<Longrightarrow> work t < work s"
    and progress: "ok s \<Longrightarrow> \<not> finished s \<Longrightarrow> \<exists>e t. step s e = Some t"
begin

lemma bounded: "ok s \<Longrightarrow> run step s es = Some t \<Longrightarrow> length es + work t \<le> work s"
proof (induction es arbitrary: s)
  case (Cons e es)
  from Cons.prems(2) obtain u where u: "step s e = Some u" "run step u es = Some t"
    by (auto split: Option.bind_splits)
  from Cons.IH [OF keeps [OF Cons.prems(1) u(1)] u(2)] decreases [OF Cons.prems(1) u(1)]
  show ?case by simp
qed simp

lemma ends: "ok s \<Longrightarrow> \<exists>es t. run step s es = Some t \<and> finished t"
proof (induction "work s" arbitrary: s rule: less_induct)
  case less
  show ?case
  proof (cases "finished s")
    case True
    then show ?thesis by (intro exI [of _ "[]"]) simp
  next
    case False
    then obtain e t where e: "step s e = Some t" using progress less.prems by blast
    from less.hyps [OF decreases [OF less.prems e] keeps [OF less.prems e]]
    obtain es u where "run step t es = Some u" "finished u" by blast
    with e show ?thesis by (intro exI [of _ "e # es"] exI [of _ u]) simp
  qed
qed

end

end
