(* ===== verification/Gauges.thy ===== *)
theory Gauges
  imports Metrics Refinement
begin

text \<open>
  The request gauges and stage histograms of \<open>Gateway\<close> in \<open>src/lib.rs\<close>: \<open>enter_request\<close>,
  \<open>mark_upstream_head\<close>, \<open>exit_request\<close>. Each atomic is read and updated in one operation; requests
  interleave freely. \<open>req_times\<close> holds the timing fields of \<open>Ctx\<close>; the other fields extend it.
\<close>

record req_times =
  rt_start_ns :: u64
  rt_end_ns :: u64
  first_output_ns :: "u64 option"
  upstream_head_ns :: "u64 option"
  body_end_ns :: "u64 option"

record gauges =
  g_inflight :: u64
  g_high_water :: u64
  g_awaiting :: u64
  stage_wait_upstream :: histogram
  stage_time_to_first_byte :: histogram
  stage_delivery :: histogram
  stage_finalize :: histogram

definition gauges_new :: gauges where
  "gauges_new = \<lparr>g_inflight = 0, g_high_water = 0, g_awaiting = 0, stage_wait_upstream = histogram_new,
     stage_time_to_first_byte = histogram_new, stage_delivery = histogram_new,
     stage_finalize = histogram_new\<rparr>"

definition enter_request :: "gauges \<Rightarrow> gauges" where
  "enter_request g =
     (let in_flight = sat_add_u64 (g_inflight g) 1
      in g\<lparr>g_inflight := g_inflight g + 1, g_awaiting := g_awaiting g + 1,
           g_high_water := max (g_high_water g) in_flight\<rparr>)"

definition mark_upstream_head ::
  "u64 \<Rightarrow> 'a req_times_scheme \<Rightarrow> gauges \<Rightarrow> 'a req_times_scheme \<times> gauges" where
  "mark_upstream_head now ctx g =
     (if upstream_head_ns ctx = None
      then (ctx\<lparr>upstream_head_ns := Some now\<rparr>, g\<lparr>g_awaiting := sat_sub_u64 (g_awaiting g) 1\<rparr>)
      else (ctx, g))"

definition exit_request :: "u64 \<Rightarrow> bool \<Rightarrow> 'a req_times_scheme \<Rightarrow> gauges \<Rightarrow> gauges" where
  "exit_request now identified ctx g =
     (let g = g\<lparr>g_inflight := sat_sub_u64 (g_inflight g) 1\<rparr>;
          g = (if upstream_head_ns ctx = None
               then g\<lparr>g_awaiting := sat_sub_u64 (g_awaiting g) 1\<rparr> else g)
      in if \<not> identified then g
      else
        let g = (case upstream_head_ns ctx of
                   Some head \<Rightarrow> g\<lparr>stage_wait_upstream :=
                     observe (sat_sub_u64 head (rt_start_ns ctx)) (stage_wait_upstream g)\<rparr>
                 | None \<Rightarrow> g);
            g = (case first_output_ns ctx of
                   Some first \<Rightarrow> g\<lparr>stage_time_to_first_byte :=
                     observe (sat_sub_u64 first (rt_start_ns ctx)) (stage_time_to_first_byte g)\<rparr>
                 | None \<Rightarrow> g);
            g = (case (upstream_head_ns ctx, body_end_ns ctx) of
                   (Some head, Some body_end) \<Rightarrow> g\<lparr>stage_delivery :=
                     observe (sat_sub_u64 body_end head) (stage_delivery g)\<rparr>
                 | _ \<Rightarrow> g)
        in (case body_end_ns ctx of
              Some body_end \<Rightarrow> g\<lparr>stage_finalize := observe (sat_sub_u64 now body_end) (stage_finalize g)\<rparr>
            | None \<Rightarrow> g))"

section \<open>Interleaved requests\<close>

text \<open>The requests inside the gateway, by an identity of their own.\<close>

record traffic =
  open_reqs :: "nat \<Rightarrow> req_times option"
  gauge :: gauges

datatype req_event = Enter nat u64 | Head nat u64 | First_output nat u64 | Body_end nat u64 | Exit nat u64 bool

definition traffic_new :: traffic where
  "traffic_new = \<lparr>open_reqs = (\<lambda>_. None), gauge = gauges_new\<rparr>"

definition fresh_times :: "u64 \<Rightarrow> req_times" where
  "fresh_times now = \<lparr>rt_start_ns = now, rt_end_ns = 0, first_output_ns = None, upstream_head_ns = None,
     body_end_ns = None\<rparr>"

fun traffic_step :: "traffic \<Rightarrow> req_event \<Rightarrow> traffic option" where
  "traffic_step s (Enter i now) =
     (if open_reqs s i \<noteq> None then None
      else Some (s\<lparr>open_reqs := (open_reqs s)(i \<mapsto> fresh_times now), gauge := enter_request (gauge s)\<rparr>))"
| "traffic_step s (Head i now) =
     map_option (\<lambda>t. case mark_upstream_head now t (gauge s) of
         (t', g) \<Rightarrow> s\<lparr>open_reqs := (open_reqs s)(i \<mapsto> t'), gauge := g\<rparr>) (open_reqs s i)"
| "traffic_step s (First_output i now) =
     map_option (\<lambda>t. s\<lparr>open_reqs := (open_reqs s)(i \<mapsto> t\<lparr>first_output_ns := Some now\<rparr>)\<rparr>) (open_reqs s i)"
| "traffic_step s (Body_end i now) =
     map_option (\<lambda>t. s\<lparr>open_reqs := (open_reqs s)(i \<mapsto> t\<lparr>body_end_ns := Some now\<rparr>)\<rparr>) (open_reqs s i)"
| "traffic_step s (Exit i now identified) =
     map_option (\<lambda>t. s\<lparr>open_reqs := (open_reqs s)(i := None),
         gauge := exit_request now identified t (gauge s)\<rparr>) (open_reqs s i)"

definition waiting :: "traffic \<Rightarrow> nat set" where
  "waiting s = {i. \<exists>t. open_reqs s i = Some t \<and> upstream_head_ns t = None}"

text \<open>\<open>n\<close> bounds the requests entered so far.\<close>

definition traffic_ok :: "nat \<Rightarrow> traffic \<Rightarrow> bool" where
  "traffic_ok n s \<longleftrightarrow> finite (dom (open_reqs s)) \<and> card (dom (open_reqs s)) \<le> n
     \<and> unat (g_inflight (gauge s)) = card (dom (open_reqs s))
     \<and> unat (g_awaiting (gauge s)) = card (waiting s)
     \<and> card (dom (open_reqs s)) \<le> unat (g_high_water (gauge s))
     \<and> unat (g_high_water (gauge s)) \<le> n"

lemma exit_gauges [simp]:
  "g_inflight (exit_request now identified t g) = sat_sub_u64 (g_inflight g) 1"
  "g_awaiting (exit_request now identified t g) =
     (if upstream_head_ns t = None then sat_sub_u64 (g_awaiting g) 1 else g_awaiting g)"
  "g_high_water (exit_request now identified t g) = g_high_water g"
  by (auto simp: exit_request_def Let_def split: option.split)

lemma waiting_sub: "waiting s \<subseteq> dom (open_reqs s)"
  by (auto simp: waiting_def)

lemma waiting_enter:
  "open_reqs s i = None \<Longrightarrow> waiting (s\<lparr>open_reqs := (open_reqs s)(i \<mapsto> fresh_times now), gauge := g\<rparr>) = insert i (waiting s)
     \<and> i \<notin> waiting s"
  by (auto simp: waiting_def fresh_times_def)

lemma waiting_update:
  "waiting (s\<lparr>open_reqs := (open_reqs s)(i \<mapsto> t), gauge := g\<rparr>) =
     (if upstream_head_ns t = None then insert i (waiting s) else waiting s - {i})"
  "waiting (s\<lparr>open_reqs := (open_reqs s)(i \<mapsto> t)\<rparr>) =
     (if upstream_head_ns t = None then insert i (waiting s) else waiting s - {i})"
  "waiting (s\<lparr>open_reqs := (open_reqs s)(i := None), gauge := g\<rparr>) = waiting s - {i}"
  by (auto simp: waiting_def)

lemma waiting_mem: "open_reqs s i = Some t \<Longrightarrow> i \<in> waiting s \<longleftrightarrow> upstream_head_ns t = None"
  by (simp add: waiting_def)

text \<open>The number of \<open>Enter\<close> events.\<close>

fun entered :: "req_event list \<Rightarrow> nat" where
  "entered [] = 0"
| "entered (Enter i now # es) = Suc (entered es)"
| "entered (_ # es) = entered es"

definition enters :: "req_event \<Rightarrow> nat" where
  "enters e = (case e of Enter i now \<Rightarrow> 1 | _ \<Rightarrow> 0)"

lemma entered_Cons: "entered (e # es) = enters e + entered es"
  by (cases e) (simp_all add: enters_def)

lemma traffic_ok_step:
  assumes ok: "traffic_ok n s" and st: "traffic_step s e = Some s'" and lt: "n + enters e < 2 ^ 64"
  shows "traffic_ok (n + enters e) s'"
proof -
  let ?D = "dom (open_reqs s)"
  have fin: "finite ?D" and finw: "finite (waiting s)" and cw: "card (waiting s) \<le> card ?D"
    using ok finite_subset [OF waiting_sub] card_mono [OF _ waiting_sub] by (auto simp: traffic_ok_def)
  show ?thesis
  proof (cases e)
    case (Enter i now)
    with st have none: "open_reqs s i = None" and s': "s' = s\<lparr>open_reqs := (open_reqs s)(i \<mapsto> fresh_times now),
        gauge := enter_request (gauge s)\<rparr>" by (auto split: if_splits)
    have lt1: "card ?D + 1 < 2 ^ 64" "card (waiting s) + 1 < 2 ^ 64"
      using ok lt cw Enter by (simp_all add: traffic_ok_def enters_def)
    have up: "unat (w + 1) = unat w + 1" if "unat w + 1 < 2 ^ 64" for w :: u64
      using that by (simp add: unat_word_ariths)
    have mx: "unat (max a b) = max (unat a) (unat b)" for a b :: u64
      by (simp add: max_def word_le_nat_alt)
    show ?thesis using ok Enter none lt1 fin finw waiting_enter [OF none] up
      by (auto simp: traffic_ok_def s' enter_request_def enters_def mx unat_sat_add_u64 Let_def domIff)
  next
    case (Head i now)
    with st obtain t where t: "open_reqs s i = Some t" and s': "s' = (case mark_upstream_head now t (gauge s) of
         (t', g) \<Rightarrow> s\<lparr>open_reqs := (open_reqs s)(i \<mapsto> t'), gauge := g\<rparr>)" by auto
    then have D: "insert i ?D = ?D" by (auto simp: domIff)
    from waiting_mem [OF t] show ?thesis using ok Head D finw
      by (auto simp: s' traffic_ok_def mark_upstream_head_def waiting_update enters_def card_Diff_singleton
          insert_absorb)
  next
    case (First_output i now)
    with st obtain t where t: "open_reqs s i = Some t"
      and s': "s' = s\<lparr>open_reqs := (open_reqs s)(i \<mapsto> t\<lparr>first_output_ns := Some now\<rparr>)\<rparr>" by auto
    then have D: "insert i ?D = ?D" by (auto simp: domIff)
    from waiting_mem [OF t] show ?thesis using ok First_output D
      by (auto simp: s' traffic_ok_def waiting_update enters_def insert_absorb)
  next
    case (Body_end i now)
    with st obtain t where t: "open_reqs s i = Some t"
      and s': "s' = s\<lparr>open_reqs := (open_reqs s)(i \<mapsto> t\<lparr>body_end_ns := Some now\<rparr>)\<rparr>" by auto
    then have D: "insert i ?D = ?D" by (auto simp: domIff)
    from waiting_mem [OF t] show ?thesis using ok Body_end D
      by (auto simp: s' traffic_ok_def waiting_update enters_def insert_absorb)
  next
    case (Exit i now identified)
    with st obtain t where t: "open_reqs s i = Some t" and s': "s' = s\<lparr>open_reqs := (open_reqs s)(i := None),
         gauge := exit_request now identified t (gauge s)\<rparr>" by auto
    then have "i \<in> ?D" by (auto simp: domIff)
    then have c: "card (?D - {i}) = card ?D - 1" using fin by (simp add: card_Diff_singleton)
    from waiting_mem [OF t] show ?thesis using ok Exit c finw
      by (auto simp: s' traffic_ok_def waiting_update enters_def card_Diff_singleton)
  qed
qed

lemma traffic_ok_run:
  "traffic_ok n s \<Longrightarrow> run traffic_step s es = Some s' \<Longrightarrow> n + entered es < 2 ^ 64 \<Longrightarrow>
     traffic_ok (n + entered es) s'"
proof (induction es arbitrary: s n)
  case (Cons e es)
  from Cons.prems(2) obtain u where u: "traffic_step s e = Some u" "run traffic_step u es = Some s'"
    by (auto split: Option.bind_splits)
  have "traffic_ok (n + enters e) u"
    using Cons.prems(3) by (intro traffic_ok_step [OF Cons.prems(1) u(1)]) (simp add: entered_Cons)
  from Cons.IH [OF this u(2)] Cons.prems(3) show ?case by (simp add: entered_Cons add.assoc)
qed simp

text \<open>The gauges are exact whatever the interleaving: with fewer than \<open>2^64\<close> requests ever entered,
  \<open>inflight\<close> is the number of requests inside, \<open>awaiting_upstream\<close> the number of those that have not
  seen upstream headers (each is released exactly once, on the head or at the end), neither ever
  wraps, and the high-water mark is never below \<open>inflight\<close>.\<close>

theorem gauges_exact:
  assumes "run traffic_step traffic_new es = Some s" and "entered es < 2 ^ 64"
  shows "unat (g_inflight (gauge s)) = card (dom (open_reqs s))
     \<and> unat (g_awaiting (gauge s)) = card {i. \<exists>t. open_reqs s i = Some t \<and> upstream_head_ns t = None}
     \<and> g_inflight (gauge s) \<le> g_high_water (gauge s)
     \<and> unat (g_high_water (gauge s)) \<le> entered es"
proof -
  have "traffic_ok 0 traffic_new"
    by (simp add: traffic_ok_def traffic_new_def gauges_new_def waiting_def)
  from traffic_ok_run [OF this assms(1)] assms(2) have "traffic_ok (entered es) s" by simp
  then show ?thesis by (simp add: traffic_ok_def waiting_def word_le_nat_alt)
qed

lemma gauges_exact_witness:
  "\<exists>s. run traffic_step traffic_new [Enter 0 5, Enter 1 6, Head 0 7, Exit 1 8 False] = Some s
     \<and> unat (g_inflight (gauge s)) = card (dom (open_reqs s))"
proof -
  obtain s where s: "run traffic_step traffic_new [Enter 0 5, Enter 1 6, Head 0 7, Exit 1 8 False] = Some s"
    by (simp add: traffic_new_def mark_upstream_head_def fresh_times_def)
  from gauges_exact [OF this] s show ?thesis by simp
qed

end
