(* ===== verification/Routing.thy ===== *)
theory Routing
  imports Config Descriptors
begin

text \<open>
  The per-request decisions of \<open>src/lib.rs\<close> that read only the request and its configuration
  snapshot: how a session error is classified, where a request is sent and under which names (the
  pump's peer, the relay's URL and pinned client, the \<open>Host\<close> header), which headers cross a hop,
  and which request is served by which arm of \<open>request_filter\<close>.

  Name resolution (\<open>to_socket_addrs\<close>) is the parameter \<open>dns\<close>: the first address it yields, if any.
\<close>

section \<open>Session errors\<close>

datatype session_error_class = IdleNoise | ClientCancelled | ProxyError

definition classify_session_error :: "string \<Rightarrow> bool \<Rightarrow> nat \<Rightarrow> bool \<Rightarrow> session_error_class" where
  "classify_session_error err_text downstream_sourced resp_status response_complete =
     (if contains_sub err_text ''during HTTP idle state''
         \<or> (downstream_sourced \<and> response_complete \<and> 200 \<le> resp_status \<and> resp_status < 300)
      then IdleNoise
      else if downstream_sourced then ClientCancelled
      else ProxyError)"

datatype error_source = FromUpstream | FromDownstream | FromOther
datatype error_type = HttpStatus nat | WriteError | ReadError | ConnectionClosed | OtherError

text \<open>The status of \<open>fail_to_proxy\<close>; 0 sends nothing.\<close>

definition fail_code :: "error_type \<Rightarrow> error_source \<Rightarrow> nat" where
  "fail_code et es =
     (case et of
        HttpStatus st \<Rightarrow> st
      | _ \<Rightarrow> (case es of
               FromUpstream \<Rightarrow> 502
             | FromDownstream \<Rightarrow>
                 (if et = WriteError \<or> et = ReadError \<or> et = ConnectionClosed then 0 else 400)
             | FromOther \<Rightarrow> 500))"

section \<open>Headers\<close>

definition is_hop_by_hop :: "string \<Rightarrow> bool" where
  "is_hop_by_hop name \<longleftrightarrow> name \<in>
     {''connection'', ''keep-alive'', ''proxy-connection'', ''transfer-encoding'', ''te'', ''trailer'',
      ''upgrade'', ''host'', ''proxy-authorization'', ''proxy-authenticate''}"

text \<open>The headers of a relayed request: the loop of \<open>relay\<close> over the client's headers, after the
  \<open>Host\<close> override.\<close>

definition relay_request_headers :: "string option \<Rightarrow> (string \<times> bytes) list \<Rightarrow> (string \<times> bytes) list" where
  "relay_request_headers host headers =
     (case host of Some h \<Rightarrow> [(''host'', h)] | None \<Rightarrow> [])
     @ filter (\<lambda>(name, _). \<not> (is_hop_by_hop name \<or> name = ''content-length'')) headers"

text \<open>The head written downstream: the upstream's headers without the hop's own, and chunked framing
  where HTTP/1 needs it. \<open>insert_header\<close> replaces an earlier value of the name.\<close>

definition insert_header :: "string \<Rightarrow> bytes \<Rightarrow> (string \<times> bytes) list \<Rightarrow> (string \<times> bytes) list" where
  "insert_header name val hs = filter (\<lambda>(n, _). n \<noteq> name) hs @ [(name, val)]"

definition no_body_status :: "nat \<Rightarrow> bool \<Rightarrow> bool" where
  "no_body_status resp_status head_request \<longleftrightarrow> resp_status = 204 \<or> resp_status = 304 \<or> head_request"

definition relay_response_headers :: "nat \<Rightarrow> bool \<Rightarrow> bool \<Rightarrow> (string \<times> bytes) list \<Rightarrow> (string \<times> bytes) list" where
  "relay_response_headers resp_status head_request http2 headers =
     (let head = fold (\<lambda>(n, v) hs. if is_hop_by_hop n then hs else insert_header n v hs) headers [];
          has_content_length = list_ex (\<lambda>(n, _). n = ''content-length'') headers
      in if \<not> has_content_length \<and> \<not> no_body_status resp_status head_request \<and> \<not> http2
         then insert_header ''transfer-encoding'' ''chunked'' head else head)"

section \<open>Where a request goes\<close>

text \<open>Bracketed when the host is an IPv6 literal.\<close>

definition hostport :: "string \<Rightarrow> nat \<Rightarrow> string" where
  "hostport host port =
     (if CHR '':'' \<in> set host then ''['' @ host @ '']:'' @ show_nat port else host @ '':'' @ show_nat port)"

definition sni_resolve_entry ::
  "(string \<Rightarrow> 'addr option) \<Rightarrow> string \<Rightarrow> string option \<Rightarrow> (string \<times> 'addr) option" where
  "sni_resolve_entry dns up sni_name =
     (let (scheme, host, port, _) = parse_upstream up in
      if scheme \<noteq> ''https'' then None
      else case sni_name of
             None \<Rightarrow> None
           | Some sni_host \<Rightarrow>
               if sni_host = host then None
               else map_option (\<lambda>addr. (sni_host, addr)) (dns (hostport host port)))"

datatype 'addr relay_client = Plain_client | Pinned_client string 'addr

type_synonym 'addr pinned_relay = "((string \<times> 'addr) \<times> 'addr relay_client) option"

definition sni_override :: "config \<Rightarrow> string option" where
  "sni_override cfg = (let s = trim (sni (c_server cfg)) in if s = [] then None else Some s)"

text \<open>\<open>built\<close>: whether building the pinned client succeeds.\<close>

definition relay_target ::
  "(string \<Rightarrow> 'addr option) \<Rightarrow> bool \<Rightarrow> config \<Rightarrow> 'addr pinned_relay \<Rightarrow>
     (string \<times> string option \<times> 'addr relay_client) \<times> 'addr pinned_relay" where
  "relay_target dns built cfg cached =
     (let (scheme, host, port, path) = parse_upstream (upstream (c_server cfg)) in
      case sni_resolve_entry dns (upstream (c_server cfg)) (sni_override cfg) of
        Some (name, addr) \<Rightarrow>
          let base = scheme @ ''://'' @ name @ '':'' @ show_nat port @ path in
          (case cached of
             Some (key, client) \<Rightarrow>
               if key = (name, addr) then ((base, Some name, client), cached)
               else let b = (if built then Pinned_client name addr else Plain_client)
                    in ((base, Some name, b), Some ((name, addr), b))
           | None \<Rightarrow>
               let b = (if built then Pinned_client name addr else Plain_client)
               in ((base, Some name, b), Some ((name, addr), b)))
      | None \<Rightarrow>
          ((scheme @ ''://'' @ host @ '':'' @ show_nat port @ path, sni_override cfg, Plain_client), cached))"

definition relay_url :: "string \<Rightarrow> string option \<Rightarrow> string \<Rightarrow> string" where
  "relay_url base path_and_query path = base @ unwrap_or path path_and_query"

record http_peer =
  peer_addr :: string
  peer_tls :: bool
  peer_sni :: string

definition upstream_peer :: "config \<Rightarrow> http_peer" where
  "upstream_peer cfg =
     (let (scheme, host, port, _) = parse_upstream (upstream (c_server cfg))
      in \<lparr>peer_addr = hostport host port, peer_tls = (scheme = ''https''),
          peer_sni = (let s = trim (sni (c_server cfg)) in if s = [] then host else s)\<rparr>)"

text \<open>\<open>str::trim_start_matches\<close> with a string pattern: every leading occurrence.\<close>

function trim_start_str :: "string \<Rightarrow> string \<Rightarrow> string" where
  "trim_start_str p s =
     (if p \<noteq> [] \<and> starts_with s p then trim_start_str p (drop (length p) s) else s)"
  by pat_completeness auto
termination
proof (relation "measure (\<lambda>(p, s). length s)")
  fix p s :: string assume a: "p \<noteq> [] \<and> starts_with s p"
  then have "length p \<le> length s" by (metis starts_with_iff length_append le_add1)
  with a show "((p, drop (length p) s), p, s) \<in> measure (\<lambda>(p, s). length s)"
    by (cases p) auto
qed simp

declare trim_start_str.simps [simp del]

definition upstream_host_header :: "config \<Rightarrow> string" where
  "upstream_host_header cfg =
     (let s = trim (sni (c_server cfg)) in
      if s = []
      then hd (split_on (CHR ''/'')
             (trim_start_str ''http://'' (trim_start_str ''https://'' (trim (upstream (c_server cfg))))))
      else s)"

section \<open>Who serves a request\<close>

definition detect_path_fail_open :: "(json \<Rightarrow> string) \<Rightarrow> string \<Rightarrow> path_match option" where
  "detect_path_fail_open render path = detect_path render path"

definition trace_mode_label :: "bool \<Rightarrow> string" where
  "trace_mode_label trace_off = (if trace_off then ''off'' else ''full'')"

definition variant_label :: "bool \<Rightarrow> string" where
  "variant_label bench = (if bench then ''bench'' else ''prod'')"

datatype route =
    Serve_metrics
  | Serve_records nat nat
  | Serve_health
  | Serve_config
  | Relay descriptor
  | Pump

text \<open>The query of \<open>/__atg/records\<close>: the last \<open>limit\<close> and \<open>offset\<close>, 0 when absent or not a number.\<close>

definition query_pair :: "string \<Rightarrow> nat \<times> nat \<Rightarrow> nat \<times> nat" where
  "query_pair pair lo =
     (let (k, v) = unwrap_or (pair, []) (split_once pair ''='');
          n = unwrap_or 0 (parse_uint usize_max v)
      in if k = ''limit'' then (n, snd lo) else if k = ''offset'' then (fst lo, n) else lo)"

definition records_query :: "string option \<Rightarrow> nat \<times> nat" where
  "records_query query =
     (case query of
        Some q \<Rightarrow> fold query_pair (split_on (CHR ''&'') q) (0, 0)
      | None \<Rightarrow> (0, 0))"

definition request_route ::
  "(json \<Rightarrow> string) \<Rightarrow> config \<Rightarrow> string \<Rightarrow> string option \<Rightarrow> bool \<Rightarrow> route" where
  "request_route render cfg path query is_ws_upgrade =
     (if path = ''/__atg/metrics'' then Serve_metrics
      else if path = ''/__atg/records'' then (case records_query query of (l, off) \<Rightarrow> Serve_records l off)
      else if path = ''/__atg/health'' then Serve_health
      else if path = ''/__atg/config'' then Serve_config
      else if on_cancel (c_drain cfg) \<and> \<not> is_ws_upgrade
      then (case detect_path_fail_open render path of
              Some matched \<Rightarrow> Relay (pm_descriptor matched)
            | None \<Rightarrow> Pump)
      else Pump)"

section \<open>Laws\<close>

text \<open>A cached client is the one built for its key.\<close>

definition cache_ok :: "'addr pinned_relay \<Rightarrow> bool" where
  "cache_ok cached \<longleftrightarrow> (case cached of None \<Rightarrow> True | Some ((n, a), c) \<Rightarrow> c = Pinned_client n a)"


definition demo_config :: config where
  "demo_config = sample_config\<lparr>c_server := (c_server sample_config)
     \<lparr>upstream := ''https://10.0.0.1/api'', sni := ''llm''\<rparr>\<rparr>"

lemmas parse_simps = parse_upstream_def split_once_def authority_of_def path_of_def find_index_def
  starts_with_def strip_prefix_def ascii_lower_def to_lower_def code_def trim_end_char_def Let_def

lemma demo_upstream: "parse_upstream ''https://10.0.0.1/api'' = (''https'', ''10.0.0.1'', 443, ''/api'')"
  by (simp add: parse_simps)

lemma demo_sni: "sni_override demo_config = Some ''llm''"
proof -
  have "trim ''llm'' = ''llm''"
    by (simp add: trim_def trim_start_of_id strip_head_def white_space_def strip_prefix_def starts_with_def)
  then show ?thesis by (simp add: sni_override_def demo_config_def Let_def)
qed


text \<open>The relay's URL is not the pump's target for every accepted upstream: an IPv6 upstream loses
  its brackets in the URL that the pump's peer keeps, and a base path is part of the relay's URL
  while the pump leaves the request's path as it is.\<close>

theorem relay_pump_differ:
  "valid_upstream ''http://[::1]'' \<and> peer_addr (upstream_peer (cfg\<lparr>c_server := (c_server cfg)\<lparr>upstream := ''http://[::1]''\<rparr>\<rparr>)) = ''[::1]:'' @ show_nat 80
   \<and> fst (fst (relay_target dns built (cfg\<lparr>c_server := (c_server cfg)\<lparr>upstream := ''http://[::1]''\<rparr>\<rparr>) cached)) = ''http://::1:'' @ show_nat 80
   \<and> valid_upstream ''http://h/api'' \<and> peer_addr (upstream_peer (cfg\<lparr>c_server := (c_server cfg)\<lparr>upstream := ''http://h/api''\<rparr>\<rparr>)) = ''h:'' @ show_nat 80
   \<and> fst (fst (relay_target dns built (cfg\<lparr>c_server := (c_server cfg)\<lparr>upstream := ''http://h/api''\<rparr>\<rparr>) cached)) = ''http://h:'' @ show_nat 80 @ ''/api''"
proof -
  have t: "trim ''h'' = ''h''" "trim ''::1'' = ''::1''"
    by (simp_all add: trim_def trim_start_of_id strip_head_def white_space_def strip_prefix_def starts_with_def)
  have p: "parse_upstream ''http://[::1]'' = (''http'', ''::1'', 80, [])"
    "parse_upstream ''http://h/api'' = (''http'', ''h'', 80, ''/api'')"
    by (simp_all add: parse_simps)
  show ?thesis
    by (intro conjI) (simp_all add: p relay_target_def sni_resolve_entry_def upstream_peer_def hostport_def
        valid_upstream_def parse_simps t del: show_nat.simps)
qed

section \<open>Headers across the hop\<close>

lemma insert_header_names: "fst ` set (insert_header n v hs) \<subseteq> insert n (fst ` set hs)"
  by (auto simp: insert_header_def)

lemma response_head_names:
  "n \<in> fst ` set (fold (\<lambda>(n, v) hs. if is_hop_by_hop n then hs else insert_header n v hs) headers hs0) \<Longrightarrow>
     n \<in> fst ` set hs0 \<or> n \<in> fst ` set headers \<and> \<not> is_hop_by_hop n"
proof (induction headers arbitrary: hs0)
  case (Cons h headers)
  obtain m v where h: "h = (m, v)" by (cases h)
  have "fst ` set (if is_hop_by_hop m then hs0 else insert_header m v hs0)
      \<subseteq> fst ` set hs0 \<union> (if is_hop_by_hop m then {} else {m})"
    using insert_header_names [of m v hs0] by (cases "is_hop_by_hop m") auto
  with Cons show ?case unfolding h by (auto split: if_splits)
qed simp

lemma response_head_keeps:
  "n \<in> fst ` set hs0 \<or> n \<in> fst ` set headers \<and> \<not> is_hop_by_hop n \<Longrightarrow>
     n \<in> fst ` set (fold (\<lambda>(n, v) hs. if is_hop_by_hop n then hs else insert_header n v hs) headers hs0)"
proof (induction headers arbitrary: hs0)
  case (Cons h headers)
  obtain m v where h: "h = (m, v)" by (cases h)
  have "n \<in> fst ` set (insert_header m v hs0)" if "n = m \<or> n \<in> fst ` set hs0"
    using that by (auto simp: insert_header_def image_iff)
  with Cons show ?case unfolding h by (auto split: if_splits)
qed simp

text \<open>No hop-by-hop header crosses the relay, in either direction, except the \<open>Host\<close> it sets
  itself, and every relayed response with a body is framed: it has the upstream's content length,
  or is declared chunked, or goes over HTTP/2.\<close>

theorem relay_headers_clean:
  "(\<forall>(n, v) \<in> set (relay_request_headers host headers).
      (\<not> is_hop_by_hop n \<and> n \<noteq> ''content-length'' \<and> (n, v) \<in> set headers) \<or> (n = ''host'' \<and> host = Some v))
   \<and> (\<forall>n \<in> fst ` set (relay_response_headers st hd2 h2 headers).
        \<not> is_hop_by_hop n \<or> n = ''transfer-encoding'')
   \<and> (no_body_status st hd2 \<or> h2
       \<or> ''content-length'' \<in> fst ` set (relay_response_headers st hd2 h2 headers)
       \<or> (''transfer-encoding'', ''chunked'') \<in> set (relay_response_headers st hd2 h2 headers))"
proof (intro conjI)
  show "\<forall>(n, v) \<in> set (relay_request_headers host headers).
      (\<not> is_hop_by_hop n \<and> n \<noteq> ''content-length'' \<and> (n, v) \<in> set headers) \<or> (n = ''host'' \<and> host = Some v)"
    by (auto simp: relay_request_headers_def split: option.splits)
  let ?head = "fold (\<lambda>(n, v) hs. if is_hop_by_hop n then hs else insert_header n v hs) headers []"
  have names: "n \<in> fst ` set ?head \<Longrightarrow> \<not> is_hop_by_hop n" for n
    using response_head_names [of n headers "[]"] by auto
  have "fst ` set (relay_response_headers st hd2 h2 headers) \<subseteq> insert ''transfer-encoding'' (fst ` set ?head)"
    unfolding relay_response_headers_def Let_def
    by (split if_split) (intro conjI impI insert_header_names subset_insertI)
  with names show "\<forall>n \<in> fst ` set (relay_response_headers st hd2 h2 headers). \<not> is_hop_by_hop n \<or> n = ''transfer-encoding''"
    by blast
  have "''content-length'' \<in> fst ` set ?head" if "list_ex (\<lambda>(n, _). n = ''content-length'') headers"
  proof (rule response_head_keeps)
    have "''content-length'' \<in> fst ` set headers" using that by (force simp: list_ex_iff)
    then show "''content-length'' \<in> fst ` set [] \<or> ''content-length'' \<in> fst ` set headers \<and> \<not> is_hop_by_hop ''content-length''"
      by (simp add: is_hop_by_hop_def)
  qed
  then show "no_body_status st hd2 \<or> h2
       \<or> ''content-length'' \<in> fst ` set (relay_response_headers st hd2 h2 headers)
       \<or> (''transfer-encoding'', ''chunked'') \<in> set (relay_response_headers st hd2 h2 headers)"
    by (auto simp: relay_response_headers_def Let_def insert_header_def)
qed

lemma filter_insert_header:
  "filter (\<lambda>(m, _). m = n) (insert_header k b hs) =
     (if k = n then [(k, b)] else filter (\<lambda>(m, _). m = n) hs)"
  by (induction hs) (auto simp: insert_header_def)

text \<open>A response header with several values loses all but the last on the relay: every value but
  the last of a repeated header is overwritten, where forwarding would keep each of them.\<close>

theorem relay_keeps_last_value:
  assumes "\<not> is_hop_by_hop n" and "n \<noteq> ''transfer-encoding''"
  shows "filter (\<lambda>(m, _). m = n) (relay_response_headers st hd2 h2 (hs @ [(n, a), (n, b)])) = [(n, b)]"
  using assms by (simp add: relay_response_headers_def Let_def filter_insert_header)

lemma relay_keeps_last_value_witness:
  "filter (\<lambda>(m, _). m = ''set-cookie'')
     (relay_response_headers 200 False False ([] @ [(''set-cookie'', ''a=1''), (''set-cookie'', ''b=2'')])) =
   [(''set-cookie'', ''b=2'')]"
  by (rule relay_keeps_last_value) (simp_all add: is_hop_by_hop_def)

end
