(* ===== verification/Relay.thy ===== *)
theory Relay
  imports Unpack Capture Config_Store Live Gauges Routing
begin

text \<open>
  The owned relay of \<open>src/lib.rs\<close> (\<open>relay\<close>, \<open>begin_drain\<close>, \<open>drain_capture\<close>) and the context \<open>Ctx\<close> of a
  request. The relay is a state machine over what the two connections do: a chunk, the end or an
  error of the upstream; the loss of the client, noticed by the read probe or by a failed write;
  the end of the drain window. Clock readings and the outcome of each write are in the events;
  \<open>None\<close> means that the event cannot happen in this state. Sending the request and the bytes
  themselves (pingora, reqwest) is outside the model.
\<close>

section \<open>The request context\<close>

record ctx = req_times +
  snap :: snapshot
  req_buf :: bytes
  resp_buf :: bytes
  resp_content_type :: string
  ws_client_parser :: ws_parser
  ws_server_parser :: ws_parser
  ws_turn_state :: ws_turn
  resp_status :: nat
  response_complete :: bool
  client_dead :: bool
  relay_done :: bool
  ctx_timed_out :: bool                  \<comment> \<open>\<open>drain_timed_out\<close>\<close>
  drain_acc :: "sse_accum option"
  drain_tail :: bytes
  drain_overflow :: u64
  relay_error :: "string option"

definition new_ctx :: "snapshot \<Rightarrow> u64 \<Rightarrow> ctx" where
  "new_ctx sn now =
     (let ws_cap = min (unat (max_ws_frame_payload (c_server (sn_cfg sn)))) usize_max
      in \<lparr>rt_start_ns = now, rt_end_ns = 0, first_output_ns = None, upstream_head_ns = None,
          body_end_ns = None, snap = sn, req_buf = [], resp_buf = [], resp_content_type = [],
          ws_client_parser = with_max_payload True ws_cap,
          ws_server_parser = with_max_payload False ws_cap, ws_turn_state = empty_turn,
          resp_status = 0, response_complete = False, client_dead = False, relay_done = False,
          ctx_timed_out = False, drain_acc = None, drain_tail = [], drain_overflow = 0,
          relay_error = None\<rparr>)"

abbreviation drains :: "ctx \<Rightarrow> bool" where
  "drains c \<equiv> on_cancel (c_drain (sn_cfg (snap c)))"

section \<open>The drain window\<close>

definition begin_drain ::
  "(string \<Rightarrow> json option) \<Rightarrow> (json \<Rightarrow> string) \<Rightarrow> descriptor \<Rightarrow> nat \<Rightarrow> ctx \<Rightarrow> ctx \<times> nat" where
  "begin_drain parse render d now c =
     (let c = (if drain_acc c = None \<and> looks_like_sse (resp_content_type c)
               then (case drain_feed parse render d (resp_buf c) (empty_accum, drain_tail c) of
                       (acc, tail) \<Rightarrow> c\<lparr>drain_acc := Some acc, drain_tail := tail\<rparr>)
               else c)
      in (c, now + unat (timeout_secs (c_drain (sn_cfg (snap c)))) * 1000000000))"

definition drain_capture :: "capture_cap \<Rightarrow> bytes \<Rightarrow> ctx \<Rightarrow> ctx" where
  "drain_capture cap bs c =
     (let room = max_bytes cap - length (resp_buf c);
          n = min room (length bs)
      in c\<lparr>resp_buf := resp_buf c @ take n bs,
           drain_overflow := drain_overflow c + of_nat (length bs - n)\<rparr>)"

definition drain_chunk ::
  "(string \<Rightarrow> json option) \<Rightarrow> (json \<Rightarrow> string) \<Rightarrow> descriptor \<Rightarrow> capture_cap \<Rightarrow> bytes \<Rightarrow> ctx \<Rightarrow> ctx" where
  "drain_chunk parse render d cap bs c =
     (let c = drain_capture cap bs c;
          c = (if drain_acc c = None \<and> looks_like_sse (resp_content_type c)
               then c\<lparr>drain_acc := Some empty_accum\<rparr> else c)
      in case drain_acc c of
           Some acc \<Rightarrow> (case drain_feed parse render d bs (acc, drain_tail c) of
               (acc, tail) \<Rightarrow> c\<lparr>drain_acc := Some acc, drain_tail := tail\<rparr>)
         | None \<Rightarrow> c)"

section \<open>The upload and the head\<close>

datatype upload = Upload_chunk bytes | Upload_end | Upload_aborted

text \<open>\<open>Some (c, go)\<close>: the upload is over, and the request is sent iff \<open>go\<close>.\<close>

fun read_upload :: "upload list \<Rightarrow> ctx \<Rightarrow> (ctx \<times> bool) option" where
  "read_upload [] c = None"
| "read_upload (Upload_chunk b # us) c = read_upload us (c\<lparr>req_buf := req_buf c @ b\<rparr>)"
| "read_upload (Upload_end # us) c = Some (c, True)"
| "read_upload (Upload_aborted # us) c = Some (c\<lparr>client_dead := True\<rparr>, False)"

datatype sent = Connect_failed string | Response nat "string option"

definition relay_failed :: "string \<Rightarrow> ctx \<Rightarrow> ctx" where
  "relay_failed err c = c\<lparr>relay_error := Some (''proxy_error: '' @ err), relay_done := True\<rparr>"

record pump =
  p_ctx :: ctx
  p_deadline :: "nat option"
  p_end_seen :: bool
  p_failed :: bool
  p_over :: bool          \<comment> \<open>the loop has been left\<close>

text \<open>From the response head to the entry of the loop. \<open>head_built\<close> is the text of an error building
  the head, \<open>written\<close> whether the head reached the client. \<open>Inl\<close>: the relay has returned.\<close>

definition relay_head ::
  "u64 \<Rightarrow> string option \<Rightarrow> bool \<Rightarrow> bool \<Rightarrow> sent \<Rightarrow> ctx \<Rightarrow> gauges \<Rightarrow> (ctx + pump) \<times> gauges" where
  "relay_head now head_error written head_request sent c g =
     (case sent of
        Connect_failed e \<Rightarrow> (Inl (relay_failed (''connect: '' @ e) c), g)
      | Response st ctype \<Rightarrow>
          let (c, g) = mark_upstream_head now c g;
              c = c\<lparr>resp_status := st,
                    resp_content_type := (case ctype of Some t \<Rightarrow> t | None \<Rightarrow> resp_content_type c)\<rparr>
          in case head_error of
               Some e \<Rightarrow> (Inl (relay_failed (''response head: '' @ e) c), g)
             | None \<Rightarrow>
                 let c = (if written then c else c\<lparr>client_dead := True\<rparr>);
                     ends = no_body_status st head_request
                 in if \<not> written \<and> \<not> drains c then (Inl (c\<lparr>relay_done := True\<rparr>), g)
                    else (Inr \<lparr>p_ctx = c, p_deadline = None, p_end_seen = ends, p_failed = False,
                               p_over = ends\<rparr>, g))"

section \<open>The body pump\<close>

datatype pump_event =
    Chunk bytes u64 nat bool capture_cap  \<comment> \<open>bytes, wall clock, monotonic clock, the write succeeds, the cap\<close>
  | Upstream_end
  | Upstream_error string
  | Client_gone nat
  | Deadline nat

definition first_output :: "u64 \<Rightarrow> bytes \<Rightarrow> ctx \<Rightarrow> ctx" where
  "first_output wall bs c =
     (if first_output_ns c = None \<and> bs \<noteq> [] then c\<lparr>first_output_ns := Some wall\<rparr> else c)"

text \<open>The client is lost: without the drain switch the loop is left, with it the window opens.\<close>

definition lose_client ::
  "(string \<Rightarrow> json option) \<Rightarrow> (json \<Rightarrow> string) \<Rightarrow> descriptor \<Rightarrow> nat \<Rightarrow> pump \<Rightarrow> pump" where
  "lose_client parse render d now p =
     (let c = (p_ctx p)\<lparr>client_dead := True\<rparr> in
      if \<not> drains c then p\<lparr>p_ctx := c, p_over := True\<rparr>
      else (case begin_drain parse render d now c of
              (c, dl) \<Rightarrow> p\<lparr>p_ctx := c, p_deadline := Some dl\<rparr>))"

fun pump_step ::
  "(string \<Rightarrow> json option) \<Rightarrow> (json \<Rightarrow> string) \<Rightarrow> descriptor \<Rightarrow> pump \<Rightarrow> pump_event \<Rightarrow> pump option" where
  "pump_step parse render d p (Chunk bs wall now write_ok cap) =
     (if p_over p then None
      else
        let c = first_output wall bs (p_ctx p) in
        if \<not> client_dead c then
          (let p = p\<lparr>p_ctx := c\<lparr>resp_buf := resp_buf c @ bs\<rparr>\<rparr>
           in Some (if write_ok then p else lose_client parse render d now p))
        else if drains c then Some (p\<lparr>p_ctx := drain_chunk parse render d cap bs c\<rparr>)
        else Some (p\<lparr>p_ctx := c, p_over := True\<rparr>))"
| "pump_step parse render d p Upstream_end =
     (if p_over p then None else Some (p\<lparr>p_end_seen := True, p_over := True\<rparr>))"
| "pump_step parse render d p (Upstream_error e) =
     (if p_over p then None
      else Some (p\<lparr>p_ctx := (p_ctx p)\<lparr>relay_error := Some (''proxy_error: upstream read: '' @ e)\<rparr>,
                   p_failed := True, p_over := True\<rparr>))"
| "pump_step parse render d p (Client_gone now) =
     (if p_over p \<or> client_dead (p_ctx p) then None else Some (lose_client parse render d now p))"
| "pump_step parse render d p (Deadline now) =
     (if p_over p \<or> \<not> client_dead (p_ctx p) \<or> now < unwrap_or now (p_deadline p) then None
      else Some (p\<lparr>p_ctx := (p_ctx p)\<lparr>ctx_timed_out := True\<rparr>, p_over := True\<rparr>))"

text \<open>After the loop.\<close>

definition relay_end :: "u64 \<Rightarrow> pump \<Rightarrow> ctx" where
  "relay_end wall p =
     (let c = p_ctx p;
          c = (if p_end_seen p \<and> \<not> p_failed p then c\<lparr>response_complete := True\<rparr> else c);
          c = (if body_end_ns c = None then c\<lparr>body_end_ns := Some wall\<rparr> else c)
      in c\<lparr>relay_done := True\<rparr>)"

section \<open>Laws\<close>

text \<open>What the upstream has sent.\<close>

fun chunk_bytes :: "pump_event \<Rightarrow> bytes" where
  "chunk_bytes (Chunk bs wall now ok cap) = bs"
| "chunk_bytes _ = []"

definition received :: "pump_event list \<Rightarrow> bytes" where
  "received es = concat (map chunk_bytes es)"

lemma received_simps [simp]: "received [] = []" "received (e # es) = chunk_bytes e @ received es"
  by (simp_all add: received_def)

text \<open>The content of a turn as the record takes it: the drain's accumulator when there is one.\<close>

definition relay_outcome ::
  "(string \<Rightarrow> json option) \<Rightarrow> (json \<Rightarrow> string) \<Rightarrow> descriptor \<Rightarrow> ctx \<Rightarrow> sse_outcome" where
  "relay_outcome parse render d c =
     (case drain_acc c of
        Some acc \<Rightarrow> drain_finish parse render d (acc, drain_tail c)
      | None \<Rightarrow> stream_response parse render d (resp_buf c))"

text \<open>The accumulator stands for the bytes \<open>seen\<close>, whatever follows.\<close>

definition drained ::
  "(string \<Rightarrow> json option) \<Rightarrow> (json \<Rightarrow> string) \<Rightarrow> descriptor \<Rightarrow> bytes \<Rightarrow> sse_accum \<Rightarrow> bytes \<Rightarrow> bool" where
  "drained parse render d seen acc tail \<longleftrightarrow>
     (\<forall>later. fold (feed_frame parse render d) (collect_frames (from_utf8_lossy (tail @ later))) acc =
        fold (feed_frame parse render d) (collect_frames (from_utf8_lossy (seen @ later))) empty_accum)"

lemma drained_start: "drained parse render d [] empty_accum []"
  by (simp add: drained_def)

lemma drained_feed:
  assumes "drained parse render d seen acc tail" "drain_feed parse render d bs (acc, tail) = (acc', tail')"
  shows "drained parse render d (seen @ bs) acc' tail'"
  using assms(1) drain.feed_step [OF assms(2)] by (simp add: drained_def)

lemma drained_outcome:
  "drained parse render d seen acc tail \<Longrightarrow>
     drain_finish parse render d (acc, tail) = stream_response parse render d seen"
  unfolding drained_def
  by (drule spec [of _ "[]"]) (simp add: drain_finish_def stream_response_def sse_data_frames_lossy)

section \<open>A relayed request\<close>

text \<open>\<open>relay\<close> from its start to its return: the upload \<open>us\<close>, the outcome of sending, the events of the
  body pump until its loop is left. Clock readings: \<open>at_head\<close>, \<open>at_end\<close>.\<close>

definition relay_turn ::
  "(string \<Rightarrow> json option) \<Rightarrow> (json \<Rightarrow> string) \<Rightarrow> descriptor \<Rightarrow> u64 \<Rightarrow> u64 \<Rightarrow> upload list \<Rightarrow>
     sent \<Rightarrow> string option \<Rightarrow> bool \<Rightarrow> bool \<Rightarrow> pump_event list \<Rightarrow> ctx \<Rightarrow> gauges \<Rightarrow> (ctx \<times> gauges) option" where
  "relay_turn parse render d at_head at_end us st head_error written head_request es c g =
     (case read_upload us c of
        None \<Rightarrow> None
      | Some (c, False) \<Rightarrow> Some (c, g)
      | Some (c, True) \<Rightarrow>
          (case relay_head at_head head_error written head_request st c g of
             (Inl c, g) \<Rightarrow> Some (c, g)
           | (Inr p, g) \<Rightarrow>
               (case run (pump_step parse render d) p es of
                  Some p \<Rightarrow> if p_over p then Some (relay_end at_end p, g) else None
                | None \<Rightarrow> None)))"

end
