(* ===== verification/Evidence.thy ===== *)
theory Evidence
  imports Utf8 "HOL-Library.Sublist"
begin

text \<open>
  The header evidence and the credential fingerprint of \<open>src/lib.rs\<close>: which request headers enter a
  record, how they are capped, and the salted digest that stands for an API key. A request's headers
  are the list of its (lower-case name, raw value) pairs in iteration order, a name with several
  values occurring several times. \<open>HeaderValue::to_str\<close> (a crate) is the parameter \<open>to_str\<close>, sha256
  the parameter \<open>sha\<close>.
\<close>

section \<open>Definitions\<close>

definition HDR_EVIDENCE_DENY :: "string list" where
  "HDR_EVIDENCE_DENY =
     [''authorization'', ''proxy-authorization'', ''x-api-key'', ''api-key'',
     ''x-goog-api-key'', ''cookie'', ''set-cookie'', ''connection'', ''keep-alive'',
     ''proxy-connection'', ''te'', ''trailer'', ''transfer-encoding'', ''upgrade'']"

definition HDR_EVIDENCE_DENY_MARKERS :: "string list" where
  "HDR_EVIDENCE_DENY_MARKERS =
     [''authorization'', ''cookie'', ''secret'', ''password'', ''credential'', ''signature'',
     ''token'', ''bearer'', ''api-key'', ''apikey'', ''access-key'', ''private-key'']"

definition HDR_NAME_CAP :: nat where "HDR_NAME_CAP = 64"
definition HDR_VALUE_CAP :: nat where "HDR_VALUE_CAP = 256"
definition HDR_EVIDENCE_MAX_ENTRIES :: nat where "HDR_EVIDENCE_MAX_ENTRIES = 32"
definition HDR_EVIDENCE_BUDGET :: nat where "HDR_EVIDENCE_BUDGET = 4096"

definition api_key_fp_of :: "(bytes \<Rightarrow> bytes) \<Rightarrow> string \<Rightarrow> string \<Rightarrow> string" where
  "api_key_fp_of sha key slt = take 16 (hex_encode (sha (slt @ key)))"

text \<open>\<open>char_indices\<close>: the byte offsets at which the characters of a string start.\<close>

definition char_starts :: "string \<Rightarrow> nat list" where
  "char_starts s = filter (\<lambda>i. \<not> is_cont (s ! i)) [0..<length s]"

definition truncate_header_value :: "string \<Rightarrow> nat \<Rightarrow> string" where
  "truncate_header_value val limit =
     (if limit < length (char_starts val) then take (char_starts val ! limit) val else val)"

definition hdr_evidence_denied :: "string \<Rightarrow> bool" where
  "hdr_evidence_denied name \<longleftrightarrow>
     name \<in> set HDR_EVIDENCE_DENY \<or> list_ex (contains_sub name) HDR_EVIDENCE_DENY_MARKERS"

record hdr_scan =
  kept :: "(string \<times> string) list"
  used :: nat
  hdr_dropped :: u32

definition sat_inc :: "u32 \<Rightarrow> u32" where
  "sat_inc n = (if n = - 1 then n else n + 1)"

definition scan_header :: "(bytes \<Rightarrow> string option) \<Rightarrow> string \<times> bytes \<Rightarrow> hdr_scan \<Rightarrow> hdr_scan" where
  "scan_header to_str h sc =
     (let name = fst h in
      if hdr_evidence_denied name then sc
      else if HDR_NAME_CAP < length name then sc\<lparr>hdr_dropped := sat_inc (hdr_dropped sc)\<rparr>
      else case to_str (snd h) of
             None \<Rightarrow> sc
           | Some raw \<Rightarrow>
               let val = truncate_header_value (trim raw) HDR_VALUE_CAP in
               if val = [] then sc
               else let cost = sat_add (length name) (length val) in
                 if HDR_EVIDENCE_MAX_ENTRIES \<le> length (kept sc)
                    \<or> HDR_EVIDENCE_BUDGET < sat_add (used sc) cost
                 then sc\<lparr>hdr_dropped := sat_inc (hdr_dropped sc)\<rparr>
                 else sc\<lparr>used := sat_add (used sc) cost, kept := kept sc @ [(name, val)]\<rparr>)"

definition collect_hdr_evidence ::
  "(bytes \<Rightarrow> string option) \<Rightarrow> (string \<times> bytes) list \<Rightarrow> (string \<times> string) list \<times> u32" where
  "collect_hdr_evidence to_str headers =
     (let sc = fold (scan_header to_str) headers \<lparr>kept = [], used = 0, hdr_dropped = 0\<rparr>
      in (kept sc, hdr_dropped sc))"

definition bearer_key :: "string option \<Rightarrow> string option" where
  "bearer_key hv = opt_filter (\<lambda>k. k \<noteq> []) (Option.bind hv (\<lambda>v. strip_prefix v ''Bearer ''))"

definition request_api_key_fp ::
  "(bytes \<Rightarrow> bytes) \<Rightarrow> string \<Rightarrow> (string \<Rightarrow> string option) \<Rightarrow> string \<Rightarrow> string" where
  "request_api_key_fp sha protocol header_get slt =
     (let key = (if protocol = ''anthropic.messages'' then header_get ''x-api-key''
                 else bearer_key (header_get ''authorization'')) in
      case key of
        Some k \<Rightarrow> if trim k \<noteq> [] then api_key_fp_of sha (trim k) slt else []
      | None \<Rightarrow> [])"

section \<open>Bounds\<close>

definition total_cost :: "(string \<times> string) list \<Rightarrow> nat" where
  "total_cost es = sum_list (map (\<lambda>(n, v). length n + length v) es)"

definition entry_ok :: "(bytes \<Rightarrow> string option) \<Rightarrow> (string \<times> bytes) list \<Rightarrow> string \<times> string \<Rightarrow> bool" where
  "entry_ok to_str headers e \<longleftrightarrow>
     \<not> hdr_evidence_denied (fst e) \<and> length (fst e) \<le> HDR_NAME_CAP \<and> snd e \<noteq> []
     \<and> length (char_starts (snd e)) \<le> HDR_VALUE_CAP
     \<and> (\<exists>raw s. (fst e, raw) \<in> set headers \<and> to_str raw = Some s \<and> starts_with (trim s) (snd e))"

lemma filter_upt_nth:
  "m < length (filter P [0..<n]) \<Longrightarrow>
     length (filter P [0..<filter P [0..<n] ! m]) = m \<and> filter P [0..<n] ! m < n \<and> P (filter P [0..<n] ! m)"
proof (induction n)
  case (Suc n)
  show ?case
  proof (cases "m < length (filter P [0..<n])")
    case True
    with Suc.IH show ?thesis by (simp add: nth_append)
  next
    case False
    with Suc.prems have "P n" "m = length (filter P [0..<n])" by (auto split: if_splits)
    then show ?thesis by (simp add: nth_append)
  qed
qed simp

lemma truncate_shape:
  assumes "m < length (char_starts s)"
  shows "length (char_starts (take (char_starts s ! m) s)) = m" "char_starts s ! m < length s"
    "\<not> is_cont (s ! (char_starts s ! m))"
proof -
  note f = filter_upt_nth [of m "\<lambda>i. \<not> is_cont (s ! i)" "length s", folded char_starts_def, OF assms]
  have k: "char_starts s ! m < length s" using f by (simp add: char_starts_def)
  have "char_starts (take (char_starts s ! m) s) = filter (\<lambda>i. \<not> is_cont (s ! i)) [0..<char_starts s ! m]"
    using k unfolding char_starts_def by (auto intro!: filter_cong)
  with f show "length (char_starts (take (char_starts s ! m) s)) = m" by simp
  show "char_starts s ! m < length s" by (rule k)
  show "\<not> is_cont (s ! (char_starts s ! m))" using f by simp
qed

lemma truncate_chars: "length (char_starts (truncate_header_value s m)) \<le> m"
  by (simp add: truncate_header_value_def truncate_shape)

lemma truncate_prefix: "starts_with s (truncate_header_value s m)"
  by (auto simp: truncate_header_value_def starts_with_def min_def)

lemma truncate_valid: "valid_utf8 s \<Longrightarrow> valid_utf8 (truncate_header_value s m)"
  by (auto simp: truncate_header_value_def truncate_shape valid_utf8_take)

text \<open>Headers that the bounds may drop: what is neither denied nor unusable.\<close>

definition eligible :: "(bytes \<Rightarrow> string option) \<Rightarrow> string \<times> bytes \<Rightarrow> bool" where
  "eligible to_str h \<longleftrightarrow> \<not> hdr_evidence_denied (fst h)
     \<and> (HDR_NAME_CAP < length (fst h)
        \<or> (\<exists>raw. to_str (snd h) = Some raw \<and> truncate_header_value (trim raw) HDR_VALUE_CAP \<noteq> []))"

definition scan_ok :: "(bytes \<Rightarrow> string option) \<Rightarrow> (string \<times> bytes) list \<Rightarrow> hdr_scan \<Rightarrow> bool" where
  "scan_ok to_str headers sc \<longleftrightarrow>
     (\<forall>e \<in> set (kept sc). entry_ok to_str headers e) \<and> length (kept sc) \<le> HDR_EVIDENCE_MAX_ENTRIES
     \<and> used sc = total_cost (kept sc) \<and> used sc \<le> HDR_EVIDENCE_BUDGET"

lemma sat_add_budget:
  "\<not> HDR_EVIDENCE_BUDGET < sat_add u c \<Longrightarrow> sat_add u c = u + c"
  by (auto simp: sat_add_def HDR_EVIDENCE_BUDGET_def usize_max_def min_def split: if_splits)

lemma sat_add_small: "sat_add u (sat_add a b) \<le> HDR_EVIDENCE_BUDGET \<Longrightarrow> sat_add a b = a + b"
  by (auto simp: sat_add_def HDR_EVIDENCE_BUDGET_def usize_max_def min_def split: if_splits)

text \<open>One header, by what becomes of it.\<close>

lemma scan_header_cases:
  obtains (skipped) "\<not> eligible to_str h" "scan_header to_str h sc = sc"
    | (over) "eligible to_str h" "scan_header to_str h sc = sc\<lparr>hdr_dropped := sat_inc (hdr_dropped sc)\<rparr>"
    | (taken) raw val where "eligible to_str h" "\<not> hdr_evidence_denied (fst h)"
      "length (fst h) \<le> HDR_NAME_CAP" "to_str (snd h) = Some raw"
      "val = truncate_header_value (trim raw) HDR_VALUE_CAP" "val \<noteq> []"
      "length (kept sc) < HDR_EVIDENCE_MAX_ENTRIES"
      "used sc + (length (fst h) + length val) \<le> HDR_EVIDENCE_BUDGET"
      "scan_header to_str h sc = sc\<lparr>used := used sc + (length (fst h) + length val),
         kept := kept sc @ [(fst h, val)]\<rparr>"
proof -
  consider "hdr_evidence_denied (fst h)" | "\<not> hdr_evidence_denied (fst h)" "HDR_NAME_CAP < length (fst h)"
    | "\<not> hdr_evidence_denied (fst h)" "\<not> HDR_NAME_CAP < length (fst h)" "to_str (snd h) = None"
    | raw where "\<not> hdr_evidence_denied (fst h)" "\<not> HDR_NAME_CAP < length (fst h)" "to_str (snd h) = Some raw"
    by (cases "to_str (snd h)") auto
  then show thesis
  proof cases
    case (4 raw)
    define val where "val = truncate_header_value (trim raw) HDR_VALUE_CAP"
    show thesis
    proof (cases "val = []")
      case True
      with 4 show thesis by (intro skipped) (simp_all add: scan_header_def eligible_def val_def)
    next
      case False
      let ?cost = "sat_add (length (fst h)) (length val)"
      let ?full = "HDR_EVIDENCE_MAX_ENTRIES \<le> length (kept sc) \<or> HDR_EVIDENCE_BUDGET < sat_add (used sc) ?cost"
      have e: "eligible to_str h" using 4 False by (simp add: eligible_def val_def)
      show thesis
      proof (cases ?full)
        case True
        with 4 False e show thesis
          by (intro over) (simp_all add: scan_header_def Let_def flip: val_def)
      next
        case no: False
        then have a: "sat_add (used sc) ?cost = used sc + ?cost" "?cost = length (fst h) + length val"
          using sat_add_budget sat_add_small [of "used sc" "length (fst h)" "length val"] by simp_all
        from no a have "used sc + (length (fst h) + length val) \<le> HDR_EVIDENCE_BUDGET" by simp
        with 4 False e no a show thesis
          by (intro taken [OF e 4(1) _ 4(3) val_def]) (simp_all add: scan_header_def Let_def flip: val_def)
      qed
    qed
  qed (auto simp: scan_header_def eligible_def intro: skipped over)
qed

lemma scan_header_ok:
  assumes "scan_ok to_str headers sc" "h \<in> set headers"
  shows "scan_ok to_str headers (scan_header to_str h sc)"
proof (cases rule: scan_header_cases [of to_str h sc])
  case (taken raw val)
  then have "\<exists>raw s. (fst h, raw) \<in> set headers \<and> to_str raw = Some s \<and> starts_with (trim s) val"
    using assms(2) truncate_prefix by (intro exI [of _ "snd h"] exI [of _ raw]) simp
  with taken have "entry_ok to_str headers (fst h, val)" by (simp add: entry_ok_def truncate_chars)
  with taken assms(1) show ?thesis by (auto simp: scan_ok_def total_cost_def)
qed (use assms(1) in \<open>simp_all add: scan_ok_def\<close>)

lemma fold_scan_ok:
  "set hs \<subseteq> set headers \<Longrightarrow> scan_ok to_str headers sc \<Longrightarrow> scan_ok to_str headers (fold (scan_header to_str) hs sc)"
  by (induction hs arbitrary: sc) (auto intro: scan_header_ok)

lemma fold_scan_count:
  "unat (hdr_dropped sc) + length hs < 2 ^ 32 \<Longrightarrow>
     length (kept (fold (scan_header to_str) hs sc)) + unat (hdr_dropped (fold (scan_header to_str) hs sc))
       = length (kept sc) + unat (hdr_dropped sc) + length (filter (eligible to_str) hs)"
proof (induction hs arbitrary: sc)
  case (Cons h hs)
  let ?s = "scan_header to_str h sc"
  have inc: "unat (sat_inc (hdr_dropped sc)) = Suc (unat (hdr_dropped sc))"
  proof -
    have "unat (- 1 :: u32) = 2 ^ 32 - 1" by (simp add: unsigned_minus_1_eq_mask mask_eq_exp_minus_1)
    then have "hdr_dropped sc \<noteq> - 1" using Cons.prems by auto
    then show ?thesis using Cons.prems by (simp add: sat_inc_def unat_word_ariths)
  qed
  have "unat (hdr_dropped ?s) + length hs < 2 ^ 32
      \<and> length (kept ?s) + unat (hdr_dropped ?s) =
        length (kept sc) + unat (hdr_dropped sc) + (if eligible to_str h then 1 else 0)"
    by (cases rule: scan_header_cases [of to_str h sc]) (use Cons.prems inc in auto)
  with Cons.IH [of ?s] show ?case by simp
qed simp

lemma fold_scan_names:
  "\<exists>ys. kept (fold (scan_header to_str) hs sc) = kept sc @ ys \<and> subseq (map fst ys) (map fst hs)"
proof (induction hs arbitrary: sc)
  case (Cons h hs)
  from Cons.IH [of "scan_header to_str h sc"] obtain ys where ys:
    "kept (fold (scan_header to_str) hs (scan_header to_str h sc)) = kept (scan_header to_str h sc) @ ys"
    "subseq (map fst ys) (map fst hs)" by blast
  show ?case
    by (cases rule: scan_header_cases [of to_str h sc]) (use ys in auto)
qed simp

section \<open>Properties\<close>

text \<open>C24 The evidence of a record never carries a credential header and stays within its bounds,
  whatever a client sends: no kept name is denied or mentions one of the credential markers, names
  and values respect their caps, a value is a non-empty prefix of the trimmed value the client sent,
  there are at most 32 entries of together at most 4096 bytes, in header order, and every eligible
  header is either kept or counted as dropped.\<close>

theorem evidence_safe:
  assumes "collect_hdr_evidence to_str headers = (es, n)" and "length headers < 2 ^ 32"
  shows "(\<forall>(name, val) \<in> set es.
      name \<notin> set HDR_EVIDENCE_DENY
      \<and> (\<forall>marker \<in> set HDR_EVIDENCE_DENY_MARKERS. \<not> contains_sub name marker)
      \<and> length name \<le> 64 \<and> val \<noteq> [] \<and> length (char_starts val) \<le> 256
      \<and> (\<exists>raw s. (name, raw) \<in> set headers \<and> to_str raw = Some s \<and> starts_with (trim s) val))
    \<and> length es \<le> 32 \<and> total_cost es \<le> 4096 \<and> subseq (map fst es) (map fst headers)
    \<and> length es + unat n = length (filter (eligible to_str) headers)"
proof -
  let ?z = "\<lparr>kept = [], used = 0, hdr_dropped = 0\<rparr> :: hdr_scan"
  let ?f = "fold (scan_header to_str) headers ?z"
  have e: "es = kept ?f" "n = hdr_dropped ?f" using assms(1) by (simp_all add: collect_hdr_evidence_def Let_def)
  have "scan_ok to_str headers ?z" by (simp add: scan_ok_def total_cost_def)
  then have ok: "scan_ok to_str headers ?f" by (intro fold_scan_ok) simp_all
  have "length es + unat n = length (filter (eligible to_str) headers)"
    using fold_scan_count [of ?z headers to_str] assms(2) e by simp
  moreover have "subseq (map fst es) (map fst headers)"
    using fold_scan_names [of to_str headers ?z] e by auto
  moreover have "\<forall>(name, val) \<in> set es.
      name \<notin> set HDR_EVIDENCE_DENY
      \<and> (\<forall>marker \<in> set HDR_EVIDENCE_DENY_MARKERS. \<not> contains_sub name marker)
      \<and> length name \<le> 64 \<and> val \<noteq> [] \<and> length (char_starts val) \<le> 256
      \<and> (\<exists>raw s. (name, raw) \<in> set headers \<and> to_str raw = Some s \<and> starts_with (trim s) val)"
  proof (rule ballI, clarify, intro conjI)
    fix name val assume m: "(name, val) \<in> set es"
    then have en: "entry_ok to_str headers (name, val)" using ok e(1) by (auto simp: scan_ok_def)
    then show "name \<notin> set HDR_EVIDENCE_DENY" "\<forall>marker \<in> set HDR_EVIDENCE_DENY_MARKERS. \<not> contains_sub name marker"
      "length name \<le> 64" "val \<noteq> []" "length (char_starts val) \<le> 256"
      "\<exists>raw s. (name, raw) \<in> set headers \<and> to_str raw = Some s \<and> starts_with (trim s) val"
      by (simp_all add: entry_ok_def hdr_evidence_denied_def list_ex_iff HDR_NAME_CAP_def HDR_VALUE_CAP_def)
  qed
  moreover have "length es \<le> 32" "total_cost es \<le> 4096"
    using ok e(1) by (simp_all add: scan_ok_def HDR_EVIDENCE_MAX_ENTRIES_def HDR_EVIDENCE_BUDGET_def)
  ultimately show ?thesis by blast
qed

lemma evidence_safe_witness:
  "collect_hdr_evidence Some [(''authorization'', ''Bearer k''), (''accept'', ''x'')] = ([(''accept'', ''x'')], 0)
     \<and> total_cost [(''accept'', ''x'')] \<le> 4096"
proof -
  have c: "collect_hdr_evidence Some [(''authorization'', ''Bearer k''), (''accept'', ''x'')] = ([(''accept'', ''x'')], 0)"
  proof -
    have "trim ''x'' = ''x''"
      by (simp add: trim_def trim_start_of_id strip_head_def white_space_def strip_prefix_def starts_with_def)
    then show ?thesis
      by (simp add: collect_hdr_evidence_def scan_header_def hdr_evidence_denied_def HDR_EVIDENCE_DENY_def
          HDR_EVIDENCE_DENY_MARKERS_def contains_sub_def starts_with_def HDR_NAME_CAP_def HDR_VALUE_CAP_def
          HDR_EVIDENCE_MAX_ENTRIES_def HDR_EVIDENCE_BUDGET_def truncate_header_value_def char_starts_def
          sat_add_def usize_max_def Let_def)
  qed
  from evidence_safe [OF c] c show ?thesis by simp
qed

text \<open>A record shows of an API key only 16 hexadecimal characters of a salted digest: requests that
  agree on the digest of salt and key agree on the fingerprint, and a request without the
  credential its protocol uses has none.\<close>

theorem fingerprint_hides_key:
  "(request_api_key_fp sha protocol hdr slt = [] \<or>
      (\<exists>k. trim k \<noteq> [] \<and> request_api_key_fp sha protocol hdr slt = take 16 (hex_encode (sha (slt @ trim k)))
         \<and> (if protocol = ''anthropic.messages'' then hdr ''x-api-key'' = Some k
            else hdr ''authorization'' = Some (''Bearer '' @ k))))
   \<and> length (request_api_key_fp sha protocol hdr slt) \<le> 16"
proof -
  have b: "bearer_key hv = Some k \<longleftrightarrow> hv = Some (''Bearer '' @ k) \<and> k \<noteq> []" for hv k
    unfolding bearer_key_def by (cases hv) (simp_all add: strip_prefix_Some del: append_Cons)
  show ?thesis
  proof (cases "protocol = ''anthropic.messages''")
    case True
    then show ?thesis
      by (cases "hdr ''x-api-key''") (auto simp: request_api_key_fp_def api_key_fp_of_def)
  next
    case False
    show ?thesis
    proof (cases "bearer_key (hdr ''authorization'')")
      case None
      with False show ?thesis by (simp add: request_api_key_fp_def)
    next
      case (Some k)
      with False b [of "hdr ''authorization''" k] show ?thesis
        by (auto simp: request_api_key_fp_def api_key_fp_of_def)
    qed
  qed
qed

end
