(* ===== verification/Eviction.thy ===== *)
theory Eviction
  imports Prelude "HOL-Library.While_Combinator"
begin

text \<open>
  The interface of an eviction loop, \<open>while over(s) { evict(s) }\<close>: the stitcher's LRU loop and
  the store's budget loop are its two instances. The loop is \<open>while_option\<close>, so that a loop
  that never stops is the value \<open>None\<close>; the laws make it return, within the bound, with every
  property that one eviction keeps.
\<close>

locale eviction =
  fixes over :: "'s \<Rightarrow> bool"
    and evict :: "'s \<Rightarrow> 's"
    and weight :: "'s \<Rightarrow> nat"
    and sound :: "'s \<Rightarrow> bool"
  assumes evict_smaller: "sound s \<Longrightarrow> over s \<Longrightarrow> weight (evict s) < weight s"
    and evict_sound: "sound s \<Longrightarrow> over s \<Longrightarrow> sound (evict s)"
begin

lemma evict_returns: "sound s \<Longrightarrow> \<exists>t. while_option over evict s = Some t"
  by (rule measure_while_option_Some [where P = sound and f = weight])
    (auto simp: evict_smaller evict_sound)

lemma evict_within: "while_option over evict s = Some t \<Longrightarrow> \<not> over t"
  by (rule while_option_stop)

lemma evict_keeps:
  assumes "while_option over evict s = Some t" "sound s" "P s"
    and "\<And>u. sound u \<Longrightarrow> over u \<Longrightarrow> P u \<Longrightarrow> P (evict u)"
  shows "P t \<and> sound t"
  by (rule while_option_rule [where P = "\<lambda>u. P u \<and> sound u", OF _ assms(1)])
    (use assms evict_sound in auto)

lemma evict_none: "\<not> over s \<Longrightarrow> while_option over evict s = Some s"
  by (simp add: while_option_unfold)

end

end
