(* ===== verification/Prefix.thy ===== *)
theory Prefix
  imports Json Eviction
begin

text \<open>
  \<open>src/trace/prefix.rs\<close>: the prefix stitcher. \<open>sha\<close> is SHA-256 over a byte string and
  \<open>render\<close> is \<open>Value::to_string\<close>. An \<open>Instant\<close> is a number of nanoseconds of the monotonic
  clock; \<open>duration_since\<close> saturates, as subtraction on \<open>nat\<close> does. The hash map is the list of
  its entries, keys distinct; where the source depends on its iteration order (the victim among
  equally old chains), the model takes the first in list order.
\<close>

section \<open>State\<close>

record chain_state =
  cs_chain :: "bytes list"
  cs_session_id :: string
  cs_last_used :: nat

type_synonym chain_key = "string \<times> string"
type_synonym chain_table = "(chain_key \<times> chain_state) list"

record stitcher =
  st_states :: chain_table
  st_capacity :: u64
  st_ttl_ms :: u64
  st_next_nonce :: u64
  st_expired :: u64
  st_evicted :: u64
  st_lock_wait_ns :: u64
  st_lock_hold_ns :: u64
  st_clock :: nat
  st_last_sweep_ms :: u64
  st_sweeps :: u64
  st_salt :: bytes

definition FINGERPRINT_KIND :: string where "FINGERPRINT_KIND = ''pfx''"
definition DEFAULT_CAPACITY :: u64 where "DEFAULT_CAPACITY = 100000"
definition DEFAULT_TTL_MS :: u64 where "DEFAULT_TTL_MS = 24 * 3600 * 1000"
definition SWEEP_INTERVAL_MS :: u64 where "SWEEP_INTERVAL_MS = 30000"

definition at_least_1 :: "u64 \<Rightarrow> u64" where
  "at_least_1 n = (if n = 0 then 1 else n)"

definition with_limits :: "bytes \<Rightarrow> nat \<Rightarrow> u64 \<Rightarrow> u64 \<Rightarrow> stitcher" where
  "with_limits salt now capacity ttl_ms = \<lparr>
     st_states = [], st_capacity = at_least_1 capacity, st_ttl_ms = at_least_1 ttl_ms,
     st_next_nonce = 0, st_expired = 0, st_evicted = 0, st_lock_wait_ns = 0, st_lock_hold_ns = 0,
     st_clock = now, st_last_sweep_ms = 0, st_sweeps = 0, st_salt = salt\<rparr>"

definition default_stitcher :: "bytes \<Rightarrow> nat \<Rightarrow> stitcher" where
  "default_stitcher salt now = with_limits salt now DEFAULT_CAPACITY DEFAULT_TTL_MS"

definition entries :: "stitcher \<Rightarrow> nat" where
  "entries st = length (st_states st)"

definition capacity :: "stitcher \<Rightarrow> nat" where
  "capacity st = min (unat (st_capacity st)) usize_max"

definition set_limits :: "u64 \<Rightarrow> u64 \<Rightarrow> stitcher \<Rightarrow> stitcher" where
  "set_limits cap ttl_ms st =
     st\<lparr>st_capacity := at_least_1 cap, st_ttl_ms := at_least_1 ttl_ms\<rparr>"

text \<open>The TTL in nanoseconds.\<close>

definition ttl :: "stitcher \<Rightarrow> nat" where
  "ttl st = unat (at_least_1 (st_ttl_ms st)) * 1000000"

section \<open>Fingerprints and session ids\<close>

definition message_fingerprint :: "(bytes \<Rightarrow> bytes) \<Rightarrow> (json \<Rightarrow> string) \<Rightarrow> json \<Rightarrow> bytes" where
  "message_fingerprint sha render m = sha (render m)"

definition head_key :: "(bytes \<Rightarrow> bytes) \<Rightarrow> (json \<Rightarrow> string) \<Rightarrow> json list \<Rightarrow> string" where
  "head_key sha render messages =
     hex_encode (sha (concat (map (message_fingerprint sha render) (take 2 messages))))"

definition fps_concat :: "bytes list \<Rightarrow> bytes" where
  "fps_concat fps = concat fps"

definition session_id_of :: "(bytes \<Rightarrow> bytes) \<Rightarrow> bytes \<Rightarrow> bytes \<Rightarrow> u64 \<Rightarrow> string" where
  "session_id_of sha salt seed nonce =
     FINGERPRINT_KIND @ '':'' @
     take 32 (hex_encode (sha (FINGERPRINT_KIND @ salt @ seed @ be_bytes 8 (unat nonce))))"

definition new_session_id :: "(bytes \<Rightarrow> bytes) \<Rightarrow> bytes \<Rightarrow> stitcher \<Rightarrow> string \<times> stitcher" where
  "new_session_id sha seed st =
     (session_id_of sha (st_salt st) seed (st_next_nonce st),
      st\<lparr>st_next_nonce := st_next_nonce st + 1\<rparr>)"

definition instance_salt :: "(bytes \<Rightarrow> bytes) \<Rightarrow> u32 \<Rightarrow> nat option \<Rightarrow> nat \<Rightarrow> bytes" where
  "instance_salt sha pid unix_nanos anchor =
     take 8 (sha (be_bytes 4 (unat pid) @ be_bytes 16 (unwrap_or 0 unix_nanos) @ be_bytes 8 anchor))"

section \<open>The critical section\<close>

definition remove_key :: "chain_key \<Rightarrow> chain_table \<Rightarrow> chain_table" where
  "remove_key k tbl = filter (\<lambda>(k', _). k' \<noteq> k) tbl"

definition update_key :: "chain_key \<Rightarrow> (chain_state \<Rightarrow> chain_state) \<Rightarrow> chain_table \<Rightarrow> chain_table" where
  "update_key k f tbl = map (\<lambda>(k', s). if k' = k then (k', f s) else (k', s)) tbl"

definition fresh :: "nat \<Rightarrow> nat \<Rightarrow> chain_state \<Rightarrow> bool" where
  "fresh now lifetime s \<longleftrightarrow> now - cs_last_used s < lifetime"

definition sweep :: "nat \<Rightarrow> stitcher \<Rightarrow> stitcher" where
  "sweep now st =
     (let now_ms = (of_nat ((now - st_clock st) div 1000000) :: u64) in
      if SWEEP_INTERVAL_MS \<le> sat_sub_u64 now_ms (st_last_sweep_ms st) then
        (let states = filter (\<lambda>(_, s). fresh now (ttl st) s) (st_states st)
         in st\<lparr>st_states := states,
               st_expired := st_expired st + of_nat (length (st_states st) - length states),
               st_last_sweep_ms := now_ms,
               st_sweeps := st_sweeps st + 1\<rparr>)
      else st)"

definition drop_expired :: "nat \<Rightarrow> chain_key \<Rightarrow> stitcher \<Rightarrow> stitcher" where
  "drop_expired now key st =
     (case map_of (st_states st) key of
        Some s \<Rightarrow> (if \<not> fresh now (ttl st) s
                   then st\<lparr>st_states := remove_key key (st_states st)\<rparr> else st)
      | None \<Rightarrow> st)"

text \<open>One round of \<open>while states.len() >= capacity\<close>.\<close>

definition evict_lru :: "stitcher \<Rightarrow> stitcher" where
  "evict_lru st =
     (case map_option fst (min_by_key (\<lambda>(_, s). cs_last_used s) (st_states st)) of
        Some k \<Rightarrow> st\<lparr>st_states := remove_key k (st_states st), st_evicted := st_evicted st + 1\<rparr>
      | None \<Rightarrow> st)"

definition make_room :: "stitcher \<Rightarrow> stitcher option" where
  "make_room st =
     (let cap = capacity st
      in while_option (\<lambda>st. cap \<le> length (st_states st)) evict_lru st)"

definition extends_chain :: "bytes list \<Rightarrow> bytes list \<Rightarrow> bool" where
  "extends_chain chain fps \<longleftrightarrow> length chain \<le> length fps \<and> take (length chain) fps = chain"

definition assign_locked ::
  "(bytes \<Rightarrow> bytes) \<Rightarrow> string \<Rightarrow> string \<Rightarrow> bytes list \<Rightarrow> nat \<Rightarrow> stitcher \<Rightarrow>
     ((string \<times> bool) \<times> stitcher) option" where
  "assign_locked sha scope head fps now st0 =
     (let st = sweep now st0;
          key = (scope, head);
          st = drop_expired now key st
      in case map_of (st_states st) key of
        Some e \<Rightarrow>
          if extends_chain (cs_chain e) fps then
            Some ((cs_session_id e, False),
              st\<lparr>st_states := update_key key (\<lambda>e. e\<lparr>cs_last_used := now, cs_chain := fps\<rparr>) (st_states st)\<rparr>)
          else
            (let (sid, st) = new_session_id sha (fps_concat fps) st
             in Some ((sid, True),
                  st\<lparr>st_states := update_key key
                       (\<lambda>e. e\<lparr>cs_last_used := now, cs_chain := fps, cs_session_id := sid\<rparr>) (st_states st)\<rparr>))
      | None \<Rightarrow>
          Option.bind (make_room st) (\<lambda>st.
            let (sid, st) = new_session_id sha (fps_concat fps) st
            in Some ((sid, False),
                 st\<lparr>st_states := st_states st @
                      [(key, \<lparr>cs_chain = fps, cs_session_id = sid, cs_last_used = now\<rparr>)]\<rparr>)))"

text \<open>\<open>waited\<close> and \<open>held\<close> are the two measured durations of the lock, in nanoseconds.\<close>

definition assign_session ::
  "(bytes \<Rightarrow> bytes) \<Rightarrow> (json \<Rightarrow> string) \<Rightarrow> string \<Rightarrow> json list \<Rightarrow> nat \<Rightarrow> u64 \<Rightarrow> u64 \<Rightarrow> stitcher \<Rightarrow>
     ((string \<times> bool) \<times> stitcher) option" where
  "assign_session sha render scope messages now waited held st =
     (let head = head_key sha render messages;
          fps = map (message_fingerprint sha render) messages;
          st = st\<lparr>st_lock_wait_ns := st_lock_wait_ns st + waited\<rparr>
      in map_option (\<lambda>(out, st). (out, st\<lparr>st_lock_hold_ns := st_lock_hold_ns st + held\<rparr>))
           (assign_locked sha scope head fps now st))"

section \<open>Invariant\<close>

definition stitcher_ok :: "stitcher \<Rightarrow> bool" where
  "stitcher_ok st \<longleftrightarrow> distinct (map fst (st_states st)) \<and> st_capacity st \<noteq> 0"

lemma at_least_1_nz [simp]: "at_least_1 n \<noteq> 0"
  by (simp add: at_least_1_def)

lemma capacity_pos: "st_capacity st \<noteq> 0 \<Longrightarrow> 0 < capacity st"
  by (simp add: capacity_def usize_max_def unat_gt_0)

lemma limits_update [simp]:
  "ttl (st\<lparr>st_states := t\<rparr>) = ttl st" "capacity (st\<lparr>st_states := t\<rparr>) = capacity st"
  "ttl (st\<lparr>st_next_nonce := n\<rparr>) = ttl st" "capacity (st\<lparr>st_next_nonce := n\<rparr>) = capacity st"
  "ttl (st\<lparr>st_evicted := n\<rparr>) = ttl st" "capacity (st\<lparr>st_evicted := n\<rparr>) = capacity st"
  "ttl (st\<lparr>st_lock_hold_ns := n\<rparr>) = ttl st" "capacity (st\<lparr>st_lock_hold_ns := n\<rparr>) = capacity st"
  "ttl (st\<lparr>st_lock_wait_ns := n\<rparr>) = ttl st" "capacity (st\<lparr>st_lock_wait_ns := n\<rparr>) = capacity st"
  by (simp_all add: ttl_def capacity_def)

lemma distinct_remove_key [simp]: "distinct (map fst t) \<Longrightarrow> distinct (map fst (remove_key k t))"
  by (induction t) (auto simp: remove_key_def)

lemma keys_update_key [simp]: "map fst (update_key k f t) = map fst t"
  by (induction t) (auto simp: update_key_def)

lemma length_update_key [simp]: "length (update_key k f t) = length t"
  by (simp add: update_key_def)

lemma map_of_update_key: "map_of (update_key k f t) k' = (if k' = k then map_option f (map_of t k) else map_of t k')"
  by (induction t) (auto simp: update_key_def)

lemma map_of_remove_key: "map_of (remove_key k t) k' = (if k' = k then None else map_of t k')"
  by (induction t) (auto simp: remove_key_def)

lemma length_remove_key:
  assumes "k \<in> fst ` set t"
  shows "length (remove_key k t) < length t"
proof -
  from assms obtain s where "(k, s) \<in> set t" by force
  then show ?thesis unfolding remove_key_def by (intro length_filter_less) auto
qed

lemma map_of_filter:
  "distinct (map fst t) \<Longrightarrow>
     map_of (filter p t) k = (case map_of t k of Some s \<Rightarrow> if p (k, s) then Some s else None | None \<Rightarrow> None)"
proof (induction t)
  case Nil
  then show ?case by simp
next
  case (Cons a t)
  then have "fst a = k \<Longrightarrow> map_of t k = None" by (simp add: map_of_eq_None_iff)
  with Cons show ?case by (cases a) (auto split: option.splits)
qed

lemma evict_lru_nonempty:
  assumes "st_states st \<noteq> []"
  obtains k s where "(k, s) \<in> set (st_states st)"
    "evict_lru st = st\<lparr>st_states := remove_key k (st_states st), st_evicted := st_evicted st + 1\<rparr>"
    "\<forall>e \<in> set (st_states st). cs_last_used s \<le> cs_last_used (snd e)"
proof -
  let ?m = "min_by_key (\<lambda>(_, s). cs_last_used s) (st_states st)"
  from assms obtain k s where m: "?m = Some (k, s)"
    by (metis min_by_key_None not_None_eq surj_pair)
  show ?thesis
    by (rule that [OF min_by_key_mem [OF m]])
      (use m min_by_key_min [OF m] in \<open>auto simp: evict_lru_def\<close>)
qed

interpretation lru: eviction "\<lambda>st. cap \<le> length (st_states st)" evict_lru
  "\<lambda>st. length (st_states st)" "\<lambda>st. 0 < cap" for cap :: nat
proof unfold_locales
  fix st :: stitcher
  assume c: "0 < cap" "cap \<le> length (st_states st)"
  then have "st_states st \<noteq> []" by auto
  then obtain k s where "(k, s) \<in> set (st_states st)"
    "evict_lru st = st\<lparr>st_states := remove_key k (st_states st), st_evicted := st_evicted st + 1\<rparr>"
    by (rule evict_lru_nonempty)
  then show "length (st_states (evict_lru st)) < length (st_states st)"
    by (simp, intro length_remove_key) force
  show "0 < cap" by fact
qed

section \<open>What one request does\<close>

lemmas stitcher_defs = sweep_def drop_expired_def Let_def

definition prepare :: "nat \<Rightarrow> chain_key \<Rightarrow> stitcher \<Rightarrow> stitcher" where
  "prepare now key st = drop_expired now key (sweep now st)"

text \<open>The chain a request may extend: present and not expired.\<close>

definition live :: "nat \<Rightarrow> chain_key \<Rightarrow> stitcher \<Rightarrow> chain_state option" where
  "live now key st = opt_filter (fresh now (ttl st)) (map_of (st_states st) key)"

lemma sweep_keeps [simp]:
  "ttl (sweep now st) = ttl st" "capacity (sweep now st) = capacity st"
  "st_capacity (sweep now st) = st_capacity st" "st_salt (sweep now st) = st_salt st"
  "st_next_nonce (sweep now st) = st_next_nonce st" "st_evicted (sweep now st) = st_evicted st"
  by (simp_all add: sweep_def Let_def ttl_def capacity_def)

lemma sweep_states:
  "st_states (sweep now st) =
     (if SWEEP_INTERVAL_MS \<le> sat_sub_u64 (of_nat ((now - st_clock st) div 1000000)) (st_last_sweep_ms st)
      then filter (\<lambda>(_, s). fresh now (ttl st) s) (st_states st) else st_states st)"
  by (simp add: sweep_def Let_def)

lemma prepare_keeps [simp]:
  "ttl (prepare now key st) = ttl st" "capacity (prepare now key st) = capacity st"
  "st_capacity (prepare now key st) = st_capacity st" "st_salt (prepare now key st) = st_salt st"
  "st_next_nonce (prepare now key st) = st_next_nonce st"
  "st_evicted (prepare now key st) = st_evicted st"
  by (auto simp: prepare_def drop_expired_def ttl_def capacity_def split: option.split)
    (simp_all add: sweep_def Let_def)

lemma distinct_filter_keys: "distinct (map fst t) \<Longrightarrow> distinct (map fst (filter p t))"
  by (induction t) auto

lemma prepare_distinct:
  "distinct (map fst (st_states st)) \<Longrightarrow> distinct (map fst (st_states (prepare now key st)))"
  by (auto simp: prepare_def drop_expired_def sweep_states distinct_filter_keys split: option.split)

lemma prepare_subset: "set (st_states (prepare now key st)) \<subseteq> set (st_states st)"
  by (auto simp: prepare_def drop_expired_def sweep_states remove_key_def split: option.splits if_splits)

lemma prepare_length: "length (st_states (prepare now key st)) \<le> length (st_states st)"
proof -
  have "length (st_states (sweep now st)) \<le> length (st_states st)"
    by (simp add: sweep_states)
  moreover have "length (st_states (drop_expired now key s)) \<le> length (st_states s)" for s
    by (auto simp: drop_expired_def remove_key_def split: option.split)
  ultimately show ?thesis by (metis le_trans prepare_def)
qed

lemma prepare_live:
  assumes "distinct (map fst (st_states st))"
  shows "map_of (st_states (prepare now key st)) key = live now key st"
proof -
  have "map_of (st_states (sweep now st)) key = map_of (st_states st) key
      \<or> map_of (st_states (sweep now st)) key = live now key st"
    using assms by (auto simp: sweep_states live_def map_of_filter opt_filter_def split: option.split)
  then show ?thesis
    by (auto simp: prepare_def drop_expired_def live_def opt_filter_def map_of_remove_key
        split: option.splits if_splits)
qed

lemma make_room_spec:
  assumes "stitcher_ok st"
  obtains st' where "make_room st = Some st'" "length (st_states st') < capacity st"
    "st_salt st' = st_salt st" "st_next_nonce st' = st_next_nonce st"
    "st_capacity st' = st_capacity st" "capacity st' = capacity st" "ttl st' = ttl st"
    "set (st_states st') \<subseteq> set (st_states st)"
    "distinct (map fst (st_states st'))"
    "\<forall>e \<in> set (st_states st) - set (st_states st'). \<forall>e' \<in> set (st_states st').
       cs_last_used (snd e) \<le> cs_last_used (snd e')"
proof -
  let ?P = "\<lambda>u. st_salt u = st_salt st \<and> st_next_nonce u = st_next_nonce st
    \<and> st_capacity u = st_capacity st \<and> capacity u = capacity st \<and> ttl u = ttl st
    \<and> set (st_states u) \<subseteq> set (st_states st)
    \<and> distinct (map fst (st_states u))
    \<and> (\<forall>e \<in> set (st_states st) - set (st_states u). \<forall>e' \<in> set (st_states u).
         cs_last_used (snd e) \<le> cs_last_used (snd e'))"
  have pos: "0 < capacity st" using assms by (simp add: stitcher_ok_def capacity_pos)
  obtain st' where st': "make_room st = Some st'"
    using lru.evict_returns [OF pos] unfolding make_room_def Let_def by blast
  then have w: "while_option (\<lambda>u. capacity st \<le> length (st_states u)) evict_lru st = Some st'"
    by (simp add: make_room_def Let_def)
  have "?P st' \<and> 0 < capacity st"
  proof (rule lru.evict_keeps [OF w pos])
    show "?P st" using assms by (simp add: stitcher_ok_def)
    fix u assume pos: "0 < capacity st" and over: "capacity st \<le> length (st_states u)" and u: "?P u"
    from pos over have "st_states u \<noteq> []" by auto
    then obtain k s where ks: "(k, s) \<in> set (st_states u)"
      "evict_lru u = u\<lparr>st_states := remove_key k (st_states u), st_evicted := st_evicted u + 1\<rparr>"
      "\<forall>e \<in> set (st_states u). cs_last_used s \<le> cs_last_used (snd e)"
      by (rule evict_lru_nonempty)
    have sub: "set (remove_key k (st_states u)) \<subseteq> set (st_states u)"
      by (auto simp: remove_key_def)
    have "cs_last_used (snd e) \<le> cs_last_used (snd e')"
      if e: "e \<in> set (st_states st)" "e \<notin> set (remove_key k (st_states u))"
        and e': "e' \<in> set (remove_key k (st_states u))" for e e'
    proof (cases "e \<in> set (st_states u)")
      case False
      then show ?thesis using u e e' sub by blast
    next
      case True
      then have "fst e = k" using e(2) by (auto simp: remove_key_def)
      then have "e = (k, s)"
        using u True ks(1) by (metis eq_key_imp_eq_value prod.collapse)
      with ks(3) e' sub show ?thesis by auto
    qed
    then show "?P (evict_lru u)" using u sub ks(2) by auto
  qed
  then show ?thesis
    using that [OF st'] lru.evict_within [OF w] by auto
qed

text \<open>The answer to one request, from the state before it.\<close>

definition minted :: "(bytes \<Rightarrow> bytes) \<Rightarrow> bytes list \<Rightarrow> stitcher \<Rightarrow> string" where
  "minted sha fps st = session_id_of sha (st_salt st) (fps_concat fps) (st_next_nonce st)"

definition stitch_answer ::
  "(bytes \<Rightarrow> bytes) \<Rightarrow> chain_key \<Rightarrow> bytes list \<Rightarrow> nat \<Rightarrow> stitcher \<Rightarrow> string \<times> bool" where
  "stitch_answer sha key fps now st =
     (case live now key st of
        Some e \<Rightarrow> if extends_chain (cs_chain e) fps then (cs_session_id e, False)
                  else (minted sha fps st, True)
      | None \<Rightarrow> (minted sha fps st, False))"

lemma assign_locked_spec:
  assumes ok: "stitcher_ok st"
  obtains st' where
    "assign_locked sha scope head fps now st =
       Some (stitch_answer sha (scope, head) fps now st, st')"
    "stitcher_ok st'" "capacity st' = capacity st" "st_capacity st' = st_capacity st"
    "ttl st' = ttl st" "st_salt st' = st_salt st"
    "map_of (st_states st') (scope, head) =
       Some \<lparr>cs_chain = fps, cs_session_id = fst (stitch_answer sha (scope, head) fps now st),
             cs_last_used = now\<rparr>"
    "\<forall>e \<in> set (st_states st'). fst e \<noteq> (scope, head) \<longrightarrow> e \<in> set (st_states st)"
    "live now (scope, head) st = None \<longrightarrow> entries st' \<le> capacity st"
    "live now (scope, head) st \<noteq> None \<longrightarrow> entries st' \<le> entries st"
    "st_next_nonce st' = st_next_nonce st +
       (if \<exists>e. live now (scope, head) st = Some e \<and> extends_chain (cs_chain e) fps then 0 else 1)"
    "\<forall>e \<in> set (st_states st). fst e \<noteq> (scope, head) \<longrightarrow> fresh now (ttl st) (snd e) \<longrightarrow>
       e \<notin> set (st_states st') \<longrightarrow>
       (\<forall>e' \<in> set (st_states st'). fst e' \<noteq> (scope, head) \<longrightarrow>
          cs_last_used (snd e) \<le> cs_last_used (snd e'))"
proof -
  let ?key = "(scope, head)"
  let ?p = "prepare now ?key st"
  have dist: "distinct (map fst (st_states st))" and cap: "st_capacity st \<noteq> 0"
    using ok by (simp_all add: stitcher_ok_def)
  have pok: "stitcher_ok ?p" using dist cap by (simp add: stitcher_ok_def prepare_distinct)
  have lv: "map_of (st_states ?p) ?key = live now ?key st" using dist by (rule prepare_live)
  have sub: "set (st_states ?p) \<subseteq> set (st_states st)" by (rule prepare_subset)
  have kept: "e \<in> set (st_states ?p)"
    if "e \<in> set (st_states st)" "fst e \<noteq> ?key" "fresh now (ttl st) (snd e)" for e
    using that by (auto simp: prepare_def drop_expired_def sweep_states remove_key_def
        split: option.split)
  have unfold: "assign_locked sha scope head fps now st =
      (case live now ?key st of
        Some e \<Rightarrow>
          if extends_chain (cs_chain e) fps then
            Some ((cs_session_id e, False),
              ?p\<lparr>st_states := update_key ?key (\<lambda>e. e\<lparr>cs_last_used := now, cs_chain := fps\<rparr>) (st_states ?p)\<rparr>)
          else
            Some ((minted sha fps st, True),
              ?p\<lparr>st_next_nonce := st_next_nonce st + 1,
                 st_states := update_key ?key
                   (\<lambda>e. e\<lparr>cs_last_used := now, cs_chain := fps, cs_session_id := minted sha fps st\<rparr>)
                   (st_states ?p)\<rparr>)
      | None \<Rightarrow>
          Option.bind (make_room ?p) (\<lambda>u.
            Some ((minted sha fps u, False),
              u\<lparr>st_next_nonce := st_next_nonce u + 1,
                st_states := st_states u @
                  [(?key, \<lparr>cs_chain = fps, cs_session_id = minted sha fps u, cs_last_used = now\<rparr>)]\<rparr>)))"
    by (simp add: assign_locked_def prepare_def [symmetric] Let_def lv new_session_id_def minted_def
        split: option.split)
  have upd: "e \<in> set (st_states ?p)" if "e \<in> set (update_key ?key f (st_states ?p))" "fst e \<noteq> ?key" for e f
    using that by (auto simp: update_key_def split: if_splits prod.splits)
  have upd': "e \<in> set (update_key ?key f (st_states ?p))" if "e \<in> set (st_states ?p)" "fst e \<noteq> ?key" for e f
    using that by (auto simp: update_key_def split: prod.split intro!: image_eqI [of _ _ e])
  have len: "length (st_states ?p) \<le> length (st_states st)" by (rule prepare_length)
  show ?thesis
  proof (cases "live now ?key st")
    case None
    obtain u where u: "make_room ?p = Some u" "length (st_states u) < capacity ?p"
      "st_salt u = st_salt ?p" "st_next_nonce u = st_next_nonce ?p" "st_capacity u = st_capacity ?p"
      "capacity u = capacity ?p" "ttl u = ttl ?p" "set (st_states u) \<subseteq> set (st_states ?p)"
      "distinct (map fst (st_states u))"
      "\<forall>e \<in> set (st_states ?p) - set (st_states u). \<forall>e' \<in> set (st_states u).
         cs_last_used (snd e) \<le> cs_last_used (snd e')"
      by (rule make_room_spec [OF pok])
    have absent: "?key \<notin> fst ` set (st_states u)"
      using lv None u(8) by (auto simp: map_of_eq_None_iff)
    have m: "minted sha fps u = minted sha fps st" using u by (simp add: minted_def)
    let ?st' = "u\<lparr>st_next_nonce := st_next_nonce u + 1, st_states := st_states u @
        [(?key, \<lparr>cs_chain = fps, cs_session_id = minted sha fps u, cs_last_used = now\<rparr>)]\<rparr>"
    have get: "map_of (st_states u) ?key = None" using absent by (simp add: map_of_eq_None_iff)
    show ?thesis
      by (rule that [of ?st'])
        (use None u absent m get cap sub kept in \<open>auto simp: unfold stitch_answer_def stitcher_ok_def
           entries_def map_add_def\<close>)
  next
    case (Some e)
    show ?thesis
    proof (cases "extends_chain (cs_chain e) fps")
      case True
      let ?f = "\<lambda>e. e\<lparr>cs_last_used := now, cs_chain := fps\<rparr>"
      show ?thesis
        by (rule that [of "?p\<lparr>st_states := update_key ?key ?f (st_states ?p)\<rparr>"])
          (use Some True pok lv sub upd upd' kept len cap in \<open>auto simp: unfold stitch_answer_def
             stitcher_ok_def entries_def map_of_update_key\<close>)
    next
      case False
      let ?f = "\<lambda>e. e\<lparr>cs_last_used := now, cs_chain := fps, cs_session_id := minted sha fps st\<rparr>"
      show ?thesis
        by (rule that [of "?p\<lparr>st_next_nonce := st_next_nonce st + 1,
               st_states := update_key ?key ?f (st_states ?p)\<rparr>"])
          (use Some False pok lv sub upd upd' kept len cap in \<open>auto simp: unfold stitch_answer_def
             stitcher_ok_def entries_def map_of_update_key\<close>)
    qed
  qed
qed

section \<open>The stitcher's contract\<close>

abbreviation request_key :: "(bytes \<Rightarrow> bytes) \<Rightarrow> (json \<Rightarrow> string) \<Rightarrow> string \<Rightarrow> json list \<Rightarrow> chain_key" where
  "request_key sha render scope ms \<equiv> (scope, head_key sha render ms)"

lemma stitcher_wait [simp]:
  "stitcher_ok (st\<lparr>st_lock_wait_ns := w\<rparr>) = stitcher_ok st"
  "stitcher_ok (st\<lparr>st_lock_hold_ns := w\<rparr>) = stitcher_ok st"
  "live now key (st\<lparr>st_lock_wait_ns := w\<rparr>) = live now key st"
  "stitch_answer sha key fps now (st\<lparr>st_lock_wait_ns := w\<rparr>) = stitch_answer sha key fps now st"
  "entries (st\<lparr>st_lock_wait_ns := w\<rparr>) = entries st"
  "entries (st\<lparr>st_lock_hold_ns := w\<rparr>) = entries st"
  by (simp_all add: stitcher_ok_def live_def stitch_answer_def minted_def entries_def
      split: option.split)

lemma assign_session_spec:
  assumes ok: "stitcher_ok st"
  obtains st' where
    "assign_session sha render scope ms now w h st =
       Some (stitch_answer sha (request_key sha render scope ms)
               (map (message_fingerprint sha render) ms) now st, st')"
    "stitcher_ok st'" "capacity st' = capacity st" "st_capacity st' = st_capacity st"
    "ttl st' = ttl st" "st_salt st' = st_salt st"
    "map_of (st_states st') (request_key sha render scope ms) =
       Some \<lparr>cs_chain = map (message_fingerprint sha render) ms,
             cs_session_id = fst (stitch_answer sha (request_key sha render scope ms)
               (map (message_fingerprint sha render) ms) now st),
             cs_last_used = now\<rparr>"
    "\<forall>e \<in> set (st_states st'). fst e \<noteq> request_key sha render scope ms \<longrightarrow> e \<in> set (st_states st)"
    "live now (request_key sha render scope ms) st = None \<longrightarrow> entries st' \<le> capacity st"
    "live now (request_key sha render scope ms) st \<noteq> None \<longrightarrow> entries st' \<le> entries st"
    "st_next_nonce st' = st_next_nonce st +
       (if \<exists>e. live now (request_key sha render scope ms) st = Some e
              \<and> extends_chain (cs_chain e) (map (message_fingerprint sha render) ms) then 0 else 1)"
    "\<forall>e \<in> set (st_states st). fst e \<noteq> request_key sha render scope ms \<longrightarrow>
       fresh now (ttl st) (snd e) \<longrightarrow> e \<notin> set (st_states st') \<longrightarrow>
       (\<forall>e' \<in> set (st_states st'). fst e' \<noteq> request_key sha render scope ms \<longrightarrow>
          cs_last_used (snd e) \<le> cs_last_used (snd e'))"
proof -
  let ?w = "st\<lparr>st_lock_wait_ns := st_lock_wait_ns st + w\<rparr>"
  let ?head = "head_key sha render ms" and ?fps = "map (message_fingerprint sha render) ms"
  from ok have ok': "stitcher_ok ?w" by simp
  show ?thesis
  proof (rule assign_locked_spec [OF ok', of sha scope ?head ?fps now])
    fix u
    assume a: "assign_locked sha scope ?head ?fps now ?w =
        Some (stitch_answer sha (scope, ?head) ?fps now ?w, u)"
      and rest: "stitcher_ok u" "capacity u = capacity ?w" "st_capacity u = st_capacity ?w"
      "ttl u = ttl ?w" "st_salt u = st_salt ?w"
      "map_of (st_states u) (scope, ?head) = Some \<lparr>cs_chain = ?fps,
         cs_session_id = fst (stitch_answer sha (scope, ?head) ?fps now ?w), cs_last_used = now\<rparr>"
      "\<forall>e \<in> set (st_states u). fst e \<noteq> (scope, ?head) \<longrightarrow> e \<in> set (st_states ?w)"
      "live now (scope, ?head) ?w = None \<longrightarrow> entries u \<le> capacity ?w"
      "live now (scope, ?head) ?w \<noteq> None \<longrightarrow> entries u \<le> entries ?w"
      "st_next_nonce u = st_next_nonce ?w +
         (if \<exists>e. live now (scope, ?head) ?w = Some e \<and> extends_chain (cs_chain e) ?fps then 0 else 1)"
      "\<forall>e \<in> set (st_states ?w). fst e \<noteq> (scope, ?head) \<longrightarrow> fresh now (ttl ?w) (snd e) \<longrightarrow>
         e \<notin> set (st_states u) \<longrightarrow> (\<forall>e' \<in> set (st_states u). fst e' \<noteq> (scope, ?head) \<longrightarrow>
           cs_last_used (snd e) \<le> cs_last_used (snd e'))"
    show ?thesis
      by (rule that [of "u\<lparr>st_lock_hold_ns := st_lock_hold_ns u + h\<rparr>"])
        (use a rest in \<open>simp_all add: assign_session_def Let_def\<close>)
  qed
qed

lemma assign_session_some:
  assumes "stitcher_ok st"
  obtains sid b st' where "assign_session sha render scope ms now w h st = Some ((sid, b), st')"
proof -
  obtain st' where "assign_session sha render scope ms now w h st =
      Some (stitch_answer sha (request_key sha render scope ms)
              (map (message_fingerprint sha render) ms) now st, st')"
    by (rule assign_session_spec [OF assms])
  then show ?thesis by (metis surj_pair that)
qed

text \<open>C30 A request is always answered and the table stays bounded: from any well-formed state the
  critical section returns (the eviction loop ends), leaves a well-formed table with the same
  limits, never grows it past the larger of its size and the capacity, and a request that opens a
  chain brings even an over-full table (the capacity was lowered) back within the capacity.\<close>

theorem assign_returns_bounded:
  assumes "stitcher_ok st"
  shows "\<exists>out st'. assign_session sha render scope ms now w h st = Some (out, st')
     \<and> stitcher_ok st' \<and> capacity st' = capacity st
     \<and> entries st' \<le> max (entries st) (capacity st)
     \<and> (live now (request_key sha render scope ms) st = None \<longrightarrow> entries st' \<le> capacity st)"
  by (rule assign_session_spec [OF assms, of sha render scope ms now w h])
    (cases "live now (request_key sha render scope ms) st"; fastforce)

definition toy_sha :: "bytes \<Rightarrow> bytes" where
  "toy_sha bs = take 32 (bs @ replicate 32 (CHR 0x00))"

lemma with_limits_ok: "stitcher_ok (with_limits salt now c t)"
  by (simp add: stitcher_ok_def with_limits_def)

lemma assign_returns_bounded_witness:
  "\<exists>out st'. assign_session toy_sha (\<lambda>_. ''m'') ''k'' [JNull, JNull] 5 0 0 (with_limits [] 0 1 1000)
       = Some (out, st') \<and> stitcher_ok st'"
  using assign_returns_bounded [OF with_limits_ok] by blast

text \<open>C18 The answer to a request: a live chain that the request extends keeps its session without a
  breakpoint; a live chain it diverges from is broken, with a newly minted session; without a live
  chain the session is newly minted and nothing is asserted. The stored chain is the request's
  own. An expired chain counts as absent, whether or not the periodic sweep has run.\<close>

theorem assign_answer:
  assumes "stitcher_ok st"
  shows "\<exists>st'. assign_session sha render scope ms now w h st =
       Some (let fps = map (message_fingerprint sha render) ms in
             (case live now (request_key sha render scope ms) st of
                Some e \<Rightarrow> if extends_chain (cs_chain e) fps then (cs_session_id e, False)
                          else (minted sha fps st, True)
              | None \<Rightarrow> (minted sha fps st, False)), st')
     \<and> map_option cs_chain (map_of (st_states st') (request_key sha render scope ms))
         = Some (map (message_fingerprint sha render) ms)"
  by (rule assign_session_spec [OF assms, of sha render scope ms now w h])
    (simp add: stitch_answer_def Let_def)

lemma assign_answer_witness:
  "\<exists>st'. assign_session toy_sha (\<lambda>_. ''m'') ''k'' [JNull] 5 0 0 (with_limits [] 0 1 1000) =
     Some ((minted toy_sha [toy_sha ''m''] (with_limits [] 0 1 1000), False), st')"
  using assign_answer [OF with_limits_ok, of toy_sha "\<lambda>_. ''m''" "''k''" "[JNull]" 5 0 0 "[]" 0 1 1000]
  by (auto simp: live_def with_limits_def Let_def message_fingerprint_def)





section \<open>Reachable tables\<close>

text \<open>The states a stitcher goes through: requests and reloads of its limits, in any order;
  the counter is the number of requests.\<close>

inductive stitcher_reach ::
  "(bytes \<Rightarrow> bytes) \<Rightarrow> (json \<Rightarrow> string) \<Rightarrow> stitcher \<Rightarrow> nat \<Rightarrow> stitcher \<Rightarrow> bool"
  for sha :: "bytes \<Rightarrow> bytes" and render :: "json \<Rightarrow> string" and st0 :: stitcher where
  reach_init: "stitcher_reach sha render st0 0 st0"
| reach_assign: "stitcher_reach sha render st0 n st \<Longrightarrow>
    assign_session sha render scope ms now w h st = Some (out, st') \<Longrightarrow>
    stitcher_reach sha render st0 (Suc n) st'"
| reach_limits: "stitcher_reach sha render st0 n st \<Longrightarrow>
    stitcher_reach sha render st0 n (set_limits c t st)"

text \<open>Every session id in the table was minted with the nonce \<open>f key\<close>, no two with the same.\<close>

definition minted_with ::
  "(bytes \<Rightarrow> bytes) \<Rightarrow> (chain_key \<Rightarrow> nat) \<Rightarrow> nat \<Rightarrow> stitcher \<Rightarrow> bool" where
  "minted_with sha f m st \<longleftrightarrow> st_next_nonce st = of_nat m \<and> inj_on f (fst ` set (st_states st))
     \<and> (\<forall>e \<in> set (st_states st). f (fst e) < m
          \<and> (\<exists>seed. cs_session_id (snd e) = session_id_of sha (st_salt st) seed (of_nat (f (fst e)))))"

lemma minted_with_request:
  assumes ok: "stitcher_ok st" and mw: "minted_with sha f m st"
    and a: "assign_session sha render scope ms now w h st = Some (out, st')"
  shows "\<exists>f' m'. m' \<le> Suc m \<and> minted_with sha f' m' st'"
proof -
  let ?key = "request_key sha render scope ms" and ?fps = "map (message_fingerprint sha render) ms"
  obtain u where u: "assign_session sha render scope ms now w h st =
       Some (stitch_answer sha ?key ?fps now st, u)"
    "stitcher_ok u" "st_salt u = st_salt st"
    "map_of (st_states u) ?key = Some \<lparr>cs_chain = ?fps,
       cs_session_id = fst (stitch_answer sha ?key ?fps now st), cs_last_used = now\<rparr>"
    "\<forall>e \<in> set (st_states u). fst e \<noteq> ?key \<longrightarrow> e \<in> set (st_states st)"
    "st_next_nonce u = st_next_nonce st + (if \<exists>e. live now ?key st = Some e
       \<and> extends_chain (cs_chain e) ?fps then 0 else 1)"
    by (rule assign_session_spec [OF ok])
  have eq: "u = st'" using u(1) a by simp
  have own: "snd e = \<lparr>cs_chain = ?fps, cs_session_id = fst (stitch_answer sha ?key ?fps now st),
      cs_last_used = now\<rparr>" if "e \<in> set (st_states u)" "fst e = ?key" for e
  proof -
    from that have "map_of (st_states u) ?key = Some (snd e)"
      using u(2) by (intro map_of_is_SomeI) (auto simp: stitcher_ok_def, metis prod.collapse)
    with u(4) show ?thesis by simp
  qed
  show ?thesis
  proof (cases "\<exists>e. live now ?key st = Some e \<and> extends_chain (cs_chain e) ?fps")
    case True
    then obtain e where e: "live now ?key st = Some e" "extends_chain (cs_chain e) ?fps" by blast
    then have mem: "(?key, e) \<in> set (st_states st)" by (auto simp: live_def dest: map_of_SomeD)
    have sid: "fst (stitch_answer sha ?key ?fps now st) = cs_session_id e"
      using e by (simp add: stitch_answer_def)
    have "fst ` set (st_states u) \<subseteq> fst ` set (st_states st)"
      using u(5) mem by force
    then have "inj_on f (fst ` set (st_states u))"
      using mw by (auto simp: minted_with_def intro: inj_on_subset)
    moreover have "f (fst x) < m \<and> (\<exists>seed. cs_session_id (snd x) =
        session_id_of sha (st_salt u) seed (of_nat (f (fst x))))" if "x \<in> set (st_states u)" for x
      using mw mem u(3,5) own [OF that] sid that
      by (cases "fst x = ?key") (auto simp: minted_with_def, fastforce)
    moreover have "st_next_nonce u = of_nat m" using u(6) True mw by (simp add: minted_with_def)
    ultimately have "minted_with sha f m u" by (simp add: minted_with_def)
    then show ?thesis unfolding eq by (intro exI [of _ f] exI [of _ m]) simp
  next
    case False
    let ?f = "f(?key := m)"
    have sid: "fst (stitch_answer sha ?key ?fps now st) =
        session_id_of sha (st_salt st) (fps_concat ?fps) (of_nat m)"
      using False mw by (auto simp: stitch_answer_def minted_def minted_with_def split: option.split)
    have others: "f (fst x) < m" "x \<in> set (st_states st)"
      if "x \<in> set (st_states u)" "fst x \<noteq> ?key" for x
      using that u(5) mw by (auto simp: minted_with_def)
    have "inj_on ?f (fst ` set (st_states u))"
    proof (rule inj_onI)
      fix x y
      assume xy: "x \<in> fst ` set (st_states u)" "y \<in> fst ` set (st_states u)" "?f x = ?f y"
      then obtain a b where ab: "a \<in> set (st_states u)" "x = fst a" "b \<in> set (st_states u)" "y = fst b"
        by blast
      show "x = y"
      proof (cases "x = ?key \<or> y = ?key")
        case True
        then show ?thesis using xy(3) ab others by (fastforce split: if_splits)
      next
        case False
        with xy ab others have "f x = f y" "x \<in> fst ` set (st_states st)" "y \<in> fst ` set (st_states st)"
          by auto
        with mw show ?thesis by (auto simp: minted_with_def inj_on_def)
      qed
    qed
    moreover have "?f (fst x) < Suc m \<and> (\<exists>seed. cs_session_id (snd x) =
        session_id_of sha (st_salt u) seed (of_nat (?f (fst x))))" if "x \<in> set (st_states u)" for x
    proof (cases "fst x = ?key")
      case True
      then show ?thesis using own [OF that True] sid u(3) by auto
    next
      case False
      with others [OF that False] mw u(3) show ?thesis by (auto simp: minted_with_def)
    qed
    moreover have "st_next_nonce u = of_nat (Suc m)"
      using u(6) False mw by (simp add: minted_with_def)
    ultimately have "minted_with sha ?f (Suc m) u" by (simp add: minted_with_def)
    then show ?thesis unfolding eq by (intro exI [of _ ?f] exI [of _ "Suc m"]) simp
  qed
qed

lemma reach_minted:
  "stitcher_reach sha render st0 n st \<Longrightarrow> st0 = with_limits salt t0 c t \<Longrightarrow>
     stitcher_ok st \<and> (\<exists>f m. m \<le> n \<and> minted_with sha f m st)"
proof (induction rule: stitcher_reach.induct)
  case reach_init
  moreover have "minted_with sha (\<lambda>_. 0) 0 (with_limits salt t0 c t)"
    by (simp add: minted_with_def with_limits_def)
  ultimately show ?case using with_limits_ok by blast
next
  case (reach_assign n st scope ms now w h out st')
  then obtain f m where ok: "stitcher_ok st" and f: "m \<le> n" "minted_with sha f m st" by blast
  obtain u where "assign_session sha render scope ms now w h st = Some (stitch_answer sha
      (request_key sha render scope ms) (map (message_fingerprint sha render) ms) now st, u)"
    "stitcher_ok u" by (rule assign_session_spec [OF ok])
  with reach_assign have "stitcher_ok st'" by simp
  with minted_with_request [OF ok f(2) reach_assign(2)] f(1) show ?case
    by (meson Suc_le_mono le_trans)
next
  case (reach_limits n st c t)
  then show ?case by (auto simp: set_limits_def stitcher_ok_def minted_with_def)
qed

text \<open>C20 No two chains ever share a session: in every table reachable by requests and reloads
  (fewer requests than the nonce counter can count), the session ids of two different chains were
  minted with different nonces, whatever the histories of the chains.\<close>

theorem sessions_minted_apart:
  assumes "stitcher_reach sha render (with_limits salt t0 c t) n st" and "n < 2 ^ 64"
    and "e1 \<in> set (st_states st)" and "e2 \<in> set (st_states st)" and "fst e1 \<noteq> fst e2"
  shows "\<exists>seed1 n1 seed2 n2. n1 \<noteq> n2
     \<and> cs_session_id (snd e1) = session_id_of sha (st_salt st) seed1 n1
     \<and> cs_session_id (snd e2) = session_id_of sha (st_salt st) seed2 n2"
proof -
  from reach_minted [OF assms(1) refl] obtain f m where m: "m \<le> n" "minted_with sha f m st" by blast
  let ?a = "f (fst e1)" and ?b = "f (fst e2)"
  have ab: "?a < m" "?b < m" "?a \<noteq> ?b"
    using m(2) assms(3-5) by (auto simp: minted_with_def inj_on_def)
  then have "(of_nat ?a :: u64) \<noteq> of_nat ?b"
    using m(1) assms(2) by (auto simp: word_of_nat_eq_iff take_bit_nat_eq_self)
  with m(2) assms(3,4) show ?thesis unfolding minted_with_def by blast
qed

definition two_chains :: "((string \<times> bool) \<times> stitcher) option" where
  "two_chains =
     Option.bind (assign_session toy_sha (\<lambda>_. ''m'') ''a'' [JNull] 5 0 0 (with_limits [] 0 10 1000))
       (\<lambda>(_, st). assign_session toy_sha (\<lambda>_. ''m'') ''b'' [JNull] 6 0 0 st)"

lemma no_sweep: "now < 1000000 \<Longrightarrow> sweep now (with_limits salt 0 c t\<lparr>st_states := x, st_next_nonce := m,
    st_lock_wait_ns := w, st_lock_hold_ns := h\<rparr>) = with_limits salt 0 c t\<lparr>st_states := x,
    st_next_nonce := m, st_lock_wait_ns := w, st_lock_hold_ns := h\<rparr>"
  by (simp add: sweep_def with_limits_def SWEEP_INTERVAL_MS_def sat_sub_u64_def)

lemma new_chain_steps:
  assumes "now < 1000000" "map_of x (scope, head_key sha render ms) = None" "length x < 10"
  shows "assign_session sha render scope ms now 0 0
      (with_limits [] 0 10 1000\<lparr>st_states := x, st_next_nonce := m, st_lock_wait_ns := 0, st_lock_hold_ns := 0\<rparr>) =
    Some ((session_id_of sha [] (fps_concat (map (message_fingerprint sha render) ms)) m, False),
      with_limits [] 0 10 1000\<lparr>st_states := x @ [((scope, head_key sha render ms),
        \<lparr>cs_chain = map (message_fingerprint sha render) ms,
         cs_session_id = session_id_of sha [] (fps_concat (map (message_fingerprint sha render) ms)) m,
         cs_last_used = now\<rparr>)],
        st_next_nonce := m + 1, st_lock_wait_ns := 0, st_lock_hold_ns := 0\<rparr>)"
proof -
  let ?s = "with_limits [] 0 10 1000\<lparr>st_states := x, st_next_nonce := m, st_lock_wait_ns := 0, st_lock_hold_ns := 0\<rparr>"
  have "capacity ?s = 10"
    by (simp add: capacity_def with_limits_def at_least_1_def usize_max_def)
  then have r: "make_room ?s = Some ?s"
    using assms(3) by (simp add: make_room_def lru.evict_none)
  have w: "?s\<lparr>st_lock_wait_ns := st_lock_wait_ns ?s + 0\<rparr> = ?s" by simp
  show ?thesis
    unfolding assign_session_def Let_def w assign_locked_def no_sweep [OF assms(1)]
    using assms(2) r by (simp add: drop_expired_def new_session_id_def)
      (simp add: with_limits_def)
qed

lemma two_chains_keys: "map_option (\<lambda>r. map (fst \<circ> fst) (st_states (snd r))) two_chains = Some [''a'', ''b'']"
proof -
  let ?s = "with_limits [] 0 10 1000"
  have s: "?s = ?s\<lparr>st_states := [], st_next_nonce := 0, st_lock_wait_ns := 0, st_lock_hold_ns := 0\<rparr>"
    by (simp add: with_limits_def)
  show ?thesis
    unfolding two_chains_def
    by (subst s, subst new_chain_steps) (simp_all add: new_chain_steps)
qed

lemma sessions_minted_apart_witness:
  "\<exists>out st e1 e2 seed1 n1 seed2 n2. two_chains = Some (out, st) \<and> st_states st = [e1, e2]
     \<and> n1 \<noteq> n2
     \<and> cs_session_id (snd e1) = session_id_of toy_sha (st_salt st) seed1 n1
     \<and> cs_session_id (snd e2) = session_id_of toy_sha (st_salt st) seed2 n2"
proof -
  from two_chains_keys obtain out st where two: "two_chains = Some (out, st)"
    and k: "map (fst \<circ> fst) (st_states st) = [''a'', ''b'']" by auto
  then obtain e1 e2 where st: "st_states st = [e1, e2]" "fst (fst e1) = ''a''" "fst (fst e2) = ''b''"
    by (auto simp: map_eq_Cons_conv)
  then have neq: "fst e1 \<noteq> fst e2" by auto
  from two obtain o1 st1
    where a1: "assign_session toy_sha (\<lambda>_. ''m'') ''a'' [JNull] 5 0 0 (with_limits [] 0 10 1000) = Some (o1, st1)"
      and a2: "assign_session toy_sha (\<lambda>_. ''m'') ''b'' [JNull] 6 0 0 st1 = Some (out, st)"
    by (auto simp: two_chains_def bind_eq_Some_conv)
  have r: "stitcher_reach toy_sha (\<lambda>_. ''m'') (with_limits [] 0 10 1000) (Suc (Suc 0)) st"
    by (rule reach_assign [OF reach_assign [OF reach_init a1] a2])
  have m: "e1 \<in> set (st_states st)" "e2 \<in> set (st_states st)" using st(1) by simp_all
  have lt: "Suc (Suc 0) < 2 ^ 64" by simp
  from sessions_minted_apart [OF r lt m neq] two st(1) show ?thesis by blast
qed

end
