(* ===== verification/Store.thy ===== *)
theory Store
  imports Model Eviction
begin

text \<open>
  \<open>src/trace/store.rs\<close>: the bounded window of turn records. The mutex-protected \<open>StoreInner\<close> is
  the state; an operation is one critical section. \<open>waited\<close> and \<open>held\<close> are the measured
  durations of the lock.
\<close>

record store =
  deque :: "turn_record list"
  estimated_bytes :: nat
  dropped :: u64
  store_wait_ns :: u64
  store_hold_ns :: u64
  max_records :: u64
  max_store_bytes :: u64

definition with_caps :: "nat \<Rightarrow> nat \<Rightarrow> store" where
  "with_caps records bytes = \<lparr>deque = [], estimated_bytes = 0, dropped = 0, store_wait_ns = 0,
     store_hold_ns = 0, max_records = of_nat (max records 1), max_store_bytes = of_nat (max bytes 1)\<rparr>"

definition default_store :: store where
  "default_store = with_caps 1000 (256 * 2 ^ 20)"

definition set_caps :: "u64 \<Rightarrow> u64 \<Rightarrow> store \<Rightarrow> store" where
  "set_caps records bytes s = s\<lparr>max_records := (if records = 0 then 1 else records),
     max_store_bytes := (if bytes = 0 then 1 else bytes)\<rparr>"

definition estimate :: "turn_record \<Rightarrow> nat" where
  "estimate r = length (raw_request r) + length (raw_response r) + length (user_input r)
     + length (final_output r)"

text \<open>The loop of \<open>push\<close>: its condition (with the \<open>break\<close> on an empty deque) and its body.\<close>

definition over_budget :: "nat \<Rightarrow> store \<Rightarrow> bool" where
  "over_budget sz s \<longleftrightarrow>
     (unat (max_records s) \<le> length (deque s)
      \<or> min (unat (max_store_bytes s)) usize_max < sat_add (estimated_bytes s) sz)
     \<and> deque s \<noteq> []"

definition drop_oldest :: "store \<Rightarrow> store" where
  "drop_oldest s =
     (case deque s of
        old # rest \<Rightarrow> s\<lparr>deque := rest, estimated_bytes := estimated_bytes s - estimate old,
                        dropped := dropped s + 1\<rparr>
      | [] \<Rightarrow> s)"

definition push :: "u64 \<Rightarrow> u64 \<Rightarrow> turn_record \<Rightarrow> store \<Rightarrow> store option" where
  "push waited held r s =
     (let s = s\<lparr>store_wait_ns := store_wait_ns s + waited\<rparr>;
          sz = estimate r
      in map_option (\<lambda>s.
           s\<lparr>estimated_bytes := sat_add (estimated_bytes s) sz,
             deque := deque s @ [r],
             store_hold_ns := store_hold_ns s + held\<rparr>)
           (while_option (over_budget sz) drop_oldest s))"

definition snapshot_bounded :: "nat \<Rightarrow> nat \<Rightarrow> store \<Rightarrow> turn_record list" where
  "snapshot_bounded limit offset s =
     (let total = length (deque s);
          end = total - offset;
          start = end - (if limit = 0 then total else limit);
          count = end - start
      in take count (drop start (deque s)))"

definition lock_ns_totals :: "store \<Rightarrow> u64 \<times> u64" where
  "lock_ns_totals s = (store_wait_ns s, store_hold_ns s)"

section \<open>Invariant\<close>

definition total_size :: "turn_record list \<Rightarrow> nat" where
  "total_size rs = sum_list (map estimate rs)"

text \<open>The byte account is exact and the caps are at least one.\<close>

definition store_ok :: "store \<Rightarrow> bool" where
  "store_ok s \<longleftrightarrow> estimated_bytes s = total_size (deque s) \<and> estimated_bytes s \<le> usize_max
     \<and> max_records s \<noteq> 0 \<and> max_store_bytes s \<noteq> 0"

lemma total_size_simps [simp]:
  "total_size [] = 0" "total_size (r # rs) = estimate r + total_size rs"
  "total_size (rs @ ts) = total_size rs + total_size ts"
  by (simp_all add: total_size_def)

lemma with_caps_ok: "r < 2 ^ 64 \<Longrightarrow> b < 2 ^ 64 \<Longrightarrow> store_ok (with_caps r b)"
  by (simp add: store_ok_def with_caps_def word_of_nat_eq_0_iff nat_dvd_not_less max_def)

lemma set_caps_ok [step_inv]: "store_ok s \<Longrightarrow> store_ok (set_caps r b s)"
  by (simp add: store_ok_def set_caps_def)

interpretation budget: eviction "over_budget sz" drop_oldest "\<lambda>s. length (deque s)" "\<lambda>_. True"
  for sz
  by unfold_locales (auto simp: over_budget_def drop_oldest_def split: list.split)

text \<open>Whether the new record of \<open>sz\<close> bytes fits once the \<open>k\<close> oldest are gone.\<close>

definition fits :: "store \<Rightarrow> nat \<Rightarrow> nat \<Rightarrow> bool" where
  "fits s sz k \<longleftrightarrow> length (deque s) - k < unat (max_records s)
     \<and> total_size (drop k (deque s)) + sz \<le> unat (max_store_bytes s)"

lemma u64_le_usize: "unat (n :: u64) \<le> usize_max"
proof -
  have "unat n < 2 ^ 64" using unsigned_less [of n, where ?'a = nat] by simp
  then show ?thesis by (simp add: usize_max_def)
qed

lemma push_loop:
  assumes ok: "store_ok s" and sz: "total_size (deque s) + sz \<le> usize_max"
    and w: "while_option (over_budget sz) drop_oldest s = Some t"
  shows "\<exists>k \<le> length (deque s). deque t = drop k (deque s) \<and> dropped t = dropped s + of_nat k
     \<and> (\<forall>j<k. \<not> fits s sz j) \<and> (k = length (deque s) \<or> fits s sz k)
     \<and> estimated_bytes t = total_size (drop k (deque s)) \<and> estimated_bytes t \<le> usize_max
     \<and> max_records t = max_records s \<and> max_store_bytes t = max_store_bytes s
     \<and> store_wait_ns t = store_wait_ns s \<and> store_hold_ns t = store_hold_ns s"
proof -
  let ?P = "\<lambda>u k. k \<le> length (deque s) \<and> deque u = drop k (deque s) \<and> dropped u = dropped s + of_nat k
     \<and> (\<forall>j<k. \<not> fits s sz j)
     \<and> estimated_bytes u = total_size (drop k (deque s)) \<and> estimated_bytes u \<le> usize_max
     \<and> max_records u = max_records s \<and> max_store_bytes u = max_store_bytes s
     \<and> store_wait_ns u = store_wait_ns s \<and> store_hold_ns u = store_hold_ns s"
  have over: "over_budget sz u \<longleftrightarrow> deque u \<noteq> [] \<and> \<not> fits s sz k" if "?P u k" for u k
  proof -
    have "total_size (drop k (deque s)) \<le> total_size (deque s)"
      by (metis append_take_drop_id le_add2 total_size_simps(3))
    then have "sat_add (total_size (drop k (deque s))) sz = total_size (drop k (deque s)) + sz"
      using sz by (simp add: sat_add_le)
    then show ?thesis
      using that u64_le_usize [of "max_store_bytes s"]
      by (auto simp: over_budget_def fits_def min_def)
  qed
  have "(\<exists>k. ?P t k) \<and> True"
  proof (rule budget.evict_keeps [OF w])
    show "\<exists>k. ?P s k" using ok by (intro exI [of _ 0]) (simp add: store_ok_def)
    fix u assume "over_budget sz u" "\<exists>k. ?P u k"
    then obtain k where k: "?P u k" and o: "over_budget sz u" by blast
    with over [OF k] have ne: "drop k (deque s) \<noteq> []" and nf: "\<not> fits s sz k" by auto
    then obtain old where d: "drop k (deque s) = old # drop (Suc k) (deque s)"
      by (metis drop_eq_Nil Cons_nth_drop_Suc not_le)
    have "k < length (deque s)" using ne by simp
    with d have "?P (drop_oldest u) (Suc k)"
      using k nf by (auto simp: drop_oldest_def less_Suc_eq)
    then show "\<exists>k. ?P (drop_oldest u) k" by blast
  qed simp
  then obtain k where k: "?P t k" by blast
  from budget.evict_within [OF w] over [OF k] k have "k = length (deque s) \<or> fits s sz k" by auto
  with k show ?thesis by blast
qed

text \<open>C21 Pushing a record evicts exactly as much as needed: the push returns, the window keeps the
  newest records in order and ends with the new one, the number dropped is the least with which
  the new record fits both budgets (all of them if it never fits), the drop counter advances by
  that number, and the byte account stays exact.\<close>

theorem push_evicts_least:
  assumes "store_ok s" and "total_size (deque s) + estimate r \<le> usize_max"
  shows "\<exists>t k. push waited held r s = Some t \<and> k \<le> length (deque s)
     \<and> deque t = drop k (deque s) @ [r] \<and> dropped t = dropped s + of_nat k
     \<and> (\<forall>j<k. \<not> fits s (estimate r) j) \<and> (k = length (deque s) \<or> fits s (estimate r) k)
     \<and> store_ok t"
proof -
  let ?s = "s\<lparr>store_wait_ns := store_wait_ns s + waited\<rparr>"
  have ok: "store_ok ?s" using assms(1) by (simp add: store_ok_def)
  obtain u where w: "while_option (over_budget (estimate r)) drop_oldest ?s = Some u"
    using budget.evict_returns by blast
  have sz: "total_size (deque ?s) + estimate r \<le> usize_max" using assms(2) by simp
  from push_loop [OF ok sz w] obtain k where k: "k \<le> length (deque s)"
    "deque u = drop k (deque s)" "dropped u = dropped s + of_nat k"
    "\<forall>j<k. \<not> fits s (estimate r) j" "k = length (deque s) \<or> fits s (estimate r) k"
    "estimated_bytes u = total_size (drop k (deque s))"
    "max_records u = max_records s" "max_store_bytes u = max_store_bytes s"
    by (auto simp: fits_def)
  have "total_size (drop k (deque s)) + estimate r \<le> usize_max"
    using assms(2) by (metis add_le_mono1 append_take_drop_id le_add2 le_trans total_size_simps(3))
  then show ?thesis
    using k assms(1) w
    by (intro exI [of _ "u\<lparr>estimated_bytes := sat_add (estimated_bytes u) (estimate r),
          deque := deque u @ [r], store_hold_ns := store_hold_ns u + held\<rparr>"] exI [of _ k])
      (simp add: push_def Let_def store_ok_def sat_add_le)
qed

lemma push_evicts_least_witness:
  "\<exists>t. push 0 0 (default_turn\<lparr>raw_request := ''abc''\<rparr>) (with_caps 1 10) = Some t
     \<and> deque t = [default_turn\<lparr>raw_request := ''abc''\<rparr>] \<and> store_ok t"
proof -
  have ok: "store_ok (with_caps 1 10)" by (rule with_caps_ok) simp_all
  have e: "total_size (deque (with_caps 1 10)) + estimate (default_turn\<lparr>raw_request := ''abc''\<rparr>) \<le> usize_max"
    by (simp add: estimate_def default_turn_def usize_max_def with_caps_def)
  from push_evicts_least [OF ok e, of 0 0] show ?thesis by (auto simp: with_caps_def)
qed

section \<open>Snapshots\<close>

lemma snapshot_eq:
  "0 < limit \<Longrightarrow> snapshot_bounded limit offset s =
     drop (length (deque s) - offset - limit) (take (length (deque s) - offset) (deque s))"
  by (simp add: snapshot_bounded_def Let_def drop_take)

text \<open>Paging through the window loses and repeats nothing: the pages of any positive size,
  offset by multiples of it and put back oldest first, are exactly the window, once there are
  enough of them.\<close>

theorem snapshot_pages:
  assumes "0 < limit" and "length (deque s) \<le> pages * limit"
  shows "concat (map (\<lambda>i. snapshot_bounded limit (i * limit) s) (rev [0..<pages])) = deque s"
proof -
  let ?n = "length (deque s)"
  have "concat (map (\<lambda>i. snapshot_bounded limit (i * limit) s) (rev [0..<k])) =
      drop (?n - k * limit) (deque s)" for k
  proof (induction k)
    case 0
    then show ?case by simp
  next
    case (Suc k)
    have "drop (?n - Suc k * limit) (deque s) =
        drop (?n - Suc k * limit) (take (?n - k * limit) (deque s)) @ drop (?n - k * limit) (deque s)"
      by (metis append_take_drop_id diff_le_mono2 drop_append drop_eq_Nil length_take
          min.absorb2 diff_le_self diff_is_0_eq drop_0 mult_le_mono1 le_Suc_eq order_refl)
    then show ?case
      using Suc assms(1) by (simp add: snapshot_eq diff_diff_left add.commute)
  qed
  from this [of pages] assms(2) show ?thesis by simp
qed

lemma snapshot_pages_witness:
  "concat (map (\<lambda>i. snapshot_bounded 2 (i * 2) (with_caps 5 5\<lparr>deque := [default_turn, default_turn, default_turn]\<rparr>))
     (rev [0..<2])) = [default_turn, default_turn, default_turn]"
  using snapshot_pages [of 2 "with_caps 5 5\<lparr>deque := [default_turn, default_turn, default_turn]\<rparr>" 2]
  by simp

end
