(* ===== verification/Export_Pool.thy ===== *)
theory Export_Pool
  imports Export_Url Refinement "HOL-Library.Multiset"
begin

text \<open>
  The exporter of \<open>src/trace/export.rs\<close>: the bounded queue, the batcher task, the flush pool with
  its permits, the counters and the hot-swapped target. Records are of any type \<open>'r\<close>.

  The state holds the shared handles (queue, counters, target, enabled flag, configured width,
  queued permit delta), the semaphore, the locals of the batcher (\<open>buf\<close>, \<open>last_flush\<close>,
  \<open>pending_forget\<close>, and where in its loop it stands) and the running flush tasks. One step is what
  one thread does between two points where another may interfere: a submit, a reload, one await of
  the batcher, or the end of a flush task. The answer of the endpoint, the clock and the
  scheduling are the events. \<open>None\<close> means that the event cannot happen in this state.

  The semaphore and the channel are tokio's: \<open>forget_permits\<close> forgets what is available,
  \<open>try_send\<close> fails on a full or closed channel; a semaphore has at most \<open>MAX_PERMITS\<close> permits, so a
  reload that asks for a larger pool is not an event of the model.
\<close>

section \<open>State\<close>

definition QUEUE_CAPACITY :: nat where "QUEUE_CAPACITY = 1024"
definition BATCH_INTERVAL :: nat where "BATCH_INTERVAL = 500"
definition BATCH_MAX :: nat where "BATCH_MAX = 32"
definition MAX_PERMITS :: nat where "MAX_PERMITS = 2 ^ 61 - 1"

record export_health =
  exported :: u64
  failed :: u64
  dropped :: u64
  panicked :: u64
  inflight :: u64

datatype 'r phase =
    Receiving
  | Adjusting
  | Checking
  | Parked bool flush_target "'r list"  \<comment> \<open>awaiting a permit; the flag: shutting down\<close>
  | Tail
  | Joining
  | Stopped

record 'r exporter =
  tx_queue :: "'r list"
  senders_gone :: bool
  health :: export_health
  width :: u64                          \<comment> \<open>\<open>max_inflight\<close>\<close>
  workers :: nat
  target :: "flush_target option"
  client :: nat                         \<comment> \<open>generation of the shared HTTP client\<close>
  sema_delta :: u64                     \<comment> \<open>an \<open>i64\<close>\<close>
  enabled :: bool
  permits :: nat
  pool :: "(flush_target \<times> 'r list) list"
  buf :: "'r list"
  last_flush :: nat
  pending_forget :: nat
  phase :: "'r phase"

definition health_zero :: export_health where
  "health_zero = \<lparr>exported = 0, failed = 0, dropped = 0, panicked = 0, inflight = 0\<rparr>"

definition start ::
  "(bytes \<Rightarrow> string) \<Rightarrow> string \<Rightarrow> u64 \<Rightarrow> nat \<Rightarrow> nat \<Rightarrow> 'r exporter option" where
  "start b64 endpoint max_infl wrk now =
     map_option (\<lambda>initial_target.
        \<lparr>tx_queue = [], senders_gone = False, health = health_zero, width = max max_infl 1,
         workers = max wrk 1, target = initial_target, client = 0, sema_delta = 0,
         enabled = (initial_target \<noteq> None), permits = unat (max max_infl 1), pool = [], buf = [],
         last_flush = now, pending_forget = 0, phase = Receiving\<rparr>)
       (build_target b64 endpoint)"

section \<open>Operations of the handle\<close>

definition target_changed :: "flush_target option \<Rightarrow> flush_target option \<Rightarrow> bool" where
  "target_changed old new =
     (case (old, new) of
        (Some o', Some n) \<Rightarrow> ft_endpoint o' \<noteq> ft_endpoint n \<or> ft_auth_header o' \<noteq> ft_auth_header n
      | (None, Some _) \<Rightarrow> True
      | (Some _, None) \<Rightarrow> True
      | (None, None) \<Rightarrow> False)"

definition apply_target :: "(bytes \<Rightarrow> string) \<Rightarrow> string \<Rightarrow> u64 \<Rightarrow> 'r exporter \<Rightarrow> 'r exporter option" where
  "apply_target b64 endpoint max_infl s =
     map_option (\<lambda>new_target.
        let changed = target_changed (target s) new_target;
            t = (if changed then new_target else target s);
            new_width = max max_infl 1
        in s\<lparr>target := t, client := (if changed then client s + 1 else client s),
             enabled := (t \<noteq> None), width := new_width,
             sema_delta := sema_delta s + (new_width - width s)\<rparr>)
       (build_target b64 endpoint)"

definition count_dropped :: "nat \<Rightarrow> export_health \<Rightarrow> export_health" where
  "count_dropped n h = h\<lparr>dropped := dropped h + of_nat n\<rparr>"

definition count_failed :: "nat \<Rightarrow> export_health \<Rightarrow> export_health" where
  "count_failed n h = h\<lparr>failed := failed h + of_nat n\<rparr>"

definition submit :: "'r \<Rightarrow> 'r exporter \<Rightarrow> 'r exporter" where
  "submit record s =
     (if \<not> enabled s then s
      else if length (tx_queue s) < QUEUE_CAPACITY \<and> phase s \<noteq> Stopped
      then s\<lparr>tx_queue := tx_queue s @ [record]\<rparr>
      else s\<lparr>health := count_dropped 1 (health s)\<rparr>)"

definition queue_depth :: "'r exporter \<Rightarrow> nat" where
  "queue_depth s = (if \<not> enabled s then 0 else QUEUE_CAPACITY - (QUEUE_CAPACITY - length (tx_queue s)))"

definition queue_capacity :: "'r exporter \<Rightarrow> nat" where
  "queue_capacity s = (if enabled s then QUEUE_CAPACITY else 0)"

definition max_inflight_now :: "'r exporter \<Rightarrow> u64" where
  "max_inflight_now s = (if \<not> enabled s then 0 else width s)"

definition workers_now :: "'r exporter \<Rightarrow> nat" where
  "workers_now s = (if enabled s then workers s else 0)"

section \<open>The batcher\<close>

datatype recv_result = Got | Elapsed | Closed

definition recv_pass :: "recv_result \<Rightarrow> 'r exporter \<Rightarrow> 'r exporter option" where
  "recv_pass rcv s =
     (case (rcv, tx_queue s) of
        (Got, rec # rest) \<Rightarrow> Some (s\<lparr>tx_queue := rest, buf := buf s @ [rec], phase := Adjusting\<rparr>)
      | (Elapsed, []) \<Rightarrow> (if senders_gone s then None else Some (s\<lparr>phase := Adjusting\<rparr>))
      | (Closed, []) \<Rightarrow> (if senders_gone s then Some (s\<lparr>phase := Tail\<rparr>) else None)
      | _ \<Rightarrow> None)"

definition forget_permits :: "'r exporter \<Rightarrow> 'r exporter" where
  "forget_permits s =
     (if 0 < pending_forget s
      then let k = min (pending_forget s) (permits s)
           in s\<lparr>permits := permits s - k, pending_forget := pending_forget s - k\<rparr>
      else s)"

definition adjust_width :: "'r exporter \<Rightarrow> 'r exporter" where
  "adjust_width s =
     (let delta = sint (sema_delta s);
          s = s\<lparr>sema_delta := 0\<rparr>;
          s = (if 0 < delta then s\<lparr>permits := permits s + nat delta\<rparr>
               else if delta < 0 then s\<lparr>pending_forget := pending_forget s + nat (- delta)\<rparr>
               else s)
      in (forget_permits s)\<lparr>phase := Checking\<rparr>)"

text \<open>\<open>a || b && c\<close> of the source: the conjunction binds tighter.\<close>

definition not_due :: "nat \<Rightarrow> 'r exporter \<Rightarrow> bool" where
  "not_due now s \<longleftrightarrow>
     buf s = [] \<or> (now - last_flush s < BATCH_INTERVAL \<and> length (buf s) < BATCH_MAX)"

definition ship :: "bool \<Rightarrow> 'r phase \<Rightarrow> 'r exporter \<Rightarrow> 'r exporter" where
  "ship tail cont s =
     (case target s of
        Some t \<Rightarrow> s\<lparr>phase := Parked tail t (buf s), buf := []\<rparr>
      | None \<Rightarrow> s\<lparr>health := count_dropped (length (buf s)) (health s), buf := [], phase := cont\<rparr>)"

definition check_pass :: "nat \<Rightarrow> 'r exporter \<Rightarrow> 'r exporter" where
  "check_pass now s =
     (if not_due now s then s\<lparr>phase := Receiving\<rparr>
      else ship False Receiving (s\<lparr>last_flush := now\<rparr>))"

definition tail_pass :: "'r exporter \<Rightarrow> 'r exporter" where
  "tail_pass s = (if buf s \<noteq> [] then ship True Joining s else s\<lparr>phase := Joining\<rparr>)"

text \<open>The rest of \<open>dispatch_batch\<close> once a permit is free: the gauge rises, the task is spawned.\<close>

definition dispatch_batch :: "'r exporter \<Rightarrow> 'r exporter option" where
  "dispatch_batch s =
     (case phase s of
        Parked tail t batch \<Rightarrow>
          if 0 < permits s
          then Some (s\<lparr>permits := permits s - 1,
                       health := (health s)\<lparr>inflight := inflight (health s) + 1\<rparr>,
                       pool := pool s @ [(t, batch)],
                       phase := (if tail then Joining else Receiving)\<rparr>)
          else None
      | _ \<Rightarrow> None)"

section \<open>The flush tasks\<close>

datatype answer = Answered nat | Unreachable

text \<open>How a flush task ends: \<open>flush_batch\<close> returns, or something panics before it has booked the
  batch, or the log line after a failure panics (\<open>eprintln!\<close> does on a write error).\<close>

datatype flush_end = Ended answer | Panicked_sending | Panicked_logging

definition flush_books :: "answer \<Rightarrow> nat \<Rightarrow> export_health \<Rightarrow> export_health" where
  "flush_books a n h =
     (case a of
        Answered status \<Rightarrow>
          if 200 \<le> status \<and> status < 300 then h\<lparr>exported := exported h + of_nat n\<rparr>
          else count_failed n h
      | Unreachable \<Rightarrow> count_failed n h)"

text \<open>\<open>Drop\<close> of the booking.\<close>

definition booking_drop :: "bool \<Rightarrow> nat \<Rightarrow> export_health \<Rightarrow> export_health" where
  "booking_drop completed records h =
     (let h = h\<lparr>inflight := inflight h - 1\<rparr> in
      if completed then h
      else let h = count_failed records h in h\<lparr>panicked := panicked h + 1\<rparr>)"

definition task_books :: "flush_end \<Rightarrow> nat \<Rightarrow> export_health \<Rightarrow> export_health" where
  "task_books fe n h =
     (case fe of
        Ended a \<Rightarrow> booking_drop True n (flush_books a n h)
      | Panicked_sending \<Rightarrow> booking_drop False n h
      | Panicked_logging \<Rightarrow> booking_drop False n (flush_books Unreachable n h))"

definition remove_nth :: "nat \<Rightarrow> 'a list \<Rightarrow> 'a list" where
  "remove_nth i xs = take i xs @ drop (Suc i) xs"

definition finish_task :: "nat \<Rightarrow> flush_end \<Rightarrow> 'r exporter \<Rightarrow> 'r exporter option" where
  "finish_task i fe s =
     (if i < length (pool s)
      then Some (s\<lparr>pool := remove_nth i (pool s), permits := permits s + 1,
                   health := task_books fe (length (snd (pool s ! i))) (health s)\<rparr>)
      else None)"

section \<open>Steps\<close>

datatype 'r event =
    Submit 'r
  | Reload string u64
  | Senders_gone
  | Receive recv_result
  | Adjust
  | Check nat
  | Dispatch
  | Finish nat flush_end
  | Ship_tail
  | Join

fun pool_step :: "(bytes \<Rightarrow> string) \<Rightarrow> 'r exporter \<Rightarrow> 'r event \<Rightarrow> 'r exporter option" where
  "pool_step b64 s (Submit r) = (if senders_gone s then None else Some (submit r s))"
| "pool_step b64 s (Reload endpoint n) =
     (if senders_gone s \<or> MAX_PERMITS < unat (max n 1) then None else apply_target b64 endpoint n s)"
| "pool_step b64 s Senders_gone =
     (if senders_gone s then None else Some (s\<lparr>senders_gone := True\<rparr>))"
| "pool_step b64 s (Receive rcv) = (if phase s = Receiving then recv_pass rcv s else None)"
| "pool_step b64 s Adjust = (if phase s = Adjusting then Some (adjust_width s) else None)"
| "pool_step b64 s (Check now) = (if phase s = Checking then Some (check_pass now s) else None)"
| "pool_step b64 s Dispatch = dispatch_batch s"
| "pool_step b64 s (Finish i fe) = finish_task i fe s"
| "pool_step b64 s Ship_tail = (if phase s = Tail then Some (tail_pass s) else None)"
| "pool_step b64 s Join =
     (if phase s = Joining \<and> pool s = [] then Some (s\<lparr>phase := Stopped\<rparr>) else None)"

end
