(* ===== verification/Gateway.thy ===== *)
theory Gateway
  imports Relay Evidence Prefix Store Export_Pool
begin

text \<open>
  The hooks of \<open>Gateway\<close> in \<open>src/lib.rs\<close> that turn a request into a record: \<open>push_record\<close>, the body
  and response filters of the pump (with the WebSocket turns), and \<open>logging\<close>. Each hook is a
  function of the gateway's components and the request's context.

  Parameters, in the record \<open>env\<close>: the readers of \<open>serde_json\<close>, its printer, sha256, and
  \<open>HeaderValue::to_str\<close>. Clock readings and lock times are arguments. A result \<open>None\<close> can only
  come from the eviction loops of the store and the stitcher, which are shown to end.

  The hooks' \<open>catch_unwind\<close> has no counterpart: no definition here panics.
\<close>

section \<open>State\<close>

record env =
  env_parse :: "string \<Rightarrow> json option"
  env_render :: "json \<Rightarrow> string"
  env_sha :: "bytes \<Rightarrow> bytes"
  env_to_str :: "bytes \<Rightarrow> string option"

record gateway =
  gw_trace_off :: bool
  gw_listen :: string
  gw_cap :: capture_cap
  gw_stitcher :: stitcher
  gw_store :: store
  gw_exporter :: "turn_record exporter"
  failed_frames :: u64
  turns_total :: u64
  loose_path_matches :: u64
  turns_with_session :: u64
  turns_with_harness :: u64
  hdr_evidence_dropped :: u64
  gw_worker_threads :: nat
  gw_gauges :: gauges

record request =
  rq_path :: string
  rq_headers :: "(string \<times> bytes) list"

text \<open>\<open>HeaderMap::get\<close> is the first value of a name.\<close>

definition header_get :: "env \<Rightarrow> request \<Rightarrow> string \<Rightarrow> string option" where
  "header_get env rq name = Option.bind (map_of (rq_headers rq) name) (env_to_str env)"

record log_clock =
  lc_exit :: u64                 \<comment> \<open>at \<open>exit_request\<close>\<close>
  lc_end :: u64                  \<comment> \<open>the end of the turn\<close>
  lc_stitch :: nat
  lc_stitch_lock :: "u64 \<times> u64"  \<comment> \<open>waited, held\<close>
  lc_store_lock :: "u64 \<times> u64"

definition push_record :: "u64 \<times> u64 \<Rightarrow> turn_record \<Rightarrow> gateway \<Rightarrow> gateway option" where
  "push_record lock r g =
     map_option (\<lambda>s. g\<lparr>gw_store := s, gw_exporter := submit r (gw_exporter g)\<rparr>)
       (push (fst lock) (snd lock) r (gw_store g))"

section \<open>The pump's filters\<close>

definition capture_request :: "bytes option \<Rightarrow> gateway \<Rightarrow> ctx \<Rightarrow> ctx" where
  "capture_request body g c =
     (case body of
        Some b \<Rightarrow> if \<not> gw_trace_off g then c\<lparr>req_buf := req_buf c @ b\<rparr> else c
      | None \<Rightarrow> c)"

definition ws_client_chunk :: "env \<Rightarrow> bytes \<Rightarrow> ctx \<Rightarrow> ctx" where
  "ws_client_chunk env b c =
     (let (payloads, p) = ws_push b (ws_client_parser c)
      in c\<lparr>ws_client_parser := p,
           ws_turn_state := fold (apply_client_frame (env_parse env)) payloads (ws_turn_state c)\<rparr>)"

definition request_body_filter :: "env \<Rightarrow> bool \<Rightarrow> bytes option \<Rightarrow> gateway \<Rightarrow> ctx \<Rightarrow> ctx" where
  "request_body_filter env upgraded body g c =
     (if upgraded then (case body of Some b \<Rightarrow> ws_client_chunk env b c | None \<Rightarrow> c)
      else capture_request body g c)"

definition upstream_response_filter :: "u64 \<Rightarrow> nat \<Rightarrow> string option \<Rightarrow> gateway \<Rightarrow> ctx \<Rightarrow> ctx \<times> gateway" where
  "upstream_response_filter now st ctype g c =
     (let (c, gs) = mark_upstream_head now c (gw_gauges g)
      in (c\<lparr>resp_status := st,
            resp_content_type := (case ctype of Some t \<Rightarrow> t | None \<Rightarrow> resp_content_type c)\<rparr>,
          g\<lparr>gw_gauges := gs\<rparr>))"

text \<open>One server frame of an upgraded connection. \<open>at\<close>: the clock at the frame.\<close>

definition count_hdr_dropped :: "u32 \<Rightarrow> gateway \<Rightarrow> gateway" where
  "count_hdr_dropped n g =
     (if 0 < n then g\<lparr>hdr_evidence_dropped := hdr_evidence_dropped g + ucast n\<rparr> else g)"

definition ws_server_frame ::
  "env \<Rightarrow> request \<Rightarrow> u64 \<Rightarrow> u64 \<times> u64 \<Rightarrow> bytes \<Rightarrow> ctx \<times> gateway \<Rightarrow> (ctx \<times> gateway) option" where
  "ws_server_frame env rq at lock payload cg =
     (let (c, g) = cg;
          c = (if ws_active (ws_turn_state c) \<and> first_output_ns c = None
               then c\<lparr>first_output_ns := Some at\<rparr> else c);
          (rec, t) = apply_server_frame (env_parse env) payload (ws_turn_state c);
          c = c\<lparr>ws_turn_state := t\<rparr>
      in case rec of
           None \<Rightarrow> Some (c, g)
         | Some r \<Rightarrow>
             let c = c\<lparr>rt_end_ns := at\<rparr>;
                 (evidence, n) = collect_hdr_evidence (env_to_str env) (rq_headers rq);
                 r = r\<lparr>start_ns := rt_start_ns c, end_ns := rt_end_ns c,
                       completion_start_ns := first_output_ns c,
                       trace_tag := tr_tag (c_trace (sn_cfg (snap c))),
                       hdr_evidence := evidence\<rparr>;
                 c = c\<lparr>first_output_ns := None\<rparr>
             in map_option (Pair c) (push_record lock r (count_hdr_dropped n g)))"

fun ws_server_frames ::
  "env \<Rightarrow> request \<Rightarrow> u64 \<Rightarrow> u64 \<times> u64 \<Rightarrow> bytes list \<Rightarrow> ctx \<times> gateway \<Rightarrow> (ctx \<times> gateway) option" where
  "ws_server_frames env rq at lock [] cg = Some cg"
| "ws_server_frames env rq at lock (p # ps) cg =
     Option.bind (ws_server_frame env rq at lock p cg) (ws_server_frames env rq at lock ps)"

definition ws_server_chunk ::
  "env \<Rightarrow> request \<Rightarrow> u64 \<Rightarrow> u64 \<times> u64 \<Rightarrow> bytes \<Rightarrow> ctx \<times> gateway \<Rightarrow> (ctx \<times> gateway) option" where
  "ws_server_chunk env rq at lock b cg =
     (let (payloads, p) = ws_push b (ws_server_parser (fst cg))
      in ws_server_frames env rq at lock payloads ((fst cg)\<lparr>ws_server_parser := p\<rparr>, snd cg))"

definition capture_response :: "u64 \<Rightarrow> bytes option \<Rightarrow> gateway \<Rightarrow> ctx \<Rightarrow> ctx" where
  "capture_response at body g c =
     (case body of
        None \<Rightarrow> c
      | Some b \<Rightarrow>
          let c = (if resp_buf c = [] \<and> b \<noteq> [] then c\<lparr>first_output_ns := Some at\<rparr> else c)
          in if \<not> gw_trace_off g then c\<lparr>resp_buf := resp_buf c @ b\<rparr> else c)"

definition response_body_filter ::
  "env \<Rightarrow> request \<Rightarrow> u64 \<Rightarrow> u64 \<times> u64 \<Rightarrow> bool \<Rightarrow> bytes option \<Rightarrow> bool \<Rightarrow> ctx \<times> gateway \<Rightarrow>
     (ctx \<times> gateway) option" where
  "response_body_filter env rq at lock upgraded body at_end cg =
     (let (c, g) = cg;
          c = (if at_end then c\<lparr>response_complete := True,
                 body_end_ns := (if body_end_ns c = None then Some at else body_end_ns c)\<rparr> else c)
      in if upgraded
         then (case body of Some b \<Rightarrow> ws_server_chunk env rq at lock b (c, g) | None \<Rightarrow> Some (c, g))
         else Some (capture_response at body g c, g))"

section \<open>The end of a request\<close>

record session_error =
  se_text :: string
  se_downstream :: bool

text \<open>Whether the client cancelled, and the marker of a failure below the protocol.\<close>

definition session_verdict :: "session_error option \<Rightarrow> ctx \<Rightarrow> bool \<times> string option" where
  "session_verdict e c =
     (case e of
        Some e \<Rightarrow>
          (case classify_session_error (se_text e) (se_downstream e) (resp_status c) (response_complete c) of
             IdleNoise \<Rightarrow> (client_dead c, None)
           | ClientCancelled \<Rightarrow> (True, None)
           | ProxyError \<Rightarrow> (client_dead c, Some (''proxy_error: '' @ se_text e)))
      | None \<Rightarrow>
          (case relay_error c of
             Some marker \<Rightarrow> (client_dead c, Some marker)
           | None \<Rightarrow>
               if 400 \<le> resp_status c
               then (client_dead c, Some (''http_status: '' @ show_nat (resp_status c)))
               else (client_dead c, None)))"

definition shell_record :: "string \<Rightarrow> bool \<Rightarrow> string option \<Rightarrow> ctx \<Rightarrow> turn_record" where
  "shell_record proto was_cancelled http_error c = default_turn\<lparr>
     protocol := proto, turn_error := http_error, cancelled := was_cancelled,
     drain_timed_out := ctx_timed_out c, start_ns := rt_start_ns c, end_ns := rt_end_ns c,
     completion_start_ns := first_output_ns c, trace_tag := tr_tag (c_trace (sn_cfg (snap c)))\<rparr>"

text \<open>The session of the turn: what the request states, or the stitcher's.\<close>

record turn_session =
  ts_id :: string
  ts_source :: string
  ts_breakpoint :: bool
  ts_synthetic :: bool

definition may_stitch :: "turn_facts option \<Rightarrow> bool" where
  "may_stitch tf =
     (case tf of
        Some f \<Rightarrow> tf_stitch_eligible f
                  \<and> (case tf_messages f of Some m \<Rightarrow> 2 \<le> length m | None \<Rightarrow> False)
      | None \<Rightarrow> False)"

definition stated_session :: "turn_facts option \<Rightarrow> turn_session" where
  "stated_session tf = \<lparr>ts_id = unwrap_or [] (Option.bind tf tf_session_id),
     ts_source = unwrap_or [] (map_option tf_session_source tf), ts_breakpoint = False,
     ts_synthetic = False\<rparr>"

definition settle_session ::
  "env \<Rightarrow> request \<Rightarrow> log_clock \<Rightarrow> turn_facts option \<Rightarrow> gateway \<Rightarrow> (turn_session \<times> gateway) option" where
  "settle_session env rq clk tf g =
     (let ts = stated_session tf in
      if ts_id ts = [] \<and> may_stitch tf
      then (case Option.bind tf tf_messages of
              Some messages \<Rightarrow>
                map_option (\<lambda>((synthetic, is_bp), st).
                    (\<lparr>ts_id = synthetic, ts_source = ''stitcher'', ts_breakpoint = is_bp,
                      ts_synthetic = (synthetic \<noteq> [])\<rparr>, g\<lparr>gw_stitcher := st\<rparr>))
                  (assign_session (env_sha env) (env_render env)
                     (unwrap_or [] (header_get env rq ''authorization'')) messages (lc_stitch clk)
                     (fst (lc_stitch_lock clk)) (snd (lc_stitch_lock clk)) (gw_stitcher g))
            | None \<Rightarrow> Some (ts, g))
      else Some (ts, g))"

definition count_session :: "turn_session \<Rightarrow> gateway \<Rightarrow> gateway" where
  "count_session ts g =
     (if ts_id ts \<noteq> [] \<and> \<not> ts_synthetic ts
      then g\<lparr>turns_with_session := turns_with_session g + 1\<rparr> else g)"

definition count_turn :: "harness_facts \<Rightarrow> gateway \<Rightarrow> gateway" where
  "count_turn hfacts g =
     (let g = g\<lparr>turns_total := turns_total g + 1\<rparr> in
      if hf_identity hfacts \<noteq> None
      then g\<lparr>turns_with_harness := turns_with_harness g + 1\<rparr> else g)"

text \<open>The captured response, with the marker of a drain that ran past the cap.\<close>

definition captured_response :: "capture_cap \<Rightarrow> ctx \<Rightarrow> string" where
  "captured_response cap c =
     (let raw = bound cap (resp_buf c) in
      if 0 < drain_overflow c
      then raw @ truncation_marker (sat_add (length (resp_buf c)) (unat (drain_overflow c))) (length (resp_buf c))
      else raw)"

text \<open>The content of an event stream: the drain's accumulator, else the captured bytes.\<close>

definition stream_content ::
  "env \<Rightarrow> descriptor \<Rightarrow> ctx \<Rightarrow>
     (string \<times> turn_usage option \<times> tool_call list \<times> string option \<times> u32) \<times> ctx" where
  "stream_content env d c =
     (case drain_acc c of
        Some acc \<Rightarrow>
          (let out = drain_finish (env_parse env) (env_render env) d (acc, drain_tail c)
           in ((so_text out, so_usage out, so_tools out, so_error out, so_frame_errors out),
               c\<lparr>drain_acc := None, drain_tail := []\<rparr>))
      | None \<Rightarrow> (reassemble_sse (env_parse env) (env_render env) (d_name d) (resp_buf c), c))"

definition count_frames :: "u32 \<Rightarrow> gateway \<Rightarrow> gateway" where
  "count_frames n g =
     (if 0 < n then g\<lparr>failed_frames := failed_frames g + ucast n\<rparr> else g)"

text \<open>What every kind of record of the turn carries.\<close>

record turn_parts =
  tp_proto :: string
  tp_facts :: "turn_facts option"
  tp_harness :: harness_facts
  tp_client_ua :: string
  tp_evidence :: "(string \<times> string) list"
  tp_fp :: string
  tp_enrich :: "(string \<times> string) list"
  tp_session :: turn_session
  tp_raw_request :: string
  tp_raw_response :: string
  tp_cancelled :: bool
  tp_http_error :: "string option"

definition fact :: "(turn_facts \<Rightarrow> string) \<Rightarrow> turn_parts \<Rightarrow> string" where
  "fact f p = unwrap_or [] (map_option f (tp_facts p))"

definition stream_record ::
  "turn_parts \<Rightarrow> string \<times> turn_usage option \<times> tool_call list \<times> string option \<times> u32 \<Rightarrow> ctx \<Rightarrow>
     turn_record" where
  "stream_record p content c =
     (let (txt, us, tools, err, _) = content
      in \<lparr>protocol = tp_proto p, session_id = ts_id (tp_session p), user_input = fact tf_user_input p,
          final_output = txt, raw_request = tp_raw_request p, raw_response = tp_raw_response p,
          tool_calls = tools, breakpoint = ts_breakpoint (tp_session p), start_ns = rt_start_ns c,
          end_ns = rt_end_ns c, usage = us, model_name = fact tf_model_name p,
          user_id = fact tf_user_id p, turn_error = or_else err (tp_http_error p),
          harness = harness_label (tp_harness p), dialect = hf_dialect (tp_harness p),
          client_ua = tp_client_ua p, hdr_evidence = tp_evidence p,
          session_source = ts_source (tp_session p), cancelled = tp_cancelled p,
          drain_timed_out = ctx_timed_out c, api_key_fp = tp_fp p,
          harness_candidates = hf_candidates (tp_harness p),
          harness_anomaly = hf_anomaly (tp_harness p), harness_enrich = tp_enrich p,
          session_synthetic = ts_synthetic (tp_session p), completion_start_ns = first_output_ns c,
          trace_tag = tr_tag (c_trace (sn_cfg (snap c)))\<rparr>)"

definition rest_record :: "turn_parts \<Rightarrow> turn_record \<Rightarrow> ctx \<Rightarrow> turn_record" where
  "rest_record p r c = r\<lparr>
     session_id := ts_id (tp_session p), breakpoint := ts_breakpoint (tp_session p),
     harness := harness_label (tp_harness p), dialect := hf_dialect (tp_harness p),
     client_ua := tp_client_ua p, hdr_evidence := tp_evidence p,
     session_source := ts_source (tp_session p), api_key_fp := tp_fp p,
     harness_candidates := hf_candidates (tp_harness p), harness_anomaly := hf_anomaly (tp_harness p),
     harness_enrich := tp_enrich p, session_synthetic := ts_synthetic (tp_session p),
     completion_start_ns := Some (rt_start_ns c), turn_error := or_else (turn_error r) (tp_http_error p),
     cancelled := tp_cancelled p, drain_timed_out := ctx_timed_out c,
     trace_tag := tr_tag (c_trace (sn_cfg (snap c))), raw_request := tp_raw_request p,
     raw_response := tp_raw_response p, start_ns := rt_start_ns c, end_ns := rt_end_ns c\<rparr>"

definition minimal_record :: "turn_parts \<Rightarrow> ctx \<Rightarrow> turn_record" where
  "minimal_record p c = default_turn\<lparr>
     protocol := tp_proto p, session_id := ts_id (tp_session p), user_input := fact tf_user_input p,
     raw_request := tp_raw_request p, raw_response := tp_raw_response p,
     harness := harness_label (tp_harness p), harness_candidates := hf_candidates (tp_harness p),
     harness_anomaly := hf_anomaly (tp_harness p), harness_enrich := tp_enrich p,
     session_synthetic := ts_synthetic (tp_session p), hdr_evidence := tp_evidence p,
     session_source := ts_source (tp_session p), turn_error := tp_http_error p,
     start_ns := rt_start_ns c, end_ns := rt_end_ns c, cancelled := tp_cancelled p,
     drain_timed_out := ctx_timed_out c, trace_tag := tr_tag (c_trace (sn_cfg (snap c))),
     model_name := fact tf_model_name p\<rparr>"

text \<open>The part of the record assembly before the response is read: the facts, the counters, the
  session, the captured bytes.\<close>

definition gather ::
  "env \<Rightarrow> request \<Rightarrow> log_clock \<Rightarrow> descriptor \<Rightarrow> bool \<Rightarrow> string option \<Rightarrow> ctx \<Rightarrow> gateway \<Rightarrow>
     (turn_parts \<times> json option \<times> gateway) option" where
  "gather env rq clk d was_cancelled http_error c g =
     (let proto = d_name d;
          get = header_get env rq;
          req = parse_body (env_parse env) (req_buf c);
          ua = get ''user-agent'';
          hfacts = identify (env_parse env) proto req ua get;
          client = unwrap_or [] (map_option (\<lambda>u. truncate_header_value u HDR_VALUE_CAP) ua);
          (evidence, n) = collect_hdr_evidence (env_to_str env) (rq_headers rq);
          g = count_hdr_dropped n g;
          fp = request_api_key_fp (env_sha env) proto get (salt (c_api_key (sn_cfg (snap c))));
          tf = Option.bind req (\<lambda>r. turn_facts_of (env_parse env) (env_render env) proto r get hfacts);
          g = count_turn hfacts g;
          enriched = unwrap_or [] (map_option (enrich (env_parse env) hfacts) req)
      in map_option (\<lambda>(ts, g).
           (\<lparr>tp_proto = proto, tp_facts = tf, tp_harness = hfacts, tp_client_ua = client,
             tp_evidence = evidence, tp_fp = fp, tp_enrich = enriched, tp_session = ts,
             tp_raw_request = bound (gw_cap g) (req_buf c),
             tp_raw_response = captured_response (gw_cap g) c,
             tp_cancelled = was_cancelled, tp_http_error = http_error\<rparr>, req, count_session ts g))
           (settle_session env rq clk tf g))"

text \<open>The record of the turn, if it has one.\<close>

definition finish_turn ::
  "env \<Rightarrow> log_clock \<Rightarrow> descriptor \<Rightarrow> turn_parts \<Rightarrow> json option \<Rightarrow> ctx \<Rightarrow> gateway \<Rightarrow>
     (ctx \<times> gateway) option" where
  "finish_turn env clk d p req c g =
     (if looks_like_sse (resp_content_type c) then
        (let (content, c) = stream_content env d c;
             (_, _, _, _, frame_errors) = content;
             g = count_frames frame_errors g;
             c = c\<lparr>rt_end_ns := lc_end clk\<rparr>
         in map_option (Pair c) (push_record (lc_store_lock clk) (stream_record p content c) g))
      else
        (case unpack_nonstreaming (env_parse env) (env_render env) (d_name d) req (resp_buf c) of
           Some r \<Rightarrow>
             (let c = c\<lparr>rt_end_ns := lc_end clk\<rparr>
              in map_option (Pair c) (push_record (lc_store_lock clk) (rest_record p r c) g))
         | None \<Rightarrow>
             if tp_http_error p \<noteq> None \<or> (relay_done c \<and> tp_cancelled p)
             then (let c = c\<lparr>rt_end_ns := lc_end clk\<rparr>
                   in map_option (Pair c) (push_record (lc_store_lock clk) (minimal_record p c) g))
             else Some (c, g)))"

text \<open>\<open>logging\<close>: the turn of a request that is to be recorded, and the whole hook.\<close>

definition record_turn ::
  "env \<Rightarrow> request \<Rightarrow> log_clock \<Rightarrow> descriptor \<Rightarrow> session_error option \<Rightarrow> ctx \<Rightarrow> gateway \<Rightarrow>
     (ctx \<times> gateway) option" where
  "record_turn env rq clk d e c g =
     (let (was_cancelled, http_error) = session_verdict e c in
      if gw_trace_off g
      then (let c = c\<lparr>rt_end_ns := lc_end clk\<rparr>;
                g = g\<lparr>turns_total := turns_total g + 1\<rparr>
            in map_option (Pair c) (push_record (lc_store_lock clk)
                 (shell_record (d_name d) was_cancelled http_error c) g))
      else Option.bind (gather env rq clk d was_cancelled http_error c g)
             (\<lambda>(p, req, g). finish_turn env clk d p req c g))"

definition logging ::
  "env \<Rightarrow> request \<Rightarrow> log_clock \<Rightarrow> session_error option \<Rightarrow> ctx \<Rightarrow> gateway \<Rightarrow> (ctx \<times> gateway) option" where
  "logging env rq clk e c g =
     (let matched = detect_path_fail_open (env_render env) (rq_path rq);
          g = g\<lparr>gw_gauges := exit_request (lc_exit clk) (matched \<noteq> None) c (gw_gauges g)\<rparr>
      in case matched of
           None \<Rightarrow> Some (c, g)
         | Some m \<Rightarrow>
             let g = (if loose m then g\<lparr>loose_path_matches := loose_path_matches g + 1\<rparr> else g);
                 record_allowed = (loose m \<longrightarrow> 200 \<le> resp_status c \<and> resp_status c < 300)
             in if loose m \<and> \<not> record_allowed then Some (c, g)
                else record_turn env rq clk (pm_descriptor m) e c g)"

end
