(* ===== verification/Relay_Laws.thy ===== *)
theory Relay_Laws
  imports Relay
begin

text \<open>
  What the owned relay promises: a turn drained after the client's death has the content of the
  whole upstream stream; the raw capture and its overflow counter account for every byte; the drain
  window is respected; and where it is not.
\<close>

section \<open>What no step changes\<close>

lemma begin_drain_frame:
  "begin_drain parse render d now c = (c', dl) \<Longrightarrow>
     snap c' = snap c \<and> resp_content_type c' = resp_content_type c \<and> resp_buf c' = resp_buf c \<and>
     drain_overflow c' = drain_overflow c \<and> client_dead c' = client_dead c \<and>
     dl = now + unat (timeout_secs (c_drain (sn_cfg (snap c)))) * 1000000000"
  by (auto simp: begin_drain_def Let_def split: if_splits prod.splits)

lemma drain_chunk_frame:
  "snap (drain_chunk parse render d cap bs c) = snap c
   \<and> resp_content_type (drain_chunk parse render d cap bs c) = resp_content_type c
   \<and> client_dead (drain_chunk parse render d cap bs c) = client_dead c
   \<and> resp_buf (drain_chunk parse render d cap bs c) = resp_buf (drain_capture cap bs c)
   \<and> drain_overflow (drain_chunk parse render d cap bs c) = drain_overflow (drain_capture cap bs c)"
  by (auto simp: drain_chunk_def drain_capture_def Let_def split: option.split prod.split)

lemma first_output_frame [simp]:
  "snap (first_output wall bs c) = snap c"
  "resp_content_type (first_output wall bs c) = resp_content_type c"
  "client_dead (first_output wall bs c) = client_dead c"
  "resp_buf (first_output wall bs c) = resp_buf c"
  "drain_overflow (first_output wall bs c) = drain_overflow c"
  "drain_acc (first_output wall bs c) = drain_acc c"
  "drain_tail (first_output wall bs c) = drain_tail c"
  by (simp_all add: first_output_def)

lemma lose_client_frame [simp]:
  "snap (p_ctx (lose_client parse render d now p)) = snap (p_ctx p)"
  "resp_content_type (p_ctx (lose_client parse render d now p)) = resp_content_type (p_ctx p)"
  "client_dead (p_ctx (lose_client parse render d now p))"
  "resp_buf (p_ctx (lose_client parse render d now p)) = resp_buf (p_ctx p)"
  "drain_overflow (p_ctx (lose_client parse render d now p)) = drain_overflow (p_ctx p)"
  "drains (p_ctx p) \<Longrightarrow> p_over (lose_client parse render d now p) = p_over p"
  "drains (p_ctx p) \<Longrightarrow> p_deadline (lose_client parse render d now p) =
     Some (now + unat (timeout_secs (c_drain (sn_cfg (snap (p_ctx p))))) * 1000000000)"
  using begin_drain_frame [of parse render d now "(p_ctx p)\<lparr>client_dead := True\<rparr>"]
  by (auto simp: lose_client_def Let_def split: prod.split)

section \<open>The content of a drained turn\<close>

text \<open>The invariant of an SSE pump with the drain switch on and the bytes \<open>seen\<close> from upstream.\<close>

definition pump_ok ::
  "(string \<Rightarrow> json option) \<Rightarrow> (json \<Rightarrow> string) \<Rightarrow> descriptor \<Rightarrow> bytes \<Rightarrow> pump \<Rightarrow> bool" where
  "pump_ok parse render d seen p \<longleftrightarrow>
     looks_like_sse (resp_content_type (p_ctx p)) \<and> drains (p_ctx p)
     \<and> (case drain_acc (p_ctx p) of
          Some acc \<Rightarrow> client_dead (p_ctx p) \<and> drained parse render d seen acc (drain_tail (p_ctx p))
        | None \<Rightarrow> drain_tail (p_ctx p) = [] \<and> resp_buf (p_ctx p) = seen
                  \<and> (client_dead (p_ctx p) \<longrightarrow> seen = []))"

lemma lose_client_ok:
  assumes "looks_like_sse (resp_content_type (p_ctx p))" "drains (p_ctx p)"
    and "drain_acc (p_ctx p) = None" "drain_tail (p_ctx p) = []" "resp_buf (p_ctx p) = seen"
  shows "pump_ok parse render d seen (lose_client parse render d now p)"
proof -
  obtain acc tail where f: "drain_feed parse render d seen (empty_accum, []) = (acc, tail)"
    by fastforce
  with drained_feed [OF drained_start f] assms show ?thesis
    by (simp add: lose_client_def begin_drain_def Let_def pump_ok_def)
qed

lemma drain_chunk_ok:
  assumes "pump_ok parse render d seen p" "client_dead (p_ctx p)"
  shows "pump_ok parse render d (seen @ bs) (p\<lparr>p_ctx := drain_chunk parse render d cap bs (p_ctx p)\<rparr>)"
proof (cases "drain_acc (p_ctx p)")
  case None
  obtain acc tail where f: "drain_feed parse render d bs (empty_accum, []) = (acc, tail)"
    by fastforce
  with drained_feed [OF drained_start f] assms None show ?thesis
    by (simp add: pump_ok_def drain_chunk_def drain_capture_def Let_def)
next
  case (Some a)
  obtain acc tail where f: "drain_feed parse render d bs (a, drain_tail (p_ctx p)) = (acc, tail)"
    by fastforce
  have "drained parse render d seen a (drain_tail (p_ctx p))"
    using assms(1) Some by (simp add: pump_ok_def)
  from drained_feed [OF this f] f assms Some show ?thesis
    by (simp add: pump_ok_def drain_chunk_def drain_capture_def Let_def)
qed

lemma pump_ok_step:
  assumes "pump_ok parse render d seen p" "pump_step parse render d p e = Some p'"
  shows "pump_ok parse render d (seen @ chunk_bytes e) p'"
proof (cases e)
  case (Chunk bs wall now ok cap)
  define q where "q = p\<lparr>p_ctx := first_output wall bs (p_ctx p)\<rparr>"
  have q: "pump_ok parse render d seen q"
    using assms(1) by (simp add: q_def pump_ok_def cong: option.case_cong)
  show ?thesis
  proof (cases "client_dead (p_ctx p)")
    case True
    with drain_chunk_ok [OF q, of bs cap] assms Chunk show ?thesis
      by (auto simp: q_def pump_ok_def split: if_splits)
  next
    case False
    let ?r = "p\<lparr>p_ctx := (p_ctx q)\<lparr>resp_buf := resp_buf (p_ctx q) @ bs\<rparr>\<rparr>"
    from False q have r: "pump_ok parse render d (seen @ bs) ?r" "drain_acc (p_ctx ?r) = None"
      by (auto simp: pump_ok_def q_def split: option.splits)
    with lose_client_ok [of ?r "seen @ bs"] have "pump_ok parse render d (seen @ bs) (lose_client parse render d now ?r)"
      by (simp add: pump_ok_def)
    with r assms(2) Chunk False show ?thesis
      by (auto simp: q_def Let_def split: if_splits)
  qed
next
  case (Client_gone now)
  with assms(2) have "\<not> client_dead (p_ctx p)" and p': "p' = lose_client parse render d now p"
    by (auto split: if_splits)
  with assms(1) have "pump_ok parse render d seen (lose_client parse render d now p)"
    by (intro lose_client_ok) (auto simp: pump_ok_def split: option.splits)
  with Client_gone p' show ?thesis by simp
qed (use assms in \<open>auto simp: pump_ok_def cong: option.case_cong split: if_splits\<close>)

lemma pump_ok_run:
  "pump_ok parse render d seen p \<Longrightarrow> run (pump_step parse render d) p es = Some p' \<Longrightarrow>
     pump_ok parse render d (seen @ received es) p'"
proof (induction es arbitrary: seen p)
  case (Cons e es)
  from Cons.prems(2) obtain q where "pump_step parse render d p e = Some q"
    "run (pump_step parse render d) q es = Some p'"
    by (auto split: Option.bind_splits)
  with Cons.IH [OF pump_ok_step [OF Cons.prems(1)]] show ?case by force
qed simp

lemma pump_ok_outcome:
  "pump_ok parse render d seen p \<Longrightarrow>
     relay_outcome parse render d (p_ctx p) = stream_response parse render d seen"
  by (auto simp: pump_ok_def relay_outcome_def drained_outcome split: option.splits)

lemma read_upload_frame:
  "read_upload us c = Some (c', go) \<Longrightarrow>
     snap c' = snap c \<and> drain_acc c' = drain_acc c \<and> drain_tail c' = drain_tail c \<and>
     resp_buf c' = resp_buf c \<and> drain_overflow c' = drain_overflow c \<and>
     client_dead c' = (client_dead c \<or> \<not> go)"
  by (induction us c rule: read_upload.induct) auto

text \<open>The loop is entered with nothing captured.\<close>

lemma relay_head_pump:
  assumes "relay_head now head_error written hr (Response status ctype) c g = (Inr p, g')"
  shows "snap (p_ctx p) = snap c" "resp_status (p_ctx p) = status"
    "resp_content_type (p_ctx p) = unwrap_or (resp_content_type c) ctype"
    "drain_acc (p_ctx p) = drain_acc c" "drain_tail (p_ctx p) = drain_tail c"
    "resp_buf (p_ctx p) = resp_buf c" "drain_overflow (p_ctx p) = drain_overflow c"
    "client_dead (p_ctx p) = (client_dead c \<or> \<not> written)" "p_deadline p = None"
  using assms
  by (auto simp: relay_head_def mark_upstream_head_def Let_def unwrap_or_def
       split: if_splits option.splits)

lemma relay_end_frame [simp]:
  "drain_acc (relay_end wall p) = drain_acc (p_ctx p)"
  "drain_tail (relay_end wall p) = drain_tail (p_ctx p)"
  "resp_buf (relay_end wall p) = resp_buf (p_ctx p)"
  "drain_overflow (relay_end wall p) = drain_overflow (p_ctx p)"
  by (simp_all add: relay_end_def Let_def)

lemma relay_turn_run:
  assumes "relay_turn parse render d at_head at_end us st he written hr es c g = Some (c', g')"
    and "read_upload us c = Some (b, True)"
    and "relay_head at_head he written hr st b g = (Inr p, g1)"
  obtains p' where "run (pump_step parse render d) p es = Some p'" "p_over p'" "c' = relay_end at_end p'"
  using assms by (auto simp: relay_turn_def split: option.splits if_splits)

text \<open>A relayed turn is complete whatever the client does: with the drain switch on, for every upload
  that ends, every chunking and every moment the client is lost, the content of an event stream is
  that of the whole body received.\<close>

lemma relay_turn_stream:
  assumes "on_cancel (c_drain (sn_cfg sn))" "looks_like_sse ctype"
    and "read_upload us (new_ctx sn t0) = Some (c, True)"
    and "relay_turn parse render d at_head at_end us (Response st (Some ctype)) None written hr es
           (new_ctx sn t0) g = Some (c', g')"
  shows "relay_outcome parse render d c' = stream_response parse render d (received es)
   \<and> looks_like_sse (resp_content_type c')"
proof -
  obtain p g1 where h: "relay_head at_head None written hr (Response st (Some ctype)) c g = (Inr p, g1)"
    using assms(1) read_upload_frame [OF assms(3)]
    by (cases "relay_head at_head None written hr (Response st (Some ctype)) c g")
       (auto simp: relay_head_def mark_upstream_head_def new_ctx_def Let_def split: if_splits)
  obtain p' where p': "run (pump_step parse render d) p es = Some p'" "c' = relay_end at_end p'"
    by (rule relay_turn_run [OF assms(4,3) h])
  have "pump_ok parse render d [] p"
    using assms(1,2) read_upload_frame [OF assms(3)]
    by (simp add: pump_ok_def new_ctx_def Let_def relay_head_pump [OF h])
  from pump_ok_run [OF this p'(1)] have q: "pump_ok parse render d (received es) p'" by simp
  from pump_ok_outcome [OF q] q p'(2) show ?thesis
    by (simp add: relay_outcome_def pump_ok_def relay_end_def Let_def cong: option.case_cong)
qed

text \<open>The pump is never stuck: while its loop runs, the upstream may send or end, and a client that
  is alive may go.\<close>

lemma chunk_step:
  assumes "\<not> p_over p" "drains (p_ctx p)"
  obtains q where "pump_step parse render d p (Chunk bs wall now ok cap) = Some q" "\<not> p_over q"
    "drains (p_ctx q)" "client_dead (p_ctx q) = (client_dead (p_ctx p) \<or> \<not> ok)"
  using assms
  by (cases "client_dead (p_ctx p)"; cases ok) (simp_all add: Let_def drain_chunk_frame)

lemma gone_step:
  assumes "\<not> p_over p" "drains (p_ctx p)" "\<not> client_dead (p_ctx p)"
  obtains q where "pump_step parse render d p (Client_gone now) = Some q" "\<not> p_over q"
    "drains (p_ctx q)" "client_dead (p_ctx q)"
  using assms by simp

text \<open>A snapshot with the drain switch on, and a turn whose client goes between two chunks.\<close>

definition drain_snapshot :: snapshot where
  "drain_snapshot =
     \<lparr>sn_cfg = sample_config, sn_sha256 = [],
      sn_generation = 0, sn_loaded_at_ms = 0, sn_path = [], sn_restart_required = []\<rparr>"

definition lost_client_events :: "pump_event list" where
  "lost_client_events =
     [Chunk ''data: {'' 1 0 True (capture_new 4), Client_gone 5,
      Chunk ''}'' 2 6 True (capture_new 4), Upstream_end]"

lemma lost_client_run:
  assumes "\<not> p_over p" "drains (p_ctx p)" "\<not> client_dead (p_ctx p)"
  obtains q where "run (pump_step parse render d) p lost_client_events = Some q" "p_over q"
proof -
  obtain p1 where 1: "pump_step parse render d p (Chunk ''data: {'' 1 0 True (capture_new 4)) = Some p1"
    "\<not> p_over p1" "drains (p_ctx p1)" "client_dead (p_ctx p1) = (client_dead (p_ctx p) \<or> \<not> True)"
    by (rule chunk_step [OF assms(1,2)])
  then have "\<not> client_dead (p_ctx p1)" using assms(3) by simp
  obtain p2 where 2: "pump_step parse render d p1 (Client_gone 5) = Some p2"
    "\<not> p_over p2" "drains (p_ctx p2)"
    by (rule gone_step [OF 1(2,3) \<open>\<not> client_dead (p_ctx p1)\<close>])
  obtain p3 where 3: "pump_step parse render d p2 (Chunk ''}'' 2 6 True (capture_new 4)) = Some p3"
    "\<not> p_over p3"
    by (rule chunk_step [OF 2(2,3)])
  have 4: "pump_step parse render d p3 Upstream_end = Some (p3\<lparr>p_end_seen := True, p_over := True\<rparr>)"
    using 3(2) by simp
  show ?thesis
  proof (rule that)
    show "run (pump_step parse render d) p lost_client_events = Some (p3\<lparr>p_end_seen := True, p_over := True\<rparr>)"
      by (simp only: lost_client_events_def run.simps 1(1) 2(1) 3(1) 4 Option.bind.simps)
  qed simp
qed

lemma lost_client_turn:
  obtains c' g' where
    "relay_turn parse render d 1 2 [Upload_end] (Response 200 (Some ctype)) None True False
       lost_client_events (new_ctx drain_snapshot 0) g = Some (c', g')"
proof -
  obtain p g1 where h: "relay_head 1 None True False (Response 200 (Some ctype)) (new_ctx drain_snapshot 0) g =
      (Inr p, g1)" "\<not> p_over p" "drains (p_ctx p)" "\<not> client_dead (p_ctx p)"
    by (simp add: relay_head_def mark_upstream_head_def new_ctx_def no_body_status_def Let_def
        drain_snapshot_def sample_config_def)
  obtain q where "run (pump_step parse render d) p lost_client_events = Some q" "p_over q"
    by (rule lost_client_run [OF h(2-4)])
  with h(1) show ?thesis by (simp add: relay_turn_def that)
qed

section \<open>The raw capture\<close>

fun cap_of :: "pump_event \<Rightarrow> capture_cap option" where
  "cap_of (Chunk bs wall now ok cap) = Some cap"
| "cap_of _ = None"

text \<open>What the capture holds after the bytes \<open>seen\<close>, under a cap that does not change: all of them,
  or a prefix that fills the cap and a count of the rest. (Lengths below \<open>2 ^ 64\<close>.)\<close>

definition capture_ok :: "capture_cap \<Rightarrow> bytes \<Rightarrow> ctx \<Rightarrow> bool" where
  "capture_ok cap seen c \<longleftrightarrow>
     length (resp_buf c) + unat (drain_overflow c) = length seen
     \<and> resp_buf c = take (length (resp_buf c)) seen
     \<and> (drain_overflow c \<noteq> 0 \<longrightarrow> client_dead c \<and> max_bytes cap \<le> length (resp_buf c))"

lemma unat_add_of_nat:
  fixes w :: u64
  assumes "unat w + n < 2 ^ 64"
  shows "unat (w + of_nat n) = unat w + n"
  using assms by (simp add: unat_word_ariths unat_of_nat)

lemma capture_ok_append:
  assumes "capture_ok cap seen c" "\<not> client_dead c"
  shows "capture_ok cap (seen @ bs) (c\<lparr>resp_buf := resp_buf c @ bs\<rparr>)"
proof -
  from assms have "drain_overflow c = 0" "resp_buf c = seen"
    by (auto simp: capture_ok_def)
  then show ?thesis by (simp add: capture_ok_def)
qed

lemma capture_ok_drain:
  assumes ok: "capture_ok cap seen c" and dead: "client_dead c"
    and small: "length seen + length bs < 2 ^ 64"
  shows "capture_ok cap (seen @ bs) (drain_capture cap bs c)"
proof -
  let ?n = "min (max_bytes cap - length (resp_buf c)) (length bs)"
  have sum: "length (resp_buf c) + unat (drain_overflow c) = length seen"
    and pre: "resp_buf c = take (length (resp_buf c)) seen"
    using ok by (simp_all add: capture_ok_def)
  have ovf: "unat (drain_overflow c + of_nat (length bs - ?n)) = unat (drain_overflow c) + (length bs - ?n)"
    using sum small by (intro unat_add_of_nat) simp
  show ?thesis
  proof (cases "drain_overflow c = 0")
    case True
    with sum pre have "resp_buf c = seen" by simp
    with True ovf dead show ?thesis
      by (auto simp: capture_ok_def drain_capture_def Let_def min_def)
  next
    case False
    with ok have "max_bytes cap \<le> length (resp_buf c)" by (simp add: capture_ok_def)
    with ovf sum pre dead show ?thesis
      by (auto simp: capture_ok_def drain_capture_def Let_def)
  qed
qed

lemma capture_ok_frame:
  "resp_buf c' = resp_buf c \<Longrightarrow> drain_overflow c' = drain_overflow c \<Longrightarrow>
   (client_dead c \<longrightarrow> client_dead c') \<Longrightarrow> capture_ok cap seen c \<Longrightarrow> capture_ok cap seen c'"
  by (auto simp: capture_ok_def)

lemma capture_ok_step:
  assumes ok: "capture_ok cap seen (p_ctx p)" and drain: "drains (p_ctx p)"
    and step: "pump_step parse render d p e = Some p'" and same: "cap_of e \<in> {None, Some cap}"
    and small: "length seen + length (chunk_bytes e) < 2 ^ 64"
  shows "capture_ok cap (seen @ chunk_bytes e) (p_ctx p') \<and> drains (p_ctx p')"
proof (cases e)
  case (Chunk bs wall now wok cp)
  let ?c = "first_output wall bs (p_ctx p)"
  have c: "capture_ok cap seen ?c" by (rule capture_ok_frame [OF _ _ _ ok]) simp_all
  from same Chunk have cp: "cp = cap" by simp
  show ?thesis
  proof (cases "client_dead (p_ctx p)")
    case True
    have "capture_ok cap (seen @ bs) (drain_chunk parse render d cap bs ?c)"
      using True small Chunk
      by (intro capture_ok_frame [OF _ _ _ capture_ok_drain [OF c]])
         (simp_all add: drain_chunk_frame)
    with True step drain Chunk cp show ?thesis
      by (auto simp: drain_chunk_frame split: if_splits)
  next
    case False
    from capture_ok_append [OF c, of bs] False
    have r: "capture_ok cap (seen @ bs) (?c\<lparr>resp_buf := resp_buf ?c @ bs\<rparr>)" by simp
    show ?thesis
    proof (cases wok)
      case True
      with False r step drain Chunk show ?thesis by (auto simp: Let_def split: if_splits)
    next
      case wf: False
      with step Chunk \<open>\<not> client_dead (p_ctx p)\<close>
      have p': "p' = lose_client parse render d now (p\<lparr>p_ctx := ?c\<lparr>resp_buf := resp_buf ?c @ bs\<rparr>\<rparr>)"
        by (auto simp: Let_def split: if_splits)
      have "capture_ok cap (seen @ bs) (p_ctx p')"
        unfolding p' by (rule capture_ok_frame [OF _ _ _ r]) simp_all
      with drain Chunk p' show ?thesis by simp
    qed
  qed
next
  case (Client_gone now)
  with step have p': "p' = lose_client parse render d now p" by (auto split: if_splits)
  have "capture_ok cap seen (p_ctx p')"
    unfolding p' by (rule capture_ok_frame [OF _ _ _ ok]) simp_all
  with Client_gone drain p' show ?thesis by simp
qed (use assms in \<open>auto simp: capture_ok_def split: if_splits\<close>)

lemma capture_ok_run:
  "capture_ok cap seen (p_ctx p) \<Longrightarrow> drains (p_ctx p) \<Longrightarrow> run (pump_step parse render d) p es = Some p' \<Longrightarrow>
     \<forall>e \<in> set es. cap_of e \<in> {None, Some cap} \<Longrightarrow> length seen + length (received es) < 2 ^ 64 \<Longrightarrow>
     capture_ok cap (seen @ received es) (p_ctx p')"
proof (induction es arbitrary: seen p)
  case (Cons e es)
  from Cons.prems(3) obtain q where q: "pump_step parse render d p e = Some q"
    "run (pump_step parse render d) q es = Some p'"
    by (auto split: Option.bind_splits)
  have "capture_ok cap (seen @ chunk_bytes e) (p_ctx q) \<and> drains (p_ctx q)"
    using Cons.prems(4,5) by (intro capture_ok_step [OF Cons.prems(1,2) q(1)]) auto
  with Cons.IH [OF _ _ q(2), of "seen @ chunk_bytes e"] Cons.prems(4,5) show ?case by auto
qed simp



text \<open>A cap raised by a reload while a turn is being drained leaves a hole in its raw capture:
  bytes dropped at the old cap are missing between bytes kept before and after, so the captured text
  is no prefix of the body, although the marker of the record presents it as one.\<close>

theorem relay_capture_hole:
  "resp_buf (drain_capture (capture_new 9) ''cd'' (drain_capture (capture_new 1) ''ab'' (new_ctx sn t0))) = ''acd''
   \<and> drain_overflow (drain_capture (capture_new 9) ''cd'' (drain_capture (capture_new 1) ''ab'' (new_ctx sn t0))) = 1"
  by (simp add: drain_capture_def capture_new_def max_bytes_def new_ctx_def Let_def)

section \<open>The drain window\<close>

fun lost_at :: "pump_event \<Rightarrow> nat option" where
  "lost_at (Chunk bs wall now ok cap) = (if ok then None else Some now)"
| "lost_at (Client_gone now) = Some now"
| "lost_at _ = None"

abbreviation window :: "ctx \<Rightarrow> nat" where
  "window c \<equiv> unat (timeout_secs (c_drain (sn_cfg (snap c)))) * 1000000000"

text \<open>The deadline was set when the client was lost.\<close>

definition window_ok :: "pump_event list \<Rightarrow> pump \<Rightarrow> bool" where
  "window_ok es p \<longleftrightarrow> drains (p_ctx p) \<and>
     (client_dead (p_ctx p) \<longrightarrow>
        (\<exists>e \<in> set es. \<exists>t. lost_at e = Some t \<and> p_deadline p = Some (t + window (p_ctx p))))"

lemma window_ok_step:
  assumes "window_ok es p" "pump_step parse render d p e = Some p'"
  shows "window_ok (es @ [e]) p' \<and> snap (p_ctx p') = snap (p_ctx p)"
  using assms
  by (cases e) (auto simp: window_ok_def Let_def drain_chunk_frame split: if_splits)

lemma window_ok_run:
  "window_ok ds p \<Longrightarrow> run (pump_step parse render d) p es = Some p' \<Longrightarrow>
     window_ok (ds @ es) p' \<and> snap (p_ctx p') = snap (p_ctx p)"
proof (induction es arbitrary: ds p)
  case (Cons e es)
  from Cons.prems(2) obtain q where "pump_step parse render d p e = Some q"
    "run (pump_step parse render d) q es = Some p'"
    by (auto split: Option.bind_splits)
  with window_ok_step [OF Cons.prems(1)] Cons.IH [of "ds @ [e]" q] show ?case by simp
qed simp

text \<open>C17 The drain window is honoured once the response head has reached the client: the relay gives
  up on the upstream only when the configured number of seconds has passed since the moment the
  client was lost.\<close>

theorem drain_window_honoured:
  assumes "on_cancel (c_drain (sn_cfg (snap c)))" "\<not> client_dead c"
    and "relay_head at_head he True hr (Response status ctype) c g = (Inr p, g')"
    and "run (pump_step parse render d) p es = Some q"
    and "pump_step parse render d q (Deadline now) = Some q'"
  shows "\<exists>e \<in> set es. \<exists>t. lost_at e = Some t
           \<and> t + unat (timeout_secs (c_drain (sn_cfg (snap c)))) * 1000000000 \<le> now"
proof -
  have p: "window_ok [] p" "snap (p_ctx p) = snap c"
    using assms(1,2) by (simp_all add: window_ok_def relay_head_pump [OF assms(3)])
  from window_ok_run [OF p(1) assms(4)] p(2) have "window_ok es q" "snap (p_ctx q) = snap c"
    by simp_all
  moreover from assms(5) have "client_dead (p_ctx q)" "unwrap_or now (p_deadline q) \<le> now"
    by (auto split: if_splits)
  ultimately show ?thesis by (fastforce simp: window_ok_def)
qed

theorem drain_window_honoured_witness:
  "\<exists>p g' q q'. relay_head 1 None True False (Response 200 None) (new_ctx drain_snapshot 0) gauges_new = (Inr p, g')
     \<and> run (pump_step (\<lambda>_. None) (\<lambda>_. []) chat_descriptor) p [Client_gone 7] = Some q
     \<and> pump_step (\<lambda>_. None) (\<lambda>_. []) chat_descriptor q (Deadline 5000000007) = Some q'
     \<and> (\<exists>e \<in> set [Client_gone 7]. \<exists>t. lost_at e = Some t \<and> t + 5000000000 \<le> 5000000007)"
proof -
  obtain p g' where h: "relay_head 1 None True False (Response 200 None) (new_ctx drain_snapshot 0) gauges_new = (Inr p, g')"
    "\<not> p_over p"
    by (simp add: relay_head_def mark_upstream_head_def new_ctx_def no_body_status_def Let_def
        drain_snapshot_def sample_config_def)
  have p: "drains (p_ctx p)" "\<not> client_dead (p_ctx p)" "snap (p_ctx p) = drain_snapshot"
    by (simp_all add: relay_head_pump [OF h(1)] new_ctx_def drain_snapshot_def sample_config_def Let_def)
  let ?q = "lose_client (\<lambda>_. None) (\<lambda>_. []) chat_descriptor 7 p"
  have r: "run (pump_step (\<lambda>_. None) (\<lambda>_. []) chat_descriptor) p [Client_gone 7] = Some ?q"
    using h(2) p by simp
  have "unat (timeout_secs (c_drain (sn_cfg drain_snapshot))) = 5"
    by (simp add: drain_snapshot_def sample_config_def)
  then obtain q' where d: "pump_step (\<lambda>_. None) (\<lambda>_. []) chat_descriptor ?q (Deadline 5000000007) = Some q'"
    using h(2) p by simp
  have "on_cancel (c_drain (sn_cfg (snap (new_ctx drain_snapshot 0))))" "\<not> client_dead (new_ctx drain_snapshot 0)"
    by (simp_all add: new_ctx_def drain_snapshot_def sample_config_def Let_def)
  from drain_window_honoured [OF this h(1) r d] have "\<exists>e \<in> set [Client_gone 7]. \<exists>t. lost_at e = Some t \<and> t + 5000000000 \<le> 5000000007"
    by (simp add: new_ctx_def drain_snapshot_def sample_config_def Let_def)
  with h(1) r d show ?thesis by blast
qed

text \<open>When the client is lost while the response head is written, there is no drain window at
  all: although draining is on, no deadline has been set and the loop takes the present moment for
  it, so the very first wait may time out, whatever the configured number of seconds, and the turn is
  abandoned without content.\<close>

theorem lost_head_no_window:
  assumes "on_cancel (c_drain (sn_cfg sn))" "\<not> no_body_status status hr"
  shows "\<exists>p g'. relay_head at_head None False hr (Response status ctype) (new_ctx sn t0) g = (Inr p, g')
      \<and> pump_step parse render d p (Deadline now) =
          Some (p\<lparr>p_ctx := (p_ctx p)\<lparr>ctx_timed_out := True\<rparr>, p_over := True\<rparr>)"
  using assms by (auto simp: relay_head_def mark_upstream_head_def new_ctx_def Let_def)

theorem lost_head_no_window_witness:
  "\<exists>p g'. relay_head 1 None False False (Response 200 None) (new_ctx drain_snapshot 0) gauges_new = (Inr p, g')
      \<and> pump_step (\<lambda>_. None) (\<lambda>_. []) chat_descriptor p (Deadline 0) =
          Some (p\<lparr>p_ctx := (p_ctx p)\<lparr>ctx_timed_out := True\<rparr>, p_over := True\<rparr>)"
  by (rule lost_head_no_window) (simp_all add: drain_snapshot_def sample_config_def no_body_status_def)

end
