(* ===== verification/Gateway_Laws.thy ===== *)
theory Gateway_Laws
  imports Gateway Relay_Laws
begin

text \<open>
  What a request leaves behind: at most one record, and one for every failed or cancelled turn; the
  session it is filed under; the content of a drained turn; and that the hook returns.
\<close>

section \<open>Pushing a record\<close>

lemma push_returns:
  obtains s' old where "push w h r s = Some s'" "deque s' = old @ [r]"
proof -
  obtain t where "while_option (over_budget (estimate r)) drop_oldest
      (s\<lparr>store_wait_ns := store_wait_ns s + w\<rparr>) = Some t"
    using budget.evict_returns by blast
  then show ?thesis by (auto simp: push_def Let_def intro: that)
qed

definition recorded :: "turn_record \<Rightarrow> gateway \<Rightarrow> gateway \<Rightarrow> bool" where
  "recorded r g g' \<longleftrightarrow> (\<exists>w h. push w h r (gw_store g) = Some (gw_store g'))
     \<and> gw_exporter g' = submit r (gw_exporter g)"

definition unrecorded :: "gateway \<Rightarrow> gateway \<Rightarrow> bool" where
  "unrecorded g g' \<longleftrightarrow> gw_store g' = gw_store g \<and> gw_exporter g' = gw_exporter g"

lemma push_record_returns: "\<exists>g'. push_record lock r g = Some g'"
  by (rule push_returns [of "fst lock" "snd lock" r "gw_store g"]) (auto simp: push_record_def)

lemma push_record_recorded:
  assumes "push_record lock r g = Some g'"
    "gw_store g = gw_store g0" "gw_exporter g = gw_exporter g0"
  shows "recorded r g0 g' \<and> turns_total g' = turns_total g"
proof -
  from assms(1) have "push (fst lock) (snd lock) r (gw_store g) = Some (gw_store g')"
    "gw_exporter g' = submit r (gw_exporter g)" "turns_total g' = turns_total g"
    by (auto simp: push_record_def)
  then show ?thesis unfolding recorded_def assms(2,3) by blast
qed

lemma gateway_frames [simp]:
  "gw_store (count_hdr_dropped n g) = gw_store g" "gw_exporter (count_hdr_dropped n g) = gw_exporter g"
  "gw_stitcher (count_hdr_dropped n g) = gw_stitcher g" "gw_cap (count_hdr_dropped n g) = gw_cap g"
  "turns_total (count_hdr_dropped n g) = turns_total g"
  "turns_with_session (count_hdr_dropped n g) = turns_with_session g"
  "gw_store (count_session ts g) = gw_store g" "gw_exporter (count_session ts g) = gw_exporter g"
  "gw_stitcher (count_session ts g) = gw_stitcher g" "turns_total (count_session ts g) = turns_total g"
  "gw_store (count_frames k g) = gw_store g" "gw_exporter (count_frames k g) = gw_exporter g"
  "turns_total (count_frames k g) = turns_total g"
  "gw_store (count_turn hf g) = gw_store g" "gw_exporter (count_turn hf g) = gw_exporter g"
  "gw_stitcher (count_turn hf g) = gw_stitcher g" "gw_cap (count_turn hf g) = gw_cap g"
  "turns_total (count_turn hf g) = turns_total g + 1"
  "turns_with_session (count_turn hf g) = turns_with_session g"
  by (simp_all add: count_hdr_dropped_def count_session_def count_frames_def count_turn_def Let_def)

section \<open>The session of a turn\<close>

lemma settle_session_cases:
  assumes "settle_session env rq clk tf g = Some (ts, g')"
  shows "ts = stated_session tf \<and> g' = g \<and> \<not> (ts_id (stated_session tf) = [] \<and> may_stitch tf)
   \<or> (\<exists>messages st. ts_id (stated_session tf) = [] \<and> may_stitch tf \<and> Option.bind tf tf_messages = Some messages
        \<and> assign_session (env_sha env) (env_render env) (unwrap_or [] (header_get env rq ''authorization''))
            messages (lc_stitch clk) (fst (lc_stitch_lock clk)) (snd (lc_stitch_lock clk)) (gw_stitcher g)
            = Some ((ts_id ts, ts_breakpoint ts), st)
        \<and> ts_source ts = ''stitcher'' \<and> ts_synthetic ts = (ts_id ts \<noteq> []) \<and> g' = g\<lparr>gw_stitcher := st\<rparr>)"
  using assms
  by (auto simp: settle_session_def may_stitch_def Let_def split: if_splits option.splits)

lemma settle_session_returns:
  assumes "stitcher_ok (gw_stitcher g)"
  shows "\<exists>ts g'. settle_session env rq clk tf g = Some (ts, g') \<and> stitcher_ok (gw_stitcher g')"
proof (cases "ts_id (stated_session tf) = [] \<and> may_stitch tf")
  case False
  with assms show ?thesis by (auto simp: settle_session_def Let_def)
next
  case True
  then obtain messages where m: "Option.bind tf tf_messages = Some messages"
    by (auto simp: may_stitch_def split: option.splits)
  obtain st where "assign_session (env_sha env) (env_render env)
      (unwrap_or [] (header_get env rq ''authorization'')) messages (lc_stitch clk)
      (fst (lc_stitch_lock clk)) (snd (lc_stitch_lock clk)) (gw_stitcher g) =
      Some (stitch_answer (env_sha env)
          (request_key (env_sha env) (env_render env) (unwrap_or [] (header_get env rq ''authorization'')) messages)
          (map (message_fingerprint (env_sha env) (env_render env)) messages) (lc_stitch clk) (gw_stitcher g), st)"
    "stitcher_ok st"
    by (rule assign_session_spec [OF assms])
  with True m show ?thesis
    by (auto simp: settle_session_def Let_def split: prod.split)
qed

lemma gather_frame:
  assumes "gather env rq clk d cc he c g = Some (p, req, g')"
  shows "gw_store g' = gw_store g \<and> gw_exporter g' = gw_exporter g
    \<and> turns_total g' = turns_total g + 1 \<and> tp_proto p = d_name d \<and> tp_cancelled p = cc \<and> tp_http_error p = he
    \<and> tp_raw_response p = captured_response (gw_cap g) c
    \<and> req = parse_body (env_parse env) (req_buf c)"
  using assms
  by (auto simp: gather_def Let_def split: prod.splits if_splits dest!: settle_session_cases)

lemma gather_returns:
  assumes "stitcher_ok (gw_stitcher g)"
  shows "\<exists>p req g'. gather env rq clk d cc he c g = Some (p, req, g') \<and> stitcher_ok (gw_stitcher g')"
proof -
  let ?req = "parse_body (env_parse env) (req_buf c)"
  let ?get = "header_get env rq"
  let ?hf = "identify (env_parse env) (d_name d) ?req (?get ''user-agent'') ?get"
  let ?tf = "Option.bind ?req (\<lambda>r. turn_facts_of (env_parse env) (env_render env) (d_name d) r ?get ?hf)"
  obtain ev n where n: "collect_hdr_evidence (env_to_str env) (rq_headers rq) = (ev, n)"
    by fastforce
  let ?G = "count_turn ?hf (count_hdr_dropped n g)"
  have "stitcher_ok (gw_stitcher ?G)" using assms by simp
  then obtain ts u where "settle_session env rq clk ?tf ?G = Some (ts, u)" "stitcher_ok (gw_stitcher u)"
    using settle_session_returns by blast
  with n show ?thesis by (auto simp: gather_def Let_def)
qed

lemma finish_turn_returns: "\<exists>c' g'. finish_turn env clk d p req c g = Some (c', g')"
proof -
  have "\<exists>g'. push_record lk r u = Some g'" for lk r u by (rule push_record_returns)
  then show ?thesis
    by (auto simp: finish_turn_def Let_def split: prod.split option.split)
qed

lemma record_turn_returns:
  assumes "stitcher_ok (gw_stitcher g)"
  shows "\<exists>c' g'. record_turn env rq clk d e c g = Some (c', g')"
proof (cases "gw_trace_off g")
  case True
  have "\<exists>g'. push_record lk r u = Some g'" for lk r u by (rule push_record_returns)
  with True show ?thesis by (simp add: record_turn_def Let_def split: prod.split)
next
  case False
  obtain cc he where v: "session_verdict e c = (cc, he)" by fastforce
  obtain p req u where "gather env rq clk d cc he c g = Some (p, req, u)"
    using gather_returns [OF assms] by blast
  with False v finish_turn_returns [of env clk d p req c u] show ?thesis
    by (simp add: record_turn_def)
qed

text \<open>The gateway when the turn is recorded: the gauges are released and a loose match is counted.\<close>

definition released :: "log_clock \<Rightarrow> path_match \<Rightarrow> ctx \<Rightarrow> gateway \<Rightarrow> gateway" where
  "released clk m c g =
     (let g = g\<lparr>gw_gauges := exit_request (lc_exit clk) True c (gw_gauges g)\<rparr> in
      if loose m then g\<lparr>loose_path_matches := loose_path_matches g + 1\<rparr> else g)"

lemma released_frame [simp]:
  "gw_store (released clk m c g) = gw_store g" "gw_exporter (released clk m c g) = gw_exporter g"
  "gw_stitcher (released clk m c g) = gw_stitcher g" "turns_total (released clk m c g) = turns_total g"
  "turns_with_session (released clk m c g) = turns_with_session g"
  "gw_trace_off (released clk m c g) = gw_trace_off g" "gw_cap (released clk m c g) = gw_cap g"
  by (simp_all add: released_def Let_def)

text \<open>The match of a request whose turn is recorded.\<close>

definition turn_of :: "env \<Rightarrow> request \<Rightarrow> ctx \<Rightarrow> path_match option" where
  "turn_of env rq c =
     opt_filter (\<lambda>m. loose m \<longrightarrow> 200 \<le> resp_status c \<and> resp_status c < 300)
       (detect_path (env_render env) (rq_path rq))"

lemma logging_turn:
  "turn_of env rq c = Some m \<Longrightarrow>
     logging env rq clk e c g = record_turn env rq clk (pm_descriptor m) e c (released clk m c g)"
  by (auto simp: turn_of_def logging_def detect_path_fail_open_def released_def Let_def
      split: option.splits if_splits)

lemma logging_skips:
  "turn_of env rq c = None \<Longrightarrow> \<exists>g'. logging env rq clk e c g = Some (c, g')
     \<and> gw_store g' = gw_store g \<and> gw_exporter g' = gw_exporter g \<and> turns_total g' = turns_total g"
  by (auto simp: turn_of_def logging_def detect_path_fail_open_def Let_def
      split: option.splits if_splits)

lemma logging_some:
  assumes "stitcher_ok (gw_stitcher g)"
  shows "\<exists>c' g'. logging env rq clk e c g = Some (c', g')"
proof (cases "turn_of env rq c")
  case None
  then show ?thesis using logging_skips by blast
next
  case (Some m)
  with assms show ?thesis by (simp add: logging_turn record_turn_returns)
qed

text \<open>A gateway, a request and the context it ends with.\<close>

definition demo_env :: env where
  "demo_env = \<lparr>env_parse = (\<lambda>_. None), env_render = (\<lambda>_. []), env_sha = toy_sha, env_to_str = Some\<rparr>"

definition demo_gateway :: gateway where
  "demo_gateway = \<lparr>gw_trace_off = False, gw_listen = ''0.0.0.0:8080'', gw_cap = capture_new 1000,
     gw_stitcher = with_limits [] 0 10 1000, gw_store = with_caps 10 1000,
     gw_exporter = the (start (\<lambda>_. []) [] 4 1 0), failed_frames = 0, turns_total = 0,
     loose_path_matches = 0, turns_with_session = 0, turns_with_harness = 0,
     hdr_evidence_dropped = 0, gw_worker_threads = 2, gw_gauges = gauges_new\<rparr>"

definition demo_request :: request where
  "demo_request = \<lparr>rq_path = ''/v1/messages'', rq_headers = [(''user-agent'', ''curl'')]\<rparr>"

definition demo_clock :: log_clock where
  "demo_clock = \<lparr>lc_exit = 9, lc_end = 9, lc_stitch = 9, lc_stitch_lock = (0, 0), lc_store_lock = (0, 0)\<rparr>"

lemma demo_stitcher: "stitcher_ok (gw_stitcher demo_gateway)"
  by (simp add: demo_gateway_def with_limits_ok)

lemma demo_turn:
  "turn_of demo_env demo_request c = Some \<lparr>pm_descriptor = anthropic_descriptor (\<lambda>_. []), loose = False\<rparr>"
proof -
  have "starts_with ''/v1/messages'' ''/v1/messages''" by (simp add: starts_with_iff)
  then show ?thesis
    by (simp add: turn_of_def demo_env_def demo_request_def detect_path_def detect_cases)
qed

text \<open>The hook at the end of a request always returns: no eviction, of the window or of the
  session table, can hang it.\<close>

theorem logging_returns:
  assumes "stitcher_ok (gw_stitcher g)"
  shows "\<exists>c' g'. logging env rq clk e c g = Some (c', g')"
  by (rule logging_some [OF assms])

theorem logging_returns_witness:
  "\<exists>c' g'. logging demo_env demo_request demo_clock None (new_ctx drain_snapshot 0) demo_gateway = Some (c', g')"
  by (rule logging_returns [OF demo_stitcher])

section \<open>At most one record\<close>

text \<open>The facts of the connection that every record of the turn states.\<close>

definition states_turn :: "log_clock \<Rightarrow> descriptor \<Rightarrow> bool \<times> string option \<Rightarrow> ctx \<Rightarrow> turn_record \<Rightarrow> bool" where
  "states_turn clk d verdict c r \<longleftrightarrow> protocol r = d_name d \<and> start_ns r = rt_start_ns c
     \<and> end_ns r = lc_end clk \<and> cancelled r = fst verdict \<and> drain_timed_out r = ctx_timed_out c
     \<and> (snd verdict \<noteq> None \<longrightarrow> turn_error r \<noteq> None)
     \<and> trace_tag r = tr_tag (c_trace (sn_cfg (snap c)))"

lemma or_else_not_None: "b \<noteq> None \<Longrightarrow> or_else a b \<noteq> None"
  by (cases a) (simp_all add: or_else_def)

lemma stream_content_frame:
  "stream_content env d c = (out, c') \<Longrightarrow>
     rt_start_ns c' = rt_start_ns c \<and> ctx_timed_out c' = ctx_timed_out c \<and> snap c' = snap c
     \<and> first_output_ns c' = first_output_ns c"
  by (auto simp: stream_content_def Let_def split: option.splits)

lemma unpack_protocol:
  "unpack_nonstreaming parse render proto req body = Some r \<Longrightarrow> protocol r = proto"
  by (auto simp: unpack_nonstreaming_def nonstreaming_def bind_eq_Some_conv dest: detect_by_name_known)

lemma finish_turn_record:
  assumes "finish_turn env clk d p req c g = Some (c', g')" "tp_proto p = d_name d"
  shows "(\<exists>r. recorded r g g' \<and> turns_total g' = turns_total g
            \<and> states_turn clk d (tp_cancelled p, tp_http_error p) c r)
   \<or> (g' = g \<and> \<not> looks_like_sse (resp_content_type c) \<and> tp_http_error p = None
      \<and> \<not> (relay_done c \<and> tp_cancelled p))"
proof (cases "looks_like_sse (resp_content_type c)")
  case True
  obtain out us tools err k c1 where s: "stream_content env d c = ((out, us, tools, err, k), c1)"
    by (metis surj_pair)
  let ?r = "stream_record p (out, us, tools, err, k) (c1\<lparr>rt_end_ns := lc_end clk\<rparr>)"
  from True s assms(1) have "push_record (lc_store_lock clk) ?r (count_frames k g) = Some g'"
    by (auto simp: finish_turn_def Let_def)
  from push_record_recorded [OF this, of g] have "recorded ?r g g' \<and> turns_total g' = turns_total g"
    by simp
  moreover have "states_turn clk d (tp_cancelled p, tp_http_error p) c ?r"
    using assms(2) stream_content_frame [OF s]
    by (simp add: states_turn_def stream_record_def or_else_not_None)
  ultimately show ?thesis by blast
next
  case sse: False
  let ?c = "c\<lparr>rt_end_ns := lc_end clk\<rparr>"
  show ?thesis
  proof (cases "unpack_nonstreaming (env_parse env) (env_render env) (d_name d) req (resp_buf c)")
    case (Some r)
    with sse assms(1) have "push_record (lc_store_lock clk) (rest_record p r ?c) g = Some g'"
      by (auto simp: finish_turn_def Let_def)
    from push_record_recorded [OF this refl refl] unpack_protocol [OF Some]
    have "recorded (rest_record p r ?c) g g' \<and> turns_total g' = turns_total g
        \<and> states_turn clk d (tp_cancelled p, tp_http_error p) c (rest_record p r ?c)"
      by (simp add: states_turn_def rest_record_def or_else_not_None)
    then show ?thesis by blast
  next
    case None
    show ?thesis
    proof (cases "tp_http_error p \<noteq> None \<or> (relay_done c \<and> tp_cancelled p)")
      case True
      with None sse assms(1) have "push_record (lc_store_lock clk) (minimal_record p ?c) g = Some g'"
        by (auto simp: finish_turn_def Let_def)
      from push_record_recorded [OF this refl refl] assms(2)
      have "recorded (minimal_record p ?c) g g' \<and> turns_total g' = turns_total g
          \<and> states_turn clk d (tp_cancelled p, tp_http_error p) c (minimal_record p ?c)"
        by (simp add: states_turn_def minimal_record_def)
      then show ?thesis by blast
    next
      case False
      with None sse assms(1) show ?thesis by (auto simp: finish_turn_def Let_def)
    qed
  qed
qed

lemma record_turn_record:
  assumes "record_turn env rq clk d e c g = Some (c', g')"
  shows "turns_total g' = turns_total g + 1
   \<and> ((\<exists>r. recorded r g g' \<and> states_turn clk d (session_verdict e c) c r)
      \<or> (unrecorded g g' \<and> \<not> gw_trace_off g \<and> \<not> looks_like_sse (resp_content_type c)
         \<and> snd (session_verdict e c) = None \<and> \<not> (relay_done c \<and> fst (session_verdict e c))))"
proof -
  obtain cc he where v: "session_verdict e c = (cc, he)" by fastforce
  show ?thesis
  proof (cases "gw_trace_off g")
    case True
    let ?r = "shell_record (d_name d) cc he (c\<lparr>rt_end_ns := lc_end clk\<rparr>)"
    from True v assms
    have "push_record (lc_store_lock clk) ?r (g\<lparr>turns_total := turns_total g + 1\<rparr>) = Some g'"
      by (auto simp: record_turn_def Let_def)
    from push_record_recorded [OF this, of g] have "recorded ?r g g' \<and> turns_total g' = turns_total g + 1"
      by simp
    moreover have "states_turn clk d (cc, he) c ?r" by (simp add: states_turn_def shell_record_def)
    ultimately show ?thesis unfolding v by blast
  next
    case False
    with v assms obtain p req u where g: "gather env rq clk d cc he c g = Some (p, req, u)"
      and f: "finish_turn env clk d p req c u = Some (c', g')"
      by (auto simp: record_turn_def bind_eq_Some_conv)
    note fr = gather_frame [OF g]
    from finish_turn_record [OF f] fr False v show ?thesis
      by (auto simp: recorded_def unrecorded_def)
  qed
qed



section \<open>The session of a turn\<close>



section \<open>The content of a drained turn\<close>

lemma detect_path_known:
  assumes "detect_path render path = Some m"
  shows "detect_by_name render (d_name (pm_descriptor m)) = Some (pm_descriptor m)"
proof -
  have "pm_descriptor m \<in> set (DESCRIPTORS render)"
  proof (cases "detect render path")
    case None
    with assms show ?thesis
      by (auto simp: detect_path_def Let_def dest!: find_map_SomeD split: if_splits)
  next
    case (Some d)
    then have "d \<in> set (DESCRIPTORS render)"
      by (simp add: detect_cases DESCRIPTORS_def split: if_splits) 
    with Some assms show ?thesis by (simp add: detect_path_def) (metis path_match.select_convs(1))
  qed
  then show ?thesis unfolding detect_by_name_def DESCRIPTORS_def by (elim set_ConsD [elim_format] disjE) simp_all
qed

lemma stream_content_outcome:
  assumes "detect_by_name (env_render env) (d_name d) = Some d"
  shows "\<exists>c'. stream_content env d c =
     ((let out = relay_outcome (env_parse env) (env_render env) d c
       in (so_text out, so_usage out, so_tools out, so_error out, so_frame_errors out)), c')"
  using assms
  by (auto simp: stream_content_def relay_outcome_def reassemble_sse_def Let_def split: option.split)

text \<open>End to end: a relayed event stream whose client was lost at any moment is recorded with the
  text, the tool calls, the usage and the protocol error of the whole stream the upstream sent, and
  the client's loss is stated as a cancellation; an error of the protocol takes precedence over the
  one of the connection.\<close>

theorem drained_turn_recorded:
  assumes "on_cancel (c_drain (sn_cfg sn))" "looks_like_sse ctype"
    and "read_upload us (new_ctx sn t0) = Some (c0, True)"
    and "relay_turn (env_parse env) (env_render env) (pm_descriptor m) at_head at_end us
           (Response st (Some ctype)) None written hr es (new_ctx sn t0) gs = Some (c, gs')"
    and "turn_of env rq c = Some m" "\<not> gw_trace_off g"
    and "logging env rq clk None c g = Some (c', g')"
  shows "\<exists>r. recorded r g g'
     \<and> (let out = stream_response (env_parse env) (env_render env) (pm_descriptor m) (received es)
        in final_output r = so_text out \<and> tool_calls r = so_tools out \<and> usage r = so_usage out
           \<and> turn_error r = or_else (so_error out) (snd (session_verdict None c)))
     \<and> cancelled r = client_dead c"
proof -
  let ?d = "pm_descriptor m" and ?G = "released clk m c g"
  let ?out = "stream_response (env_parse env) (env_render env) ?d (received es)"
  from relay_turn_stream [OF assms(1-4)]
  have out: "relay_outcome (env_parse env) (env_render env) ?d c = ?out" and sse: "looks_like_sse (resp_content_type c)"
    by simp_all
  have "detect_path (env_render env) (rq_path rq) = Some m"
    using assms(5) by (auto simp: turn_of_def split: option.splits if_splits)
  from stream_content_outcome [OF detect_path_known [OF this], of c] out obtain c1
    where content: "stream_content env ?d c =
      ((so_text ?out, so_usage ?out, so_tools ?out, so_error ?out, so_frame_errors ?out), c1)"
    by (auto simp: Let_def)
  obtain cc he where v: "session_verdict None c = (cc, he)" by fastforce
  then have cc: "cc = client_dead c" by (auto simp: session_verdict_def split: option.splits if_splits)
  from assms(5-7) v obtain p req u where g: "gather env rq clk ?d cc he c ?G = Some (p, req, u)"
    and f: "finish_turn env clk ?d p req c u = Some (c', g')"
    by (auto simp: logging_turn record_turn_def bind_eq_Some_conv)
  note fr = gather_frame [OF g]
  let ?r = "stream_record p (so_text ?out, so_usage ?out, so_tools ?out, so_error ?out, so_frame_errors ?out)
      (c1\<lparr>rt_end_ns := lc_end clk\<rparr>)"
  from f sse content have "push_record (lc_store_lock clk) ?r (count_frames (so_frame_errors ?out) u) = Some g'"
    by (auto simp: finish_turn_def Let_def)
  from push_record_recorded [OF this, of g] fr have "recorded ?r g g'" by simp
  moreover have "turn_error ?r = or_else (so_error ?out) he" "cancelled ?r = client_dead c"
    "final_output ?r = so_text ?out" "tool_calls ?r = so_tools ?out" "usage ?r = so_usage ?out"
    using fr cc by (simp_all add: stream_record_def)
  ultimately show ?thesis unfolding v snd_conv Let_def by blast
qed

theorem drained_turn_recorded_witness:
  "\<exists>c gs c' g' r.
     relay_turn (\<lambda>_. None) (\<lambda>_. []) (anthropic_descriptor (\<lambda>_. [])) 1 2 [Upload_end]
       (Response 200 (Some ''text/event-stream'')) None True False lost_client_events
       (new_ctx drain_snapshot 0) gauges_new = Some (c, gs)
   \<and> logging demo_env demo_request demo_clock None c demo_gateway = Some (c', g')
   \<and> recorded r demo_gateway g'
   \<and> final_output r = so_text (stream_response (\<lambda>_. None) (\<lambda>_. []) (anthropic_descriptor (\<lambda>_. [])) ''data: {}'')"
proof -
  have sse: "looks_like_sse ''text/event-stream''" by code_simp
  have up: "read_upload [Upload_end] (new_ctx drain_snapshot 0) = Some (new_ctx drain_snapshot 0, True)"
    by simp
  obtain c gs where r: "relay_turn (\<lambda>_. None) (\<lambda>_. []) (anthropic_descriptor (\<lambda>_. [])) 1 2 [Upload_end]
       (Response 200 (Some ''text/event-stream'')) None True False lost_client_events
       (new_ctx drain_snapshot 0) gauges_new = Some (c, gs)"
    by (rule lost_client_turn)
  obtain c' g' where l: "logging demo_env demo_request demo_clock None c demo_gateway = Some (c', g')"
    using logging_some [OF demo_stitcher] by blast
  have on: "on_cancel (c_drain (sn_cfg drain_snapshot))" "\<not> gw_trace_off demo_gateway"
    by (simp_all add: drain_snapshot_def sample_config_def demo_gateway_def)
  have "relay_turn (env_parse demo_env) (env_render demo_env)
      (pm_descriptor \<lparr>pm_descriptor = anthropic_descriptor (\<lambda>_. []), loose = False\<rparr>) 1 2 [Upload_end]
       (Response 200 (Some ''text/event-stream'')) None True False lost_client_events
       (new_ctx drain_snapshot 0) gauges_new = Some (c, gs)"
    using r by (simp add: demo_env_def)
  from drained_turn_recorded [OF on(1) sse up this demo_turn on(2) l]
  obtain r where "recorded r demo_gateway g'"
    "final_output r = so_text (stream_response (\<lambda>_. None) (\<lambda>_. []) (anthropic_descriptor (\<lambda>_. [])) ''data: {}'')"
    by (auto simp: Let_def demo_env_def lost_client_events_def)
  with r l show ?thesis by blast
qed

section \<open>Capture and timing\<close>

text \<open>When the client got more than the cap before it was lost and the drain dropped more, the
  captured response carries two markers that contradict each other: the first gives the bytes
  captured up to the loss as the original size, the second claims that all of those were captured
  although the text holds at most the cap.\<close>

theorem marker_written_twice:
  assumes "max_bytes cap < length (resp_buf c)" "0 < drain_overflow c"
  shows "\<exists>e \<le> max_bytes cap. captured_response cap c =
     from_utf8_lossy (take e (resp_buf c))
     @ truncation_marker (length (resp_buf c)) e
     @ truncation_marker (sat_add (length (resp_buf c)) (unat (drain_overflow c))) (length (resp_buf c))"
  using assms back_up_le [of "resp_buf c" "max_bytes cap"]
  by (auto simp: captured_response_def bound_def Let_def not_le)

theorem marker_written_twice_witness:
  "\<exists>e \<le> max_bytes (capture_new 1).
     captured_response (capture_new 1) ((new_ctx drain_snapshot 0)\<lparr>resp_buf := ''ab'', drain_overflow := 3\<rparr>) =
     from_utf8_lossy (take e ''ab'') @ truncation_marker (length ''ab'') e
     @ truncation_marker (sat_add (length ''ab'') (unat (3 :: u64))) (length ''ab'')"
  using marker_written_twice [of "capture_new 1" "(new_ctx drain_snapshot 0)\<lparr>resp_buf := ''ab'', drain_overflow := 3\<rparr>"]
  by (simp add: capture_new_def max_bytes_def)

text \<open>The pump's response chunks with their clock readings.\<close>

definition pump_chunks :: "gateway \<Rightarrow> (u64 \<times> bytes) list \<Rightarrow> ctx \<Rightarrow> ctx" where
  "pump_chunks g bs c = fold (\<lambda>(at, b). capture_response at (Some b) g) bs c"

definition output_times :: "(u64 \<times> bytes) list \<Rightarrow> u64 list" where
  "output_times bs = map fst (filter (\<lambda>(at, b). b \<noteq> []) bs)"

lemma output_times_simps [simp]:
  "output_times [] = []" "output_times ((at, b) # bs) = (if b \<noteq> [] then at # output_times bs else output_times bs)"
  by (simp_all add: output_times_def)

lemma pump_chunks_traced:
  assumes "\<not> gw_trace_off g"
  shows "resp_buf (pump_chunks g bs c) = resp_buf c @ concat (map snd bs)
    \<and> first_output_ns (pump_chunks g bs c) =
        (if resp_buf c = [] \<and> output_times bs \<noteq> [] then Some (hd (output_times bs)) else first_output_ns c)"
  using assms
  by (induction bs arbitrary: c) (auto simp: pump_chunks_def capture_response_def Let_def)

lemma pump_chunks_untraced:
  assumes "gw_trace_off g" "resp_buf c = []"
  shows "resp_buf (pump_chunks g bs c) = []
    \<and> first_output_ns (pump_chunks g bs c) =
        (if output_times bs \<noteq> [] then Some (last (output_times bs)) else first_output_ns c)"
  using assms
  by (induction bs arbitrary: c) (auto simp: pump_chunks_def capture_response_def Let_def)

text \<open>The pump captures the response whole and latches the time of the first output, the first
  chunk that is not empty. With capture off nothing is captured, but the time is not latched: every
  chunk overwrites it, so the time to first byte reported for a streamed turn is that of its last
  chunk.\<close>

theorem first_output_latch:
  "first_output_ns (pump_chunks g bs (new_ctx sn t0)) =
     (if output_times bs = [] then None
      else if gw_trace_off g then Some (last (output_times bs)) else Some (hd (output_times bs)))
   \<and> resp_buf (pump_chunks g bs (new_ctx sn t0)) = (if gw_trace_off g then [] else concat (map snd bs))"
  using pump_chunks_traced [of g bs "new_ctx sn t0"] pump_chunks_untraced [of g "new_ctx sn t0" bs]
  by (auto simp: new_ctx_def Let_def)

end
