(* ===== verification/Export_Laws.thy ===== *)
theory Export_Laws
  imports Export_Pool
begin

text \<open>
  What the exporter keeps and promises: the invariant of its state (queue and batch bounds, the
  gauge, the permit account), the ledger it refines (every accepted record is delivered or lost
  exactly once), and the end of its shutdown.
\<close>

section \<open>The invariant\<close>

text \<open>\<open>W0\<close> is the width the batcher has applied to the semaphore so far.\<close>

definition permits_ok :: "'r exporter \<Rightarrow> bool" where
  "permits_ok s \<longleftrightarrow> 1 \<le> unat (width s) \<and> unat (width s) \<le> MAX_PERMITS
     \<and> (\<exists>W0. 1 \<le> unat W0 \<and> unat W0 \<le> MAX_PERMITS \<and> sema_delta s = width s - W0
          \<and> permits s + length (pool s) = unat W0 + pending_forget s)"

text \<open>What may be buffered at each point of the batcher's loop; \<open>closed\<close>: no sender is left and the
  queue is drained; \<open>idle\<close>: no flush is running.\<close>

fun phase_ok :: "'r phase \<Rightarrow> 'r list \<Rightarrow> bool \<Rightarrow> bool \<Rightarrow> bool" where
  "phase_ok Receiving b closed idle \<longleftrightarrow> length b < BATCH_MAX"
| "phase_ok Adjusting b closed idle \<longleftrightarrow> length b \<le> BATCH_MAX"
| "phase_ok Checking b closed idle \<longleftrightarrow> length b \<le> BATCH_MAX"
| "phase_ok (Parked tail t batch) b closed idle \<longleftrightarrow>
     b = [] \<and> batch \<noteq> [] \<and> length batch \<le> BATCH_MAX \<and> (tail \<longrightarrow> closed)"
| "phase_ok Tail b closed idle \<longleftrightarrow> length b \<le> BATCH_MAX \<and> closed"
| "phase_ok Joining b closed idle \<longleftrightarrow> b = [] \<and> closed"
| "phase_ok Stopped b closed idle \<longleftrightarrow> b = [] \<and> closed \<and> idle"

definition batches_ok :: "(flush_target \<times> 'r list) list \<Rightarrow> bool" where
  "batches_ok p \<longleftrightarrow> (\<forall>(t, batch) \<in> set p. batch \<noteq> [] \<and> length batch \<le> BATCH_MAX)"

definition buffers_ok :: "'r exporter \<Rightarrow> bool" where
  "buffers_ok s \<longleftrightarrow> length (tx_queue s) \<le> QUEUE_CAPACITY \<and> batches_ok (pool s)
     \<and> phase_ok (phase s) (buf s) (senders_gone s \<and> tx_queue s = []) (pool s = [])"

definition gauges_ok :: "'r exporter \<Rightarrow> bool" where
  "gauges_ok s \<longleftrightarrow> inflight (health s) = of_nat (length (pool s)) \<and> enabled s = (target s \<noteq> None)"

definition exporter_ok :: "'r exporter \<Rightarrow> bool" where
  "exporter_ok s \<longleftrightarrow> permits_ok s \<and> buffers_ok s \<and> gauges_ok s"

lemma unat_max_1: "unat (max n (1 :: u64)) = max (unat n) 1"
  by (simp add: max_def word_le_nat_alt)

lemma start_ok:
  "start b64 endpoint n w now = Some s \<Longrightarrow> unat n \<le> MAX_PERMITS \<Longrightarrow> exporter_ok s"
  by (auto simp: start_def exporter_ok_def permits_ok_def buffers_ok_def gauges_ok_def health_zero_def
      batches_ok_def unat_max_1 BATCH_MAX_def MAX_PERMITS_def)

subsection \<open>Permits\<close>

lemma sint_width_delta:
  assumes "unat a \<le> MAX_PERMITS" "unat b \<le> MAX_PERMITS"
  shows "sint (a - b :: u64) = int (unat a) - int (unat b)"
proof -
  have le: "uint a \<le> 2305843009213693951" "uint b \<le> 2305843009213693951"
  proof -
    have "int MAX_PERMITS = 2305843009213693951" by (simp add: MAX_PERMITS_def)
    moreover have "int (unat a) \<le> int MAX_PERMITS" "int (unat b) \<le> int MAX_PERMITS"
      using assms by (simp_all only: of_nat_le_iff)
    ultimately show "uint a \<le> 2305843009213693951" "uint b \<le> 2305843009213693951" by simp_all
  qed
  have ge: "0 \<le> uint a" "0 \<le> uint b" by simp_all
  have "a - b = word_of_int (uint a - uint b)" by simp
  moreover have "sint (word_of_int (uint a - uint b) :: u64) = uint a - uint b"
    by (intro signed_take_bit_int_eq_self [THEN trans [OF sint_sbintrunc']])
      (simp, use le ge in linarith)+
  ultimately show ?thesis by simp
qed

lemma permits_ok_adjust:
  assumes "permits_ok s"
  shows "permits_ok (adjust_width s)"
    and "sema_delta (adjust_width s) = 0"
    and "pending_forget (adjust_width s) = 0 \<or> permits (adjust_width s) = 0"
    and "width (adjust_width s) = width s"
proof -
  from assms obtain W0 where w: "1 \<le> unat (width s)" "unat (width s) \<le> MAX_PERMITS" "unat W0 \<le> MAX_PERMITS"
    "sema_delta s = width s - W0" "permits s + length (pool s) = unat W0 + pending_forget s"
    by (auto simp: permits_ok_def)
  define v where "v = unat (width s)"
  define u where "u = unat W0"
  have d: "sint (sema_delta s) = int v - int u"
    unfolding w(4) v_def u_def by (rule sint_width_delta [OF w(2,3)])
  have total: "permits s + length (pool s) = u + pending_forget s" using w(5) by (simp add: u_def)
  consider "u < v" | "v < u" | "v = u" by linarith
  then have "permits (adjust_width s) + length (pool (adjust_width s)) = v + pending_forget (adjust_width s)"
    by cases (use d total in \<open>auto simp: adjust_width_def forget_permits_def Let_def min_def nat_diff_distrib\<close>)
  then have "permits (adjust_width s) + length (pool (adjust_width s)) =
      unat (width s) + pending_forget (adjust_width s)" by (simp add: v_def)
  then show "permits_ok (adjust_width s)" unfolding permits_ok_def using w(1,2)
    by (intro conjI exI [of _ "width s"]) (simp_all add: adjust_width_def forget_permits_def Let_def)
  show "sema_delta (adjust_width s) = 0" "pending_forget (adjust_width s) = 0 \<or> permits (adjust_width s) = 0"
    "width (adjust_width s) = width s"
    by (simp_all add: adjust_width_def forget_permits_def Let_def min_def)
qed

lemma permits_ok_reload:
  assumes "permits_ok s" "apply_target b64 endpoint n s = Some s'" "unat (max n 1) \<le> MAX_PERMITS"
  shows "permits_ok s'"
  using assms by (auto simp: permits_ok_def apply_target_def Let_def unat_max_1)

lemma permits_ok_dispatch: "permits_ok s \<Longrightarrow> dispatch_batch s = Some s' \<Longrightarrow> permits_ok s'"
  by (fastforce simp: permits_ok_def dispatch_batch_def split: phase.splits if_splits)

lemma length_remove_nth: "i < length xs \<Longrightarrow> length (remove_nth i xs) = length xs - 1"
  by (simp add: remove_nth_def)

lemma set_remove_nth: "set (remove_nth i xs) \<subseteq> set xs"
  by (auto simp: remove_nth_def dest: in_set_takeD in_set_dropD)

lemma permits_ok_finish: "permits_ok s \<Longrightarrow> finish_task i fe s = Some s' \<Longrightarrow> permits_ok s'"
  by (fastforce simp: permits_ok_def finish_task_def length_remove_nth split: if_splits)

text \<open>The other operations do not touch the account.\<close>

lemma permits_ok_frame:
  "permits_ok s \<Longrightarrow> width s' = width s \<Longrightarrow> sema_delta s' = sema_delta s \<Longrightarrow> permits s' = permits s \<Longrightarrow>
   pool s' = pool s \<Longrightarrow> pending_forget s' = pending_forget s \<Longrightarrow> permits_ok s'"
  by (simp add: permits_ok_def)

lemmas pool_op_defs = submit_def recv_pass_def check_pass_def ship_def tail_pass_def

lemma permits_ok_step:
  assumes "permits_ok s" "pool_step b64 s e = Some s'"
  shows "permits_ok s'"
proof (cases e)
  case (Reload endpoint n)
  then show ?thesis using assms permits_ok_reload [OF assms(1)] by (auto split: if_splits)
next
  case Adjust
  then show ?thesis using assms permits_ok_adjust(1) [OF assms(1)] by (auto split: if_splits)
next
  case Dispatch
  then show ?thesis using assms permits_ok_dispatch by auto
next
  case (Finish i fe)
  then show ?thesis using assms permits_ok_finish by auto
next
  case (Receive rcv)
  then show ?thesis using assms(2)
    by (intro permits_ok_frame [OF assms(1)])
      (auto simp: pool_op_defs split: if_splits recv_result.splits list.splits)
qed (use assms(2) in \<open>auto intro!: permits_ok_frame [OF assms(1)] simp: pool_op_defs
       split: if_splits option.splits\<close>)

subsection \<open>Buffers and gauges\<close>

lemma batches_ok_append: "batches_ok (p @ [(t, batch)]) \<longleftrightarrow> batches_ok p \<and> batch \<noteq> [] \<and> length batch \<le> BATCH_MAX"
  by (auto simp: batches_ok_def)

lemma batches_ok_remove: "batches_ok p \<Longrightarrow> batches_ok (remove_nth i p)"
  using set_remove_nth [of i p] by (auto simp: batches_ok_def)

lemma buffers_ok_step:
  assumes "buffers_ok s" "pool_step b64 s e = Some s'"
  shows "buffers_ok s'"
proof (cases e)
  case (Submit r)
  then show ?thesis using assms
    by (cases "phase s") (auto simp: buffers_ok_def submit_def split: if_splits)
next
  case (Reload endpoint n)
  then show ?thesis using assms by (auto simp: buffers_ok_def apply_target_def Let_def split: if_splits)
next
  case Senders_gone
  then show ?thesis using assms by (cases "phase s") (auto simp: buffers_ok_def split: if_splits)
next
  case (Receive rcv)
  then show ?thesis using assms
    by (auto simp: buffers_ok_def recv_pass_def split: if_splits recv_result.splits list.splits)
next
  case Adjust
  then show ?thesis using assms
    by (auto simp: buffers_ok_def adjust_width_def forget_permits_def Let_def split: if_splits)
next
  case (Check now)
  then show ?thesis using assms
    by (auto simp: buffers_ok_def check_pass_def ship_def not_due_def BATCH_MAX_def
        split: if_splits option.splits)
next
  case Dispatch
  then show ?thesis using assms
    by (cases "phase s")
      (auto simp: buffers_ok_def dispatch_batch_def batches_ok_append BATCH_MAX_def split: if_splits)
next
  case (Finish i fe)
  then show ?thesis using assms
    by (cases "phase s") (auto simp: buffers_ok_def finish_task_def batches_ok_remove split: if_splits)
next
  case Ship_tail
  then show ?thesis using assms
    by (auto simp: buffers_ok_def tail_pass_def ship_def split: if_splits option.splits)
next
  case Join
  then show ?thesis using assms by (auto simp: buffers_ok_def split: if_splits)
qed

lemma inflight_books: "inflight (task_books fe n h) = inflight h - 1"
  by (simp add: task_books_def booking_drop_def flush_books_def count_failed_def Let_def
      split: flush_end.split answer.split)

lemma inflight_count_dropped [simp]: "inflight (count_dropped n h) = inflight h"
  by (simp add: count_dropped_def)

lemma target_changed_enabled: "\<not> target_changed a b \<Longrightarrow> (a = None) = (b = None)"
  by (auto simp: target_changed_def split: option.splits)

lemma gauges_ok_step:
  assumes "gauges_ok s" "pool_step b64 s e = Some s'"
  shows "gauges_ok s'"
proof (cases e)
  case (Finish i fe)
  then have "i < length (pool s)" using assms by (auto simp: finish_task_def split: if_splits)
  then have "(of_nat (length (pool s) - 1) :: u64) = of_nat (length (pool s)) - 1" by (simp add: of_nat_diff)
  with Finish assms show ?thesis
    by (auto simp: gauges_ok_def finish_task_def inflight_books length_remove_nth split: if_splits)
next
  case (Receive rcv)
  then show ?thesis using assms
    by (auto simp: gauges_ok_def recv_pass_def split: if_splits recv_result.splits list.splits)
qed (use assms in \<open>auto simp: gauges_ok_def apply_target_def pool_op_defs dispatch_batch_def adjust_width_def
       forget_permits_def Let_def split: if_splits option.splits phase.splits\<close>)

lemma exporter_ok_step: "exporter_ok s \<Longrightarrow> pool_step b64 s e = Some s' \<Longrightarrow> exporter_ok s'"
  unfolding exporter_ok_def using permits_ok_step buffers_ok_step gauges_ok_step by blast

section \<open>The ledger\<close>

text \<open>The specification of an exporter: every record offered is outstanding until it is delivered or
  lost, once. \<open>rebooked\<close> counts the records a loss has been counted for a second time.\<close>

record 'r ledger =
  outstanding :: "'r multiset"
  delivered :: "'r multiset"
  lost :: "'r multiset"
  rebooked :: nat

datatype 'r entry = Offer 'r | Deliver "'r multiset" | Lose "'r multiset" | Rebook nat

fun ledger_step :: "'r ledger \<Rightarrow> 'r entry \<Rightarrow> 'r ledger option" where
  "ledger_step a (Offer r) = Some (a\<lparr>outstanding := outstanding a + {#r#}\<rparr>)"
| "ledger_step a (Deliver M) =
     (if M \<subseteq># outstanding a
      then Some (a\<lparr>outstanding := outstanding a - M, delivered := delivered a + M\<rparr>) else None)"
| "ledger_step a (Lose M) =
     (if M \<subseteq># outstanding a
      then Some (a\<lparr>outstanding := outstanding a - M, lost := lost a + M\<rparr>) else None)"
| "ledger_step a (Rebook n) = Some (a\<lparr>rebooked := rebooked a + n\<rparr>)"

definition ledger_empty :: "'r ledger" where
  "ledger_empty = \<lparr>outstanding = {#}, delivered = {#}, lost = {#}, rebooked = 0\<rparr>"

fun parked :: "'r phase \<Rightarrow> 'r list" where
  "parked (Parked tail t batch) = batch"
| "parked _ = []"

definition held :: "'r exporter \<Rightarrow> 'r multiset" where
  "held s = mset (tx_queue s) + mset (buf s) + mset (parked (phase s)) + mset (concat (map snd (pool s)))"

text \<open>The entries a step of the exporter stands for.\<close>

fun task_entries :: "flush_end \<Rightarrow> 'r list \<Rightarrow> 'r entry list" where
  "task_entries (Ended (Answered status)) batch =
     (if 200 \<le> status \<and> status < 300 then [Deliver (mset batch)] else [Lose (mset batch)])"
| "task_entries (Ended Unreachable) batch = [Lose (mset batch)]"
| "task_entries Panicked_sending batch = [Lose (mset batch)]"
| "task_entries Panicked_logging batch = [Lose (mset batch), Rebook (length batch)]"

fun pool_entries :: "'r exporter \<Rightarrow> 'r event \<Rightarrow> 'r entry list" where
  "pool_entries s (Submit r) =
     (if \<not> enabled s then []
      else if length (tx_queue s) < QUEUE_CAPACITY \<and> phase s \<noteq> Stopped then [Offer r]
      else [Offer r, Lose {#r#}])"
| "pool_entries s (Check now) =
     (if not_due now s \<or> target s \<noteq> None then [] else [Lose (mset (buf s))])"
| "pool_entries s Ship_tail =
     (if buf s = [] \<or> target s \<noteq> None then [] else [Lose (mset (buf s))])"
| "pool_entries s (Finish i fe) =
     (if i < length (pool s) then task_entries fe (snd (pool s ! i)) else [])"
| "pool_entries s _ = []"

definition booked :: "'r exporter \<Rightarrow> 'r ledger \<Rightarrow> bool" where
  "booked s a \<longleftrightarrow> outstanding a = held s
     \<and> exported (health s) = of_nat (size (delivered a))
     \<and> failed (health s) + dropped (health s) = of_nat (size (lost a) + rebooked a)"

lemma held_remove:
  "i < length (pool s) \<Longrightarrow>
     mset (concat (map snd (pool s))) =
       mset (concat (map snd (remove_nth i (pool s)))) + mset (snd (pool s ! i))"
  by (subst id_take_nth_drop [of i "pool s"]) (simp_all add: remove_nth_def)

lemma task_booked:
  assumes "outstanding a = R + mset batch" "exported h = of_nat (size (delivered a))"
    "failed h + dropped h = of_nat (size (lost a) + rebooked a)"
  shows "\<exists>a'. run ledger_step a (task_entries fe batch) = Some a' \<and> outstanding a' = R
     \<and> exported (task_books fe (length batch) h) = of_nat (size (delivered a'))
     \<and> failed (task_books fe (length batch) h) + dropped (task_books fe (length batch) h)
         = of_nat (size (lost a') + rebooked a')"
proof -
  note books = task_books_def booking_drop_def flush_books_def count_failed_def Let_def
  show ?thesis
  proof (cases fe)
    case (Ended ans)
    then show ?thesis using assms by (cases ans) (auto simp: books algebra_simps)
  qed (use assms in \<open>auto simp: books algebra_simps\<close>)
qed

lemma books_dropped [simp]:
  "exported (count_dropped n h) = exported h" "failed (count_dropped n h) = failed h"
  "dropped (count_dropped n h) = dropped h + of_nat n"
  by (simp_all add: count_dropped_def)

text \<open>Steps that only move records around leave the books alone.\<close>

lemma booked_frame:
  "booked s a \<Longrightarrow> held s' = held s \<Longrightarrow> health s' = health s \<Longrightarrow> booked s' a"
  by (simp add: booked_def)

lemma booked_lose:
  assumes "booked s a" "held s = held s' + mset b" "health s' = count_dropped (length b) (health s)"
  shows "\<exists>a'. run ledger_step a [Lose (mset b)] = Some a' \<and> booked s' a'"
  using assms by (auto simp: booked_def algebra_simps)

lemma pool_step_booked:
  assumes "booked s a" "pool_step b64 s e = Some s'"
  shows "\<exists>a'. run ledger_step a (pool_entries s e) = Some a' \<and> booked s' a'"
proof (cases e)
  case (Submit r)
  then show ?thesis using assms
    by (auto simp: booked_def submit_def held_def algebra_simps split: if_splits)
next
  case (Reload endpoint n)
  then show ?thesis using assms
    by (auto simp: booked_def held_def apply_target_def Let_def split: if_splits)
next
  case (Receive rcv)
  then have "held s' = held s" "health s' = health s" using assms(2)
    by (auto simp: recv_pass_def held_def split: if_splits recv_result.splits list.splits)
  with Receive show ?thesis using booked_frame [OF assms(1)] by simp
next
  case Adjust
  then have "held s' = held s" "health s' = health s" using assms(2)
    by (auto simp: adjust_width_def forget_permits_def held_def Let_def split: if_splits)
  with Adjust show ?thesis using booked_frame [OF assms(1)] by simp
next
  case (Check now)
  show ?thesis
  proof (cases "not_due now s \<or> target s \<noteq> None")
    case True
    then have "held s' = held s" "health s' = health s" using assms(2) Check
      by (auto simp: check_pass_def ship_def held_def split: if_splits option.splits)
    with True Check show ?thesis using booked_frame [OF assms(1)] by auto
  next
    case False
    then have "held s = held s' + mset (buf s)" "health s' = count_dropped (length (buf s)) (health s)"
      using assms(2) Check by (auto simp: check_pass_def ship_def held_def split: if_splits)
    with False Check show ?thesis using booked_lose [OF assms(1)] by simp
  qed
next
  case Dispatch
  then have "held s' = held s" "exported (health s') = exported (health s)"
    "failed (health s') = failed (health s)" "dropped (health s') = dropped (health s)"
    using assms(2) by (auto simp: dispatch_batch_def held_def split: phase.splits if_splits)
  with Dispatch assms(1) show ?thesis by (simp add: booked_def)
next
  case (Finish i fe)
  let ?b = "snd (pool s ! i)"
  have i: "i < length (pool s)" and s': "s' = s\<lparr>pool := remove_nth i (pool s), permits := permits s + 1,
      health := task_books fe (length ?b) (health s)\<rparr>"
    using assms(2) Finish by (auto simp: finish_task_def split: if_splits)
  have "outstanding a = held s' + mset ?b"
    using assms(1) held_remove [OF i] by (simp add: booked_def held_def s')
  from task_booked [OF this] assms(1) have
    "\<exists>a'. run ledger_step a (task_entries fe ?b) = Some a' \<and> booked s' a'"
    by (fastforce simp: booked_def s')
  with Finish i show ?thesis by simp
next
  case Ship_tail
  show ?thesis
  proof (cases "buf s = [] \<or> target s \<noteq> None")
    case True
    then have "held s' = held s" "health s' = health s" using assms(2) Ship_tail
      by (auto simp: tail_pass_def ship_def held_def split: if_splits option.splits)
    with True Ship_tail show ?thesis using booked_frame [OF assms(1)] by auto
  next
    case False
    then have "held s = held s' + mset (buf s)" "health s' = count_dropped (length (buf s)) (health s)"
      using assms(2) Ship_tail by (auto simp: tail_pass_def ship_def held_def split: if_splits)
    with False Ship_tail show ?thesis using booked_lose [OF assms(1)] by simp
  qed
qed (use assms in \<open>auto simp: booked_def held_def split: if_splits\<close>)

interpretation exporter_sim: simulation "pool_step b64" ledger_step pool_entries exporter_ok booked
  by unfold_locales (auto dest: exporter_ok_step intro: pool_step_booked)

lemma start_booked: "start b64 endpoint n w now = Some s \<Longrightarrow> booked s ledger_empty"
  by (auto simp: start_def booked_def held_def ledger_empty_def health_zero_def)

lemma reachable_booked:
  assumes "start b64 endpoint n w now = Some s0" "unat n \<le> MAX_PERMITS"
    and "run (pool_step b64) s0 es = Some s"
  shows "\<exists>a. run ledger_step ledger_empty (trace_of (pool_step b64) pool_entries s0 es) = Some a \<and> booked s a"
  by (rule exporter_sim.simulates [OF start_ok [OF assms(1,2)] start_booked [OF assms(1)] assms(3)])

section \<open>Properties\<close>

definition demo_b64 :: "bytes \<Rightarrow> string" where "demo_b64 bs = bs"

definition demo_start :: "nat exporter" where
  "demo_start = \<lparr>tx_queue = [], senders_gone = False, health = health_zero, width = 2, workers = 1,
     target = Some \<lparr>ft_endpoint = ''http://h'', ft_auth_header = None\<rparr>, client = 0, sema_delta = 0,
     enabled = True, permits = 2, pool = [], buf = [], last_flush = 0, pending_forget = 0,
     phase = Receiving\<rparr>"

lemma demo_start_eq: "start demo_b64 ''http://h'' 2 1 0 = Some demo_start"
  by code_simp

definition demo_events :: "nat event list" where
  "demo_events = [Submit 7, Submit 8, Receive Got, Adjust, Check 600, Dispatch, Finish 0 (Ended (Answered 200)),
     Reload ''http://h'' 1, Receive Got, Adjust, Check 1300, Dispatch, Finish 0 (Ended Unreachable)]"

text \<open>C15 The exporter refines the ledger: whatever the interleaving of submits, reloads, batches,
  answers and panics, each record accepted for export is, exactly once, held, delivered or lost; the
  \<open>exported\<close> counter counts the delivered records, and \<open>failed + dropped\<close> the lost ones, plus those
  booked twice because the failure's log line panicked.\<close>

theorem exporter_refines_ledger:
  assumes "start b64 endpoint n w now = Some s0" and "unat n \<le> MAX_PERMITS"
    and "run (pool_step b64) s0 es = Some s"
  shows "\<exists>a. run ledger_step ledger_empty (trace_of (pool_step b64) pool_entries s0 es) = Some a
     \<and> outstanding a = held s
     \<and> exported (health s) = of_nat (size (delivered a))
     \<and> failed (health s) + dropped (health s) = of_nat (size (lost a) + rebooked a)"
  using reachable_booked [OF assms] by (simp add: booked_def)

lemma demo_build: "build_target demo_b64 ''http://h'' = Some (Some \<lparr>ft_endpoint = ''http://h'', ft_auth_header = None\<rparr>)"
  by code_simp

lemmas demo_defs = submit_def apply_target_def target_changed_def recv_pass_def adjust_width_def
  forget_permits_def check_pass_def not_due_def ship_def dispatch_batch_def finish_task_def
  task_books_def booking_drop_def flush_books_def count_failed_def remove_nth_def Let_def
  QUEUE_CAPACITY_def BATCH_INTERVAL_def BATCH_MAX_def MAX_PERMITS_def

lemma demo_runs:
  "map_option (\<lambda>s. (exported (health s), failed (health s), permits s, tx_queue s))
     (run (pool_step demo_b64) demo_start demo_events) = Some (1, 1, 1, [])"
  by (simp add: demo_events_def demo_start_def health_zero_def demo_build demo_defs)

lemma exporter_refines_ledger_witness:
  "\<exists>s a. run (pool_step demo_b64) demo_start demo_events = Some s
     \<and> run ledger_step ledger_empty (trace_of (pool_step demo_b64) pool_entries demo_start demo_events) = Some a
     \<and> exported (health s) = of_nat (size (delivered a))"
proof -
  obtain s where s: "run (pool_step demo_b64) demo_start demo_events = Some s"
    using demo_runs by (auto simp: map_option_case split: option.splits)
  show ?thesis using exporter_refines_ledger [OF demo_start_eq _ s] s by (auto simp: MAX_PERMITS_def)
qed

text \<open>What the trace of a history offers and rebooks.\<close>

fun offers :: "'r entry list \<Rightarrow> nat" where
  "offers [] = 0"
| "offers (e # es) = (case e of Offer r \<Rightarrow> 1 | _ \<Rightarrow> 0) + offers es"

fun rebooks :: "'r entry list \<Rightarrow> nat" where
  "rebooks [] = 0"
| "rebooks (e # es) = (case e of Rebook n \<Rightarrow> n | _ \<Rightarrow> 0) + rebooks es"

lemma ledger_totals:
  "run ledger_step a es = Some b \<Longrightarrow>
     size (outstanding b) + size (delivered b) + size (lost b)
       = size (outstanding a) + size (delivered a) + size (lost a) + offers es
     \<and> rebooked b = rebooked a + rebooks es"
proof (induction es arbitrary: a)
  case (Cons e es)
  then obtain c where c: "ledger_step a e = Some c" "run ledger_step c es = Some b"
    by (auto split: Option.bind_splits)
  have "size (outstanding c) + size (delivered c) + size (lost c)
      = size (outstanding a) + size (delivered a) + size (lost a) + offers [e]
    \<and> rebooked c = rebooked a + rebooks [e]"
  proof -
    have "M \<subseteq># outstanding a \<Longrightarrow> size (outstanding a) - size M + size M = size (outstanding a)" for M
      by (simp add: size_mset_mono)
    then show ?thesis using c(1)
      by (cases e) (auto simp: size_Diff_submset algebra_simps split: if_splits)
  qed
  with Cons.IH [OF c(2)] show ?case by simp
qed simp

fun log_panic :: "'r event \<Rightarrow> bool" where
  "log_panic (Finish i Panicked_logging) \<longleftrightarrow> True"
| "log_panic _ \<longleftrightarrow> False"

lemma rebooks_append: "rebooks (es @ fs) = rebooks es + rebooks fs"
  by (induction es) simp_all

lemma no_rebooks: "\<not> log_panic e \<Longrightarrow> rebooks (pool_entries s e) = 0"
proof (cases e)
  case (Finish i fe)
  assume "\<not> log_panic e"
  with Finish show ?thesis by (cases fe) (auto split: answer.splits intro: task_entries.cases [of "(fe, snd (pool s ! i))"])
qed auto

lemma trace_no_rebooks:
  "list_all (\<lambda>e. \<not> log_panic e) es \<Longrightarrow> rebooks (trace_of (pool_step b64) pool_entries s es) = 0"
  by (induction es arbitrary: s) (auto simp: rebooks_append no_rebooks split: option.split)

text \<open>The health counters account for every record: in every history in which no log line
  panics, the records exported, failed and dropped, with those still held, are as many as were
  offered while export was enabled.\<close>

theorem exporter_counts:
  assumes "start b64 endpoint n w now = Some s0" and "unat n \<le> MAX_PERMITS"
    and "run (pool_step b64) s0 es = Some s" and "list_all (\<lambda>e. \<not> log_panic e) es"
  shows "exported (health s) + failed (health s) + dropped (health s) + of_nat (size (held s))
     = of_nat (offers (trace_of (pool_step b64) pool_entries s0 es))"
proof -
  from reachable_booked [OF assms(1-3)] obtain a where
    a: "run ledger_step ledger_empty (trace_of (pool_step b64) pool_entries s0 es) = Some a" "booked s a"
    by blast
  from ledger_totals [OF a(1)] trace_no_rebooks [OF assms(4)]
  have "rebooked a = 0" "size (outstanding a) + size (delivered a) + size (lost a) =
      offers (trace_of (pool_step b64) pool_entries s0 es)"
    by (simp_all add: ledger_empty_def)
  moreover from this(2) have "(of_nat (size (outstanding a)) + of_nat (size (delivered a)) + of_nat (size (lost a)) :: u64)
      = of_nat (offers (trace_of (pool_step b64) pool_entries s0 es))" by (metis of_nat_add)
  moreover have "exported (health s) + failed (health s) + dropped (health s) + of_nat (size (held s)) =
      of_nat (size (held s)) + exported (health s) + (failed (health s) + dropped (health s))"
    by (simp only: ac_simps)
  ultimately show ?thesis using a(2) unfolding booked_def by simp
qed

lemma exporter_counts_witness:
  "\<exists>s. run (pool_step demo_b64) demo_start demo_events = Some s
     \<and> exported (health s) + failed (health s) + dropped (health s) + of_nat (size (held s)) = 2"
proof -
  obtain s where s: "run (pool_step demo_b64) demo_start demo_events = Some s"
    using demo_runs by (auto simp: map_option_case split: option.splits)
  have "offers (trace_of (pool_step demo_b64) pool_entries demo_start demo_events) = 2"
    by (simp add: demo_events_def demo_start_def health_zero_def demo_build demo_defs)
  with exporter_counts [OF demo_start_eq _ s] s show ?thesis
    by (auto simp: MAX_PERMITS_def demo_events_def)
qed

text \<open>C22 The exporter's memory and concurrency are bounded in every reachable state, across reloads:
  at most 1024 records are queued, a batch has 1 to 32 records, the \<open>inflight\<close> gauge is the number
  of running flushes, and flushes and free permits together are the width the batcher has applied
  plus the permits a shrink still has to forget, so no flush runs without a permit.\<close>

theorem exporter_bounds:
  assumes "start b64 endpoint n w now = Some s0" and "unat n \<le> MAX_PERMITS"
    and "run (pool_step b64) s0 es = Some s"
  shows "length (tx_queue s) \<le> QUEUE_CAPACITY \<and> length (buf s) \<le> BATCH_MAX
     \<and> (\<forall>(t, batch) \<in> set (pool s). 1 \<le> length batch \<and> length batch \<le> BATCH_MAX)
     \<and> inflight (health s) = of_nat (length (pool s))
     \<and> (\<exists>W0. 1 \<le> unat W0 \<and> sema_delta s = width s - W0
          \<and> length (pool s) + permits s = unat W0 + pending_forget s)"
proof -
  have ok: "exporter_ok s" by (rule exporter_sim.run_inv [OF start_ok [OF assms(1,2)] assms(3)])
  then have "length (buf s) \<le> BATCH_MAX"
    by (cases "phase s") (auto simp: exporter_ok_def buffers_ok_def)
  with ok show ?thesis
    by (fastforce simp: exporter_ok_def buffers_ok_def batches_ok_def gauges_ok_def permits_ok_def Suc_le_eq)
qed

lemma exporter_bounds_witness:
  "\<exists>s. run (pool_step demo_b64) demo_start demo_events = Some s \<and> length (tx_queue s) \<le> QUEUE_CAPACITY"
proof -
  obtain s where s: "run (pool_step demo_b64) demo_start demo_events = Some s"
    using demo_runs by (auto simp: map_option_case split: option.splits)
  have "unat (2 :: u64) \<le> MAX_PERMITS" by (simp add: MAX_PERMITS_def)
  from exporter_bounds [OF demo_start_eq this s] s show ?thesis by blast
qed

text \<open>The pool reaches the configured width: once the batcher has passed its adjustment, if no more
  flushes are running than the configured width, the semaphore holds exactly the rest of that
  width, whatever reloads came before.\<close>

theorem exporter_width_applied:
  assumes "exporter_ok s" and "pool_step b64 s Adjust = Some s'" and "length (pool s') \<le> unat (width s')"
  shows "permits s' + length (pool s') = unat (width s') \<and> pending_forget s' = 0"
proof -
  have p: "permits_ok s" and s': "s' = adjust_width s"
    using assms(1,2) by (auto simp: exporter_ok_def split: if_splits)
  note adj = permits_ok_adjust [OF p, folded s']
  from adj(1,2) have "permits s' + length (pool s') = unat (width s') + pending_forget s'"
    by (auto simp: permits_ok_def)
  with adj(3) assms(3) show ?thesis by auto
qed

lemma exporter_width_applied_witness:
  "permits (adjust_width (demo_start\<lparr>phase := Adjusting\<rparr>)) + length (pool (adjust_width (demo_start\<lparr>phase := Adjusting\<rparr>)))
     = unat (width (adjust_width (demo_start\<lparr>phase := Adjusting\<rparr>)))"
proof -
  let ?s = "demo_start\<lparr>phase := Adjusting\<rparr>"
  have "exporter_ok demo_start" by (rule start_ok [OF demo_start_eq]) (simp add: MAX_PERMITS_def)
  then have "exporter_ok ?s"
    by (simp add: exporter_ok_def permits_ok_def buffers_ok_def gauges_ok_def demo_start_def)
  moreover have "pool_step demo_b64 ?s Adjust = Some (adjust_width ?s)" by simp
  moreover have "length (pool (adjust_width ?s)) \<le> unat (width (adjust_width ?s))"
    by (simp add: demo_start_def adjust_width_def forget_permits_def Let_def)
  ultimately show ?thesis by (rule exporter_width_applied [THEN conjunct1])
qed

subsection \<open>Shutdown\<close>

text \<open>Once every sender is gone, only the batcher and the flush tasks move.\<close>

definition drain_step :: "'r exporter \<Rightarrow> 'r event \<Rightarrow> 'r exporter option" where
  "drain_step s e = (if senders_gone s then pool_step (\<lambda>_. []) s e else None)"

definition draining :: "'r exporter \<Rightarrow> bool" where
  "draining s \<longleftrightarrow> exporter_ok s \<and> senders_gone s"

fun phase_work :: "'r phase \<Rightarrow> nat" where
  "phase_work Receiving = 10"
| "phase_work Adjusting = 17"
| "phase_work Checking = 16"
| "phase_work (Parked tail t batch) = (if tail then 8 else 15)"
| "phase_work Tail = 9"
| "phase_work Joining = 2"
| "phase_work Stopped = 0"

definition drain_work :: "'r exporter \<Rightarrow> nat" where
  "drain_work s = 8 * length (tx_queue s) + 3 * length (pool s) + phase_work (phase s)"

lemma draining_step: "draining s \<Longrightarrow> drain_step s e = Some s' \<Longrightarrow> draining s'"
proof -
  assume a: "draining s" "drain_step s e = Some s'"
  then have st: "senders_gone s" "pool_step (\<lambda>_. []) s e = Some s'" by (auto simp: drain_step_def split: if_splits)
  then have "senders_gone s'"
    by (cases e) (auto simp: pool_op_defs dispatch_batch_def finish_task_def adjust_width_def forget_permits_def
        Let_def split: if_splits option.splits phase.splits recv_result.splits list.splits)
  with a(1) st(2) exporter_ok_step show ?thesis by (auto simp: draining_def)
qed

lemma drain_decreases: "draining s \<Longrightarrow> drain_step s e = Some s' \<Longrightarrow> drain_work s' < drain_work s"
  by (cases e)
    (auto simp: draining_def drain_step_def drain_work_def recv_pass_def check_pass_def ship_def tail_pass_def
      dispatch_batch_def finish_task_def adjust_width_def forget_permits_def length_remove_nth Let_def
      split: if_splits option.splits phase.splits recv_result.splits list.splits)

lemma drain_progress: "draining s \<Longrightarrow> phase s \<noteq> Stopped \<Longrightarrow> \<exists>e s'. drain_step s e = Some s'"
proof -
  assume d: "draining s" and "phase s \<noteq> Stopped"
  then have g: "senders_gone s" and p: "permits_ok s" by (simp_all add: draining_def exporter_ok_def)
  have busy: "\<exists>e s'. drain_step s e = Some s'" if "pool s \<noteq> []"
    using that g by (intro exI [of _ "Finish 0 Panicked_sending"]) (simp add: drain_step_def finish_task_def)
  show ?thesis
  proof (cases "phase s")
    case Receiving
    then show ?thesis using g
      by (cases "tx_queue s")
        (auto simp: drain_step_def recv_pass_def intro: exI [of _ "Receive Closed"] exI [of _ "Receive Got"])
  next
    case Adjusting
    then show ?thesis using g by (intro exI [of _ Adjust]) (simp add: drain_step_def)
  next
    case Checking
    then show ?thesis using g by (intro exI [of _ "Check 0"]) (simp add: drain_step_def)
  next
    case (Parked tail t batch)
    show ?thesis
    proof (cases "pool s = []")
      case True
      with p have "0 < permits s" by (auto simp: permits_ok_def)
      with Parked g show ?thesis
        by (intro exI [of _ Dispatch]) (simp add: drain_step_def dispatch_batch_def)
    qed (rule busy)
  next
    case Tail
    then show ?thesis using g by (intro exI [of _ Ship_tail]) (simp add: drain_step_def)
  next
    case Joining
    then show ?thesis using g busy
      by (cases "pool s = []") (auto simp: drain_step_def intro: exI [of _ Join])
  next
    case Stopped
    with \<open>phase s \<noteq> Stopped\<close> show ?thesis by simp
  qed
qed

interpretation shutdown: terminating drain_step draining drain_work "\<lambda>s. phase s = Stopped"
  by unfold_locales (rule draining_step drain_decreases drain_progress; assumption)+

text \<open>C23 Shutdown ends and abandons nothing: once every sender is gone, in whatever state the pool is,
  the batcher and the flush tasks can only take finitely many more steps, they are never stuck
  before the loop has stopped, and when it stops nothing is queued, buffered or in flight.\<close>

theorem exporter_shutdown:
  assumes "exporter_ok s" and "senders_gone s"
  shows "(\<forall>es t. run drain_step s es = Some t \<longrightarrow> length es \<le> drain_work s
            \<and> (\<exists>fs u. run drain_step t fs = Some u \<and> phase u = Stopped)
            \<and> (phase t = Stopped \<longrightarrow> held t = {#}))"
proof (intro allI impI conjI)
  fix es t assume r: "run drain_step s es = Some t"
  have d: "draining s" using assms by (simp add: draining_def)
  show "length es \<le> drain_work s" using shutdown.bounded [OF d r] by simp
  have t: "draining t" by (rule run_invariant [where step = drain_step and ok = draining, OF draining_step d r])
  then show "\<exists>fs u. run drain_step t fs = Some u \<and> phase u = Stopped" by (rule shutdown.ends)
  assume "phase t = Stopped"
  with t show "held t = {#}" by (simp add: draining_def exporter_ok_def buffers_ok_def held_def)
qed

lemma exporter_shutdown_witness:
  "\<exists>fs u. run drain_step (demo_start\<lparr>senders_gone := True\<rparr>) fs = Some u \<and> phase u = Stopped"
proof -
  have "exporter_ok demo_start" by (rule start_ok [OF demo_start_eq]) (simp add: MAX_PERMITS_def)
  then have "exporter_ok (demo_start\<lparr>senders_gone := True\<rparr>)"
    by (simp add: exporter_ok_def permits_ok_def buffers_ok_def gauges_ok_def demo_start_def)
  from exporter_shutdown [OF this] have "\<forall>es t. run drain_step (demo_start\<lparr>senders_gone := True\<rparr>) es = Some t \<longrightarrow>
      (\<exists>fs u. run drain_step t fs = Some u \<and> phase u = Stopped)" by simp
  from this [rule_format, of "[]"] show ?thesis by simp
qed

text \<open>A failed batch can be booked twice: \<open>flush_batch\<close> counts it as failed and then writes the log
  line; if that write panics, the booking that unwinds counts the same records again.\<close>

theorem log_panic_books_twice:
  assumes "i < length (pool s)"
  shows "\<exists>s'. finish_task i Panicked_logging s = Some s'
     \<and> failed (health s') = failed (health s) + 2 * of_nat (length (snd (pool s ! i)))"
  using assms
  by (simp add: finish_task_def task_books_def booking_drop_def flush_books_def count_failed_def Let_def)

lemma log_panic_books_twice_witness:
  "\<exists>s'. finish_task 0 Panicked_logging
       (demo_start\<lparr>pool := [(\<lparr>ft_endpoint = ''http://h'', ft_auth_header = None\<rparr>, [7, 8])]\<rparr>) = Some s'
     \<and> failed (health s') = 4"
  using log_panic_books_twice
    [of 0 "demo_start\<lparr>pool := [(\<lparr>ft_endpoint = ''http://h'', ft_auth_header = None\<rparr>, [7, 8])]\<rparr>"]
  by (simp add: demo_start_def health_zero_def)

end
