(* ===== verification/Control.thy ===== *)
theory Control
  imports Gateway
begin

text \<open>
  The control endpoints of \<open>src/lib.rs\<close>: the Prometheus exposition \<open>render_metrics\<close>, the health and
  the configuration view, the dump of the window, and which response \<open>request_filter\<close> writes itself.
  The package version and the printer of a window of records are parameters.
\<close>

section \<open>Metrics\<close>

text \<open>U+2014 in UTF-8.\<close>

definition em_dash :: string where
  "em_dash = [CHR 0xE2, CHR 0x80, CHR 0x94]"

definition info_block :: "string \<Rightarrow> bool \<Rightarrow> config \<Rightarrow> gateway \<Rightarrow> string" where
  "info_block ver bench cfg g =
     ''# HELP atg_info Build and runtime identity of this gateway instance.'' @ lf
   @ ''# TYPE atg_info gauge'' @ lf
   @ ''atg_info{version=\"'' @ escape_label_value ver
   @ ''\",variant=\"'' @ variant_label bench
   @ ''\",trace_mode=\"'' @ trace_mode_label (gw_trace_off g)
   @ ''\",trace_tag=\"'' @ escape_label_value (tr_tag (c_trace cfg)) @ ''\"} 1'' @ lf"

definition gauge_rows :: "gateway \<Rightarrow> (string \<times> string \<times> u64) list" where
  "gauge_rows g =
     [(''atg_requests_inflight'', ''Requests currently inside the gateway (accepted, not yet logged).'',
         g_inflight (gw_gauges g)),
      (''atg_requests_awaiting_upstream'', ''In-flight requests that have not yet seen upstream response headers (gateway queue plus upstream first-byte wait).'',
         g_awaiting (gw_gauges g)),
      (''atg_requests_inflight_high_water'', ''Monotonic maximum of atg_requests_inflight since startup.'',
         g_high_water (gw_gauges g)),
      (''atg_worker_threads'', ''Effective pingora worker-thread count at startup.'',
         of_nat (gw_worker_threads g)),
      (''atg_export_queue_depth'', ''Turn records buffered in the OTLP export queue.'',
         of_nat (queue_depth (gw_exporter g))),
      (''atg_export_queue_capacity'', ''OTLP export queue capacity (0 = export disabled).'',
         of_nat (queue_capacity (gw_exporter g))),
      (''atg_export_inflight'', ''OTLP export batches currently in the flush pool (gauge; bounded by export.max_inflight).'',
         inflight (health (gw_exporter g))),
      (''atg_export_max_inflight'', ''Effective flush-pool width (export.max_inflight; 0 = export disabled).'',
         max_inflight_now (gw_exporter g)),
      (''atg_export_workers'', ''Effective export-runtime worker threads (export.workers; structural, fixed at startup).'',
         of_nat (workers_now (gw_exporter g))),
      (''atg_stitch_entries'', ''Prefix-stitch chains currently held (drives the stitcher's O(table) sweep cost '' @ em_dash @ '' ATG#5).'',
         of_nat (entries (gw_stitcher g))),
      (''atg_stitch_capacity'', ''Configured prefix-stitch LRU capacity.'',
         of_nat (capacity (gw_stitcher g)))]"

definition counter_rows :: "gateway \<Rightarrow> (string \<times> string \<times> u64) list" where
  "counter_rows g =
     [(''atg_turns_total'', ''Requests that produced a traced turn record.'',
         turns_total g),
      (''atg_turns_with_session_total'', ''Turns carrying an observed (non-synthetic) session id.'',
         turns_with_session g),
      (''atg_turns_with_harness_total'', ''Turns attributed to a known harness identity.'',
         turns_with_harness g),
      (''atg_hdr_evidence_dropped_total'', ''Header-evidence entries dropped by the per-turn byte budget.'',
         hdr_evidence_dropped g),
      (''atg_loose_path_matches_total'', ''Requests matching a protocol path loosely (endpoint-variant detection).'',
         loose_path_matches g),
      (''atg_failed_frames_total'', ''SSE frames that failed JSON parse during unpack (fail-open).'',
         failed_frames g),
      (''atg_store_dropped_total'', ''Turn records evicted by the bounded in-process store.'',
         Store.dropped (gw_store g)),
      (''atg_exported_total'', ''Turn records accepted by the OTLP endpoint.'',
         exported (health (gw_exporter g))),
      (''atg_export_failed_total'', ''Turn records whose OTLP export attempt failed.'',
         failed (health (gw_exporter g))),
      (''atg_export_dropped_total'', ''Turn records dropped because the export queue was full.'',
         Export_Pool.dropped (health (gw_exporter g))),
      (''atg_export_panicked_batches_total'', ''Export batches aborted by a panic inside the export task.'',
         panicked (health (gw_exporter g))),
      (''atg_stitch_expired_total'', ''Prefix-stitch chains dropped by TTL expiry.'',
         st_expired (gw_stitcher g)),
      (''atg_stitch_evicted_total'', ''Prefix-stitch chains dropped by the capacity LRU.'',
         st_evicted (gw_stitcher g)),
      (''atg_stitch_wait_ns_total'', ''Cumulative nanoseconds blocked on the prefix-stitch lock (contention).'',
         st_lock_wait_ns (gw_stitcher g)),
      (''atg_stitch_hold_ns_total'', ''Cumulative nanoseconds held inside the prefix-stitch lock (critical section).'',
         st_lock_hold_ns (gw_stitcher g)),
      (''atg_store_wait_ns_total'', ''Cumulative nanoseconds blocked on the trace-store lock (contention).'',
         fst (lock_ns_totals (gw_store g))),
      (''atg_store_hold_ns_total'', ''Cumulative nanoseconds held inside the trace-store lock (per-request push).'',
         snd (lock_ns_totals (gw_store g)))]"

definition histogram_rows :: "gateway \<Rightarrow> (string \<times> string \<times> histogram) list" where
  "histogram_rows g =
     [(''atg_stage_wait_upstream_seconds'', ''Request start to upstream response headers (gateway queueing plus upstream first-byte latency).'',
         stage_wait_upstream (gw_gauges g)),
      (''atg_stage_time_to_first_byte_seconds'', ''Request start to the first response body byte relayed downstream (ATG-internal TTFB).'',
         stage_time_to_first_byte (gw_gauges g)),
      (''atg_stage_delivery_seconds'', ''Upstream response headers to response body end (stream duration as seen by ATG).'',
         stage_delivery (gw_gauges g)),
      (''atg_stage_finalize_seconds'', ''Response body end to record finalized (decode/capture/encode tail).'',
         stage_finalize (gw_gauges g))]"

definition render_metrics :: "string \<Rightarrow> bool \<Rightarrow> 'w config_store \<Rightarrow> gateway \<Rightarrow> string" where
  "render_metrics ver bench cs g =
     (let out = info_block ver bench (sn_cfg (inner cs)) g;
          out = fold (\<lambda>(n, help, v) out. render_gauge out n help v) (gauge_rows g) out;
          out = fold (\<lambda>(n, help, v) out. render_counter out n help v) (counter_rows g) out
      in fold (\<lambda>(n, help, h) out. render_histogram h out n help) (histogram_rows g) out)"

section \<open>The JSON views\<close>

abbreviation jsize :: "nat \<Rightarrow> json" where
  "jsize n \<equiv> JNumber (PosInt (of_nat n))"

abbreviation jstr :: "string \<Rightarrow> json" where
  "jstr s \<equiv> JString s"

text \<open>\<open>u64::try_from(loaded_at_ms).unwrap_or(u64::MAX)\<close>.\<close>

definition clamp_u64 :: "nat \<Rightarrow> u64" where
  "clamp_u64 n = (if n < 2 ^ 64 then of_nat n else - 1)"

definition health_view :: "string \<Rightarrow> bool \<Rightarrow> 'w config_store \<Rightarrow> gateway \<Rightarrow> json" where
  "health_view ver bench cs g = json_obj
     [(''version'', jstr ver),
      (''variant'', jstr (variant_label bench)),
      (''trace_mode'', jstr (trace_mode_label (gw_trace_off g))),
      (''exported'', jnat (exported (health (gw_exporter g)))),
      (''failed'', jnat (failed (health (gw_exporter g)))),
      (''dropped'', jnat (Export_Pool.dropped (health (gw_exporter g)))),
      (''panicked'', jnat (panicked (health (gw_exporter g)))),
      (''store_dropped'', jnat (Store.dropped (gw_store g))),
      (''export_queue_depth'', jsize (queue_depth (gw_exporter g))),
      (''export_inflight'', jnat (inflight (health (gw_exporter g)))),
      (''export_max_inflight'', jnat (max_inflight_now (gw_exporter g))),
      (''export_workers'', jsize (workers_now (gw_exporter g))),
      (''stitch_entries'', jsize (entries (gw_stitcher g))),
      (''stitch_capacity'', jsize (capacity (gw_stitcher g))),
      (''stitch_expired_total'', jnat (st_expired (gw_stitcher g))),
      (''stitch_evicted_total'', jnat (st_evicted (gw_stitcher g))),
      (''stitch_wait_ns_total'', jnat (st_lock_wait_ns (gw_stitcher g))),
      (''stitch_hold_ns_total'', jnat (st_lock_hold_ns (gw_stitcher g))),
      (''store_wait_ns_total'', jnat (fst (lock_ns_totals (gw_store g)))),
      (''store_hold_ns_total'', jnat (snd (lock_ns_totals (gw_store g)))),
      (''failed_frames'', jnat (failed_frames g)),
      (''turns_total'', jnat (turns_total g)),
      (''loose_path_matches'', jnat (loose_path_matches g)),
      (''turns_with_session'', jnat (turns_with_session g)),
      (''turns_with_harness'', jnat (turns_with_harness g)),
      (''hdr_evidence_dropped'', jnat (hdr_evidence_dropped g)),
      (''inflight'', jnat (g_inflight (gw_gauges g))),
      (''inflight_high_water'', jnat (g_high_water (gw_gauges g))),
      (''awaiting_upstream'', jnat (g_awaiting (gw_gauges g))),
      (''worker_threads'', jsize (gw_worker_threads g)),
      (''config_path'', jstr (sn_path (inner cs))),
      (''config_sha256'', jstr (hex_encode (sn_sha256 (inner cs)))),
      (''config_generation'', jnat (sn_generation (inner cs))),
      (''config_loaded_at_ms'', jnat (clamp_u64 (sn_loaded_at_ms (inner cs)))),
      (''config_restart_required'', JArray (map JString (sn_restart_required (inner cs)))),
      (''config_reload_failures'', jnat (reload_failures cs))]"

definition config_view :: "'w config_store \<Rightarrow> gateway \<Rightarrow> json" where
  "config_view cs g = json_obj
     [(''config'', json_obj
         [(''path'', jstr (sn_path (inner cs))),
          (''sha256'', jstr (hex_encode (sn_sha256 (inner cs)))),
          (''generation'', jnat (sn_generation (inner cs))),
          (''loaded_at_ms'', jnat (clamp_u64 (sn_loaded_at_ms (inner cs)))),
          (''restart_required'', JArray (map JString (sn_restart_required (inner cs)))),
          (''reload_failures'', jnat (reload_failures cs))]),
      (''effective'', redacted_json (sn_cfg (inner cs))),
      (''structural'', json_obj
         [(''server.listen'', jstr (gw_listen g)),
          (''server.worker_threads'', jsize (gw_worker_threads g)),
          (''export.workers'', jsize (workers_now (gw_exporter g))),
          (''trace.mode'', jstr (trace_mode_label (gw_trace_off g)))])]"

section \<open>The responses the gateway writes itself\<close>

record http_response =
  rs_status :: nat
  rs_headers :: "(string \<times> string) list"
  rs_body :: string

definition ok_response :: "string \<Rightarrow> string \<Rightarrow> http_response" where
  "ok_response ctype body = \<lparr>rs_status = 200,
     rs_headers = [(''content-type'', ctype), (''content-length'', show_nat (length body))],
     rs_body = body\<rparr>"

text \<open>\<open>None\<close>: the request goes on, to the relay or to the pump.\<close>

definition control_response ::
  "string \<Rightarrow> bool \<Rightarrow> (json \<Rightarrow> string) \<Rightarrow> (turn_record list \<Rightarrow> string) \<Rightarrow> 'w config_store \<Rightarrow> gateway \<Rightarrow>
     route \<Rightarrow> http_response option" where
  "control_response ver bench render render_records cs g r =
     (case r of
        Serve_metrics \<Rightarrow>
          Some (ok_response ''text/plain; version=0.0.4; charset=utf-8'' (render_metrics ver bench cs g))
      | Serve_records l off \<Rightarrow>
          Some (ok_response ''application/json'' (render_records (snapshot_bounded l off (gw_store g))))
      | Serve_health \<Rightarrow> Some (ok_response ''application/json'' (render (health_view ver bench cs g)))
      | Serve_config \<Rightarrow> Some (ok_response ''application/json'' (render (config_view cs g)))
      | Relay d \<Rightarrow> None
      | Pump \<Rightarrow> None)"

section \<open>Laws\<close>


text \<open>The families of the exposition, in order, and the block of each.\<close>

definition family_names :: "gateway \<Rightarrow> string list" where
  "family_names g = ''atg_info'' # map fst (gauge_rows g) @ map fst (counter_rows g) @ map fst (histogram_rows g)"

definition metric_blocks :: "string \<Rightarrow> bool \<Rightarrow> 'w config_store \<Rightarrow> gateway \<Rightarrow> string list" where
  "metric_blocks ver bench cs g =
     info_block ver bench (sn_cfg (inner cs)) g
     # map (\<lambda>(n, help, v). render_gauge [] n help v) (gauge_rows g)
     @ map (\<lambda>(n, help, v). render_counter [] n help v) (counter_rows g)
     @ map (\<lambda>(n, help, h). render_histogram h [] n help) (histogram_rows g)"

lemma render_appends:
  "render_gauge out n help v = out @ render_gauge [] n help v"
  "render_counter out n help v = out @ render_counter [] n help v"
  "render_histogram h out n help = out @ render_histogram h [] n help"
  by (simp_all add: render_gauge_def render_counter_def render_histogram_def scalar_line_def render_head_def)

lemma fold_append:
  "(\<And>x out. f x out = out @ b x) \<Longrightarrow> fold f xs out = out @ concat (map b xs)"
  by (induction xs arbitrary: out) simp_all

lemma render_metrics_blocks: "render_metrics ver bench cs g = concat (metric_blocks ver bench cs g)"
proof -
  have 1: "fold (\<lambda>(n, help, v) out. render_gauge out n help v) rows out =
      out @ concat (map (\<lambda>(n, help, v). render_gauge [] n help v) rows)" for rows out
    by (rule fold_append) (simp add: case_prod_beta render_appends(1) [symmetric])
  have 2: "fold (\<lambda>(n, help, v) out. render_counter out n help v) rows out =
      out @ concat (map (\<lambda>(n, help, v). render_counter [] n help v) rows)" for rows out
    by (rule fold_append) (simp add: case_prod_beta render_appends(2) [symmetric])
  have 3: "fold (\<lambda>(n, help, h) out. render_histogram h out n help) rows out =
      out @ concat (map (\<lambda>(n, help, h). render_histogram h [] n help) rows)" for rows out
    by (rule fold_append) (simp add: case_prod_beta render_appends(3) [symmetric])
  show ?thesis by (simp add: render_metrics_def Let_def 1 2 3 metric_blocks_def)
qed

lemma family_names_distinct: "distinct (family_names g)"
  by (simp add: family_names_def gauge_rows_def counter_rows_def histogram_rows_def)

definition headed :: "string \<Rightarrow> string \<Rightarrow> bool" where
  "headed n b \<longleftrightarrow> starts_with b (''# HELP '' @ n @ '' '')"

lemma headed_blocks:
  "headed n (render_gauge [] n help v)" "headed n (render_counter [] n help v)"
  "headed n (render_histogram h [] n help)" "headed ''atg_info'' (info_block ver bench cfg g)"
  by (simp_all add: headed_def render_gauge_def render_counter_def render_histogram_def
      scalar_line_def render_head_def info_block_def starts_with_iff)

lemma list_all2_rows:
  "(\<And>x. P (fst x) (f x)) \<Longrightarrow> list_all2 P (map fst xs) (map f xs)"
  by (induction xs) simp_all

text \<open>The exposition is well formed: it is one block per metric family, no family twice, and every
  block opens with the help line of its family.\<close>

theorem metrics_one_block_per_family:
  "render_metrics ver bench cs g = concat (metric_blocks ver bench cs g)
   \<and> distinct (family_names g)
   \<and> list_all2 headed (family_names g) (metric_blocks ver bench cs g)"
proof -
  have "list_all2 headed (family_names g) (metric_blocks ver bench cs g)"
    unfolding family_names_def metric_blocks_def
    by (intro list_all2_appendI list_all2_rows list.rel_intros headed_blocks)
       (auto simp: case_prod_beta headed_blocks)
  then show ?thesis by (simp add: render_metrics_blocks family_names_distinct)
qed

end
