(* ===== verification/Startup.thy ===== *)
theory Startup
  imports Control
begin

text \<open>
  The process: \<open>run\<close> builds the components from the loaded file and registers \<open>HotApply::apply\<close> as
  the reload hook; a SIGHUP reloads. The command line of \<open>src/bin/gateway.rs\<close>.

  The running components are \<open>gateway option\<close>: \<open>None\<close> after a panic of the hook, which the parser
  of an endpoint's credentials can raise. Building the HTTP client and the server can only end the
  process; \<open>threads_set\<close> says whether the server's configuration could be changed.
\<close>

section \<open>Building and re-seeding the components\<close>

definition hot_apply :: "(bytes \<Rightarrow> string) \<Rightarrow> config \<Rightarrow> gateway \<Rightarrow> gateway option" where
  "hot_apply b64 cfg g =
     (let cap = set_max (min (unat (capture_max_bytes (c_capture cfg))) usize_max) (gw_cap g);
          st = set_caps (store_max_records (c_store cfg)) (store_max_bytes (c_store cfg)) (gw_store g);
          sti = set_limits (stitch_capacity (c_stitch cfg)) (stitch_ttl_ms (c_stitch cfg)) (gw_stitcher g)
      in map_option (\<lambda>ex. g\<lparr>gw_cap := cap, gw_store := st, gw_stitcher := sti, gw_exporter := ex\<rparr>)
           (apply_target b64 (otlp_endpoint (c_export cfg)) (max_inflight (c_export cfg)) (gw_exporter g)))"

type_synonym process = "gateway option config_store \<times> gateway option"

definition build_gateway :: "(bytes \<Rightarrow> string) \<Rightarrow> bytes \<Rightarrow> nat \<Rightarrow> bool \<Rightarrow> config \<Rightarrow> gateway option" where
  "build_gateway b64 stitch_salt now threads_set cfg =
     map_option (\<lambda>ex.
        \<lparr>gw_trace_off = (tr_mode (c_trace cfg) = ''off''), gw_listen = listen (c_server cfg),
         gw_cap = capture_new (min (unat (capture_max_bytes (c_capture cfg))) usize_max),
         gw_stitcher = with_limits stitch_salt now (stitch_capacity (c_stitch cfg)) (stitch_ttl_ms (c_stitch cfg)),
         gw_store = with_caps (min (unat (store_max_records (c_store cfg))) usize_max)
                      (min (unat (store_max_bytes (c_store cfg))) usize_max),
         gw_exporter = ex, failed_frames = 0, turns_total = 0, loose_path_matches = 0,
         turns_with_session = 0, turns_with_harness = 0, hdr_evidence_dropped = 0,
         gw_worker_threads = (if threads_set then unat (worker_threads (c_server cfg)) else 1),
         gw_gauges = gauges_new\<rparr>)
       (start b64 (otlp_endpoint (c_export cfg)) (max_inflight (c_export cfg))
          (unat (export_workers (c_export cfg))) now)"

text \<open>\<open>run\<close>: \<open>None\<close> when the process does not get to serve.\<close>

definition run_process ::
  "(bytes \<Rightarrow> string) \<Rightarrow> bytes \<Rightarrow> nat \<Rightarrow> bool \<Rightarrow> bool \<Rightarrow> gateway option config_store \<Rightarrow> process option" where
  "run_process b64 stitch_salt now client_built threads_set cs =
     (if \<not> client_built then None
      else map_option (\<lambda>g. (set_on_reload (\<lambda>cfg w. Option.bind w (hot_apply b64 cfg)) cs, Some g))
             (build_gateway b64 stitch_salt now threads_set (sn_cfg (inner cs))))"

definition sighup :: "(string \<Rightarrow> config_error + loaded) \<Rightarrow> nat \<Rightarrow> nat \<Rightarrow> process \<Rightarrow> process" where
  "sighup load now_ms elapsed p =
     (case reload load now_ms elapsed (fst p) (snd p) of (_, cs, w) \<Rightarrow> (cs, w))"

section \<open>The command line\<close>

datatype action =
    Exit nat string              \<comment> \<open>status and the line on the error output\<close>
  | Print string                 \<comment> \<open>output, status 0\<close>
  | Serve loaded

definition USAGE :: string where
  "USAGE = ''usage: agent-trace-gateway --config <path>'' @ lf
     @ ''       agent-trace-gateway config check <path>'' @ lf
     @ ''       agent-trace-gateway key-fp --config <path> <api-key>''"

text \<open>\<open>args.get(i)\<close>, with the program's name in front.\<close>

definition arg_at :: "string list \<Rightarrow> nat \<Rightarrow> string option" where
  "arg_at args i = (if i < length args then Some (args ! i) else None)"

definition config_fatal :: "config_error \<Rightarrow> action" where
  "config_fatal err =
     (let path = error_path err; file = (if path = [] then ''<unknown>'' else path)
      in Exit 2 (''agent-trace-gateway: config error: '' @ display_error err @ '' (file: '' @ file @ '')''))"

definition check_view :: "loaded \<Rightarrow> json" where
  "check_view l = json_obj
     [(''path'', jstr (ld_path l)), (''sha256'', jstr (hex_encode (ld_sha256 l))),
      (''len'', jnat (ld_len l)), (''effective'', redacted_json (ld_config l))]"

text \<open>\<open>pretty\<close>: \<open>serde_json::to_string_pretty\<close>, \<open>Inl\<close> its error.\<close>

definition main_action ::
  "(bytes \<Rightarrow> bytes) \<Rightarrow> (json \<Rightarrow> string + string) \<Rightarrow> (string \<Rightarrow> config_error + loaded) \<Rightarrow> string list \<Rightarrow> action" where
  "main_action sha pretty load args =
     (if arg_at args 1 = Some ''config'' then
        (if arg_at args 2 \<noteq> Some ''check'' \<or> length args \<noteq> 4 then Exit 2 USAGE
         else case load (args ! 3) of
                Inl err \<Rightarrow> config_fatal err
              | Inr l \<Rightarrow> (case pretty (check_view l) of
                    Inr out \<Rightarrow> Print (out @ lf)
                  | Inl e \<Rightarrow> Exit 2 (''agent-trace-gateway: config check: '' @ e)))
      else if arg_at args 1 = Some ''key-fp'' then
        (if arg_at args 2 \<noteq> Some ''--config'' \<or> length args \<noteq> 5 then Exit 2 USAGE
         else case load (args ! 3) of
                Inl err \<Rightarrow> config_fatal err
              | Inr l \<Rightarrow> Print (api_key_fp_of sha (args ! 4) (salt (c_api_key (ld_config l))) @ lf))
      else if arg_at args 1 \<noteq> Some ''--config'' \<or> length args \<noteq> 3 then Exit 2 USAGE
      else case load (args ! 2) of
             Inl err \<Rightarrow> config_fatal err
           | Inr l \<Rightarrow> Serve l)"

section \<open>The components follow the snapshot\<close>

text \<open>Every hot value a component holds is the one of the configuration, every structural one that of
  the start.\<close>

definition runs_config :: "(bytes \<Rightarrow> string) \<Rightarrow> config \<Rightarrow> gateway \<Rightarrow> bool" where
  "runs_config b64 cfg g \<longleftrightarrow>
     max_bytes (gw_cap g) = max (unat (capture_max_bytes (c_capture cfg))) 1
     \<and> max_records (gw_store g) = max (store_max_records (c_store cfg)) 1
     \<and> max_store_bytes (gw_store g) = max (store_max_bytes (c_store cfg)) 1
     \<and> st_capacity (gw_stitcher g) = max (stitch_capacity (c_stitch cfg)) 1
     \<and> st_ttl_ms (gw_stitcher g) = max (stitch_ttl_ms (c_stitch cfg)) 1
     \<and> width (gw_exporter g) = max (max_inflight (c_export cfg)) 1
     \<and> build_target b64 (otlp_endpoint (c_export cfg)) = Some (target (gw_exporter g))
     \<and> enabled (gw_exporter g) = (target (gw_exporter g) \<noteq> None)"

definition pinned :: "config \<Rightarrow> bool \<Rightarrow> gateway \<Rightarrow> bool" where
  "pinned cfg0 threads_set g \<longleftrightarrow>
     gw_listen g = listen (c_server cfg0) \<and> gw_trace_off g = (tr_mode (c_trace cfg0) = ''off'')
     \<and> gw_worker_threads g = (if threads_set then unat (worker_threads (c_server cfg0)) else 1)
     \<and> workers (gw_exporter g) = max (unat (export_workers (c_export cfg0))) 1"

lemma u64_min_usize [simp]: "min (unat (n :: u64)) usize_max = unat n"
  using u64_le_usize [of n] by simp

lemma u64_max_1: "max n 1 = (if n = 0 then 1 else n)" for n :: u64
proof (cases "n = 0")
  case False
  then have "1 \<le> unat n" by (simp add: Suc_le_eq unat_gt_0)
  then have "1 \<le> n" by (simp add: word_le_nat_alt)
  with False show ?thesis by (simp add: max_absorb1)
qed (simp add: max_absorb2)

lemma of_nat_max_1: "(of_nat (max (unat n) 1) :: u64) = max n 1" for n :: u64
proof (cases "n = 0")
  case False
  then have "1 \<le> unat n" by (simp add: Suc_le_eq unat_gt_0)
  with False show ?thesis by (simp add: max_absorb1 u64_max_1)
qed (simp add: u64_max_1)

lemma at_least_1_max: "at_least_1 n = max n 1"
  by (simp add: at_least_1_def u64_max_1)

lemma build_runs:
  assumes "build_gateway b64 slt now ts cfg = Some g"
  shows "runs_config b64 cfg g \<and> pinned cfg ts g"
  using assms
  by (auto simp: build_gateway_def start_def runs_config_def pinned_def capture_new_def max_bytes_def
      with_caps_def with_limits_def of_nat_max_1 of_nat_max_1 [unfolded One_nat_def] at_least_1_max)

lemma apply_target_spec:
  assumes "apply_target b64 ep n s = Some s'"
    and "enabled s = (target s \<noteq> None)"
  shows "build_target b64 ep = Some (target s') \<and> enabled s' = (target s' \<noteq> None)
    \<and> width s' = max n 1 \<and> workers s' = workers s"
proof -
  from assms(1) obtain t where t: "build_target b64 ep = Some t" by (auto simp: apply_target_def)
  have "target_changed (target s) t \<or> target s = t"
    by (auto simp: target_changed_def split: option.split intro: flush_target.equality)
  with t assms show ?thesis by (auto simp: apply_target_def Let_def)
qed

lemma hot_apply_runs:
  assumes "hot_apply b64 cfg g = Some g'" "runs_config b64 old g" "pinned cfg0 ts g"
  shows "runs_config b64 cfg g' \<and> pinned cfg0 ts g'"
proof -
  from assms(1) obtain ex where ex: "apply_target b64 (otlp_endpoint (c_export cfg))
      (max_inflight (c_export cfg)) (gw_exporter g) = Some ex"
    by (auto simp: hot_apply_def Let_def)
  from assms(2) have "enabled (gw_exporter g) = (target (gw_exporter g) \<noteq> None)"
    by (simp add: runs_config_def)
  note ex' = apply_target_spec [OF ex this]
  have g': "g' = g\<lparr>gw_cap := set_max (min (unat (capture_max_bytes (c_capture cfg))) usize_max) (gw_cap g),
      gw_store := set_caps (store_max_records (c_store cfg)) (store_max_bytes (c_store cfg)) (gw_store g),
      gw_stitcher := set_limits (stitch_capacity (c_stitch cfg)) (stitch_ttl_ms (c_stitch cfg)) (gw_stitcher g),
      gw_exporter := ex\<rparr>"
    using assms(1) ex by (simp add: hot_apply_def Let_def)
  show ?thesis
    using ex' assms(3)
    unfolding g' runs_config_def pinned_def
    by (simp add: set_max_def max_bytes_def set_caps_def set_limits_def at_least_1_def u64_max_1)
qed

text \<open>A process in the course of its life: the hook is registered, and the components run the
  configuration of the current snapshot, or the hook has panicked.\<close>

definition process_ok :: "(bytes \<Rightarrow> string) \<Rightarrow> config \<Rightarrow> bool \<Rightarrow> process \<Rightarrow> bool" where
  "process_ok b64 cfg0 ts p \<longleftrightarrow>
     on_reload (fst p) = Some (\<lambda>cfg w. Option.bind w (hot_apply b64 cfg))
     \<and> (case snd p of
          Some g \<Rightarrow> runs_config b64 (sn_cfg (inner (fst p))) g \<and> pinned cfg0 ts g
        | None \<Rightarrow> True)"

lemma process_start:
  "run_process b64 slt now built ts cs = Some p \<Longrightarrow> process_ok b64 (sn_cfg (inner cs)) ts p"
  using build_runs
  by (auto simp: run_process_def process_ok_def set_on_reload_def split: if_splits)

lemma process_sighup:
  assumes "process_ok b64 cfg0 ts p"
  shows "process_ok b64 cfg0 ts (sighup load now el p)"
proof (cases "load (sn_path (inner (fst p)))")
  case (Inl err)
  with assms show ?thesis
    by (cases "snd p") (simp_all add: sighup_def reload_def process_ok_def Let_def)
next
  case (Inr l)
  have "runs_config b64 (ld_config l) g' \<and> pinned cfg0 ts g'"
    if "snd p = Some g" "hot_apply b64 (ld_config l) g = Some g'" for g g'
    using hot_apply_runs [OF that(2)] assms that(1) by (auto simp: process_ok_def)
  with assms Inr show ?thesis
    by (auto simp: sighup_def reload_def process_ok_def Let_def bind_eq_Some_conv
        split: prod.split option.split)
qed

text \<open>Through any number of reloads, successful or failed, the running components hold exactly the
  hot values of the configuration that the requests see in their snapshots (capture cap, window
  bounds, stitcher limits, export target with its credentials, pool width), while the listen address,
  the worker threads, the capture mode and the export workers stay those of the start.\<close>

theorem components_follow_snapshot:
  assumes "run_process b64 slt now built ts cs = Some p"
    and "q = fold (\<lambda>(load, now_ms, el). sighup load now_ms el) reloads p" "snd q = Some g"
  shows "runs_config b64 (sn_cfg (inner (fst q))) g \<and> pinned (sn_cfg (inner cs)) ts g"
proof -
  have "process_ok b64 (sn_cfg (inner cs)) ts (fold (\<lambda>(load, now_ms, el). sighup load now_ms el) rs u)"
    if "process_ok b64 (sn_cfg (inner cs)) ts u" for rs u
    using that
  proof (induction rs arbitrary: u)
    case (Cons r rs)
    obtain load now_ms el where "r = (load, now_ms, el)" by (cases r) auto
    with Cons.IH [OF process_sighup [OF Cons.prems, of load now_ms el]] show ?case by simp
  qed simp
  from this [OF process_start [OF assms(1)], of reloads] assms(2,3) show ?thesis
    by (simp add: process_ok_def)
qed

text \<open>A process whose file changes its capture cap between two reloads, the second of which fails.\<close>

definition demo_store :: "gateway option config_store" where
  "demo_store = from_config 0 sample_config"

definition demo_reloads :: "((string \<Rightarrow> config_error + loaded) \<times> nat \<times> nat) list" where
  "demo_reloads =
     [(\<lambda>_. Inr \<lparr>ld_config = sample_config\<lparr>c_capture := \<lparr>capture_max_bytes = 7\<rparr>\<rparr>,
         ld_sha256 = [], ld_path = ''f'', ld_len = 0\<rparr>, 5, 1),
      (\<lambda>_. Inl (IoError ''f'' ''gone''), 6, 1)]"

lemma trim_Nil: "trim [] = []"
  by code_simp

lemma demo_process:
  "\<exists>p g. run_process (\<lambda>_. []) [] 0 True True demo_store = Some p
     \<and> snd (fold (\<lambda>(load, now_ms, el). sighup load now_ms el) demo_reloads p) = Some g
     \<and> sn_cfg (inner (fst (fold (\<lambda>(load, now_ms, el). sighup load now_ms el) demo_reloads p))) =
         sample_config\<lparr>c_capture := \<lparr>capture_max_bytes = 7\<rparr>\<rparr>"
  by (simp add: run_process_def build_gateway_def start_def build_target_def demo_store_def from_config_def
      config_store_new_def set_on_reload_def sample_config_def demo_reloads_def sighup_def reload_def
      hot_apply_def apply_target_def trim_Nil Let_def split: prod.split)

theorem components_follow_snapshot_witness:
  "\<exists>p g. run_process (\<lambda>_. []) [] 0 True True demo_store = Some p
     \<and> snd (fold (\<lambda>(load, now_ms, el). sighup load now_ms el) demo_reloads p) = Some g
     \<and> max_bytes (gw_cap g) = 7"
proof -
  obtain p g where p: "run_process (\<lambda>_. []) [] 0 True True demo_store = Some p"
    and g: "snd (fold (\<lambda>(load, now_ms, el). sighup load now_ms el) demo_reloads p) = Some g"
    and cfg: "sn_cfg (inner (fst (fold (\<lambda>(load, now_ms, el). sighup load now_ms el) demo_reloads p))) =
         sample_config\<lparr>c_capture := \<lparr>capture_max_bytes = 7\<rparr>\<rparr>"
    using demo_process by blast
  from components_follow_snapshot [OF p refl g] cfg have "max_bytes (gw_cap g) = 7"
    by (simp add: runs_config_def)
  with p g show ?thesis by blast
qed

section \<open>The command line\<close>

lemma args_shape:
  "arg_at args 1 = Some a \<Longrightarrow> length args = 3 \<Longrightarrow> \<exists>prog. args = [prog, a, args ! 2]"
  "arg_at args 1 = Some a \<Longrightarrow> arg_at args 2 = Some b \<Longrightarrow> length args = 4 \<Longrightarrow>
     \<exists>prog. args = [prog, a, b, args ! 3]"
  "arg_at args 1 = Some a \<Longrightarrow> arg_at args 2 = Some b \<Longrightarrow> length args = 5 \<Longrightarrow>
     \<exists>prog. args = [prog, a, b, args ! 3, args ! 4]"
  by (auto simp: arg_at_def length_Suc_conv eval_nat_numeral)

lemma config_fatal_status: "\<exists>msg. config_fatal err = Exit 2 msg"
  by (simp add: config_fatal_def Let_def)

text \<open>The gateway serves only when it was started with a configuration file that loads; every
  other invocation ends at once, with status 2 unless it was a check or a fingerprint whose file
  loads.\<close>

theorem main_outcomes:
  "case main_action sha pretty load args of
     Serve l \<Rightarrow> \<exists>prog path. args = [prog, ''--config'', path] \<and> load path = Inr l
   | Exit n msg \<Rightarrow> n = 2
   | Print out \<Rightarrow> \<exists>prog path l. load path = Inr l \<and>
       (args = [prog, ''config'', ''check'', path]
        \<or> (\<exists>key. args = [prog, ''key-fp'', ''--config'', path, key]))"
proof -
  define check fp conf arg_check where "check = ''config''" and "fp = ''key-fp''"
    and "conf = ''--config''" and "arg_check = ''check''"
  consider (check) "arg_at args 1 = Some check" | (fp) "arg_at args 1 \<noteq> Some check" "arg_at args 1 = Some fp"
    | (other) "arg_at args 1 \<noteq> Some check" "arg_at args 1 \<noteq> Some fp"
    by blast
  then show ?thesis
  proof cases
    case check
    then show ?thesis
      using args_shape(2) [of args check arg_check]
      unfolding main_action_def conf_def [symmetric]
      unfolding check_def [symmetric] fp_def [symmetric] arg_check_def [symmetric]
      by (auto simp: config_fatal_def Let_def split: sum.split)
  next
    case fp
    then show ?thesis
      using args_shape(3) [of args fp conf]
      unfolding main_action_def conf_def [symmetric]
      unfolding check_def [symmetric] fp_def [symmetric] arg_check_def [symmetric]
      by (auto simp: config_fatal_def Let_def split: sum.split)
  next
    case other
    then show ?thesis
      using args_shape(1) [of args conf]
      unfolding main_action_def conf_def [symmetric]
      unfolding check_def [symmetric] fp_def [symmetric] arg_check_def [symmetric]
      by (auto simp: config_fatal_def Let_def split: sum.split)
  qed
qed

text \<open>The fingerprint printed for a key is the one the gateway records: \<open>key-fp\<close> computes, for the
  key without surrounding blanks, what a request with that key in its credential header gets under
  the same configuration.\<close>

theorem key_fp_matches:
  assumes "load path = Inr l" "trim sent = key" "key \<noteq> []"
    and "proto = ''anthropic.messages'' \<longrightarrow> get ''x-api-key'' = Some sent"
    and "proto \<noteq> ''anthropic.messages'' \<longrightarrow> get ''authorization'' = Some (''Bearer '' @ sent)"
  shows "main_action sha pretty load [prog, ''key-fp'', ''--config'', path, key] =
     Print (request_api_key_fp sha proto get (salt (c_api_key (ld_config l))) @ lf)"
proof -
  have "sent \<noteq> []" using assms(2,3) trim_Nil by metis
  then have fp: "request_api_key_fp sha proto get (salt (c_api_key (ld_config l))) =
      api_key_fp_of sha key (salt (c_api_key (ld_config l)))"
    using assms(2-5)
    by (cases "proto = ''anthropic.messages''")
       (simp_all only: request_api_key_fp_def bearer_key_def Let_def if_True if_False simp_thms
          Option.bind.simps opt_filter_def strip_prefix_append option.case)
  show ?thesis unfolding fp by (simp add: main_action_def arg_at_def assms(1))
qed

theorem key_fp_matches_witness:
  "main_action id (\<lambda>_. Inr []) (\<lambda>_. Inr \<lparr>ld_config = sample_config, ld_sha256 = [], ld_path = [], ld_len = 0\<rparr>)
     [''atg'', ''key-fp'', ''--config'', ''f'', ''k''] =
   Print (request_api_key_fp id ''openai.responses'' (\<lambda>_. Some ''Bearer  k'') ''s'' @ lf)"
proof -
  have t: "trim '' k'' = ''k''" by code_simp
  have "main_action id (\<lambda>_. Inr []) (\<lambda>_. Inr \<lparr>ld_config = sample_config, ld_sha256 = [], ld_path = [], ld_len = 0\<rparr>)
     [''atg'', ''key-fp'', ''--config'', ''f'', ''k''] =
   Print (request_api_key_fp id ''openai.responses'' (\<lambda>_. Some ''Bearer  k'')
     (salt (c_api_key (ld_config \<lparr>ld_config = sample_config, ld_sha256 = [], ld_path = [], ld_len = 0\<rparr>))) @ lf)"
    by (rule key_fp_matches [OF refl t]) simp_all
  then show ?thesis by (simp add: sample_config_def)
qed

end
