(* ===== verification/System.thy ===== *)
theory System
  imports Gateway_Laws Export_Laws Startup
begin

text \<open>
  The whole process: requests in any stage, SIGHUP reloads and the exporter's batcher, interleaved
  in any order. A request is known by an identity of its own, from \<open>new_ctx\<close> until \<open>logging\<close>
  has run; what it may do next depends on its stage. Every hook works on the components as the
  others left them; the relay reads the capture cap of the moment of each chunk.
\<close>

section \<open>Requests in flight\<close>

datatype stage =
    Accepted ctx              \<comment> \<open>before \<open>request_filter\<close>\<close>
  | Pumped ctx                \<comment> \<open>proxied by pingora's pump\<close>
  | Relaying descriptor pump  \<comment> \<open>in the body loop of \<open>relay\<close>\<close>
  | Served ctx                \<comment> \<open>answered by the gateway itself, or the relay has returned\<close>

fun stage_ctx :: "stage \<Rightarrow> ctx" where
  "stage_ctx (Accepted c) = c"
| "stage_ctx (Pumped c) = c"
| "stage_ctx (Relaying d p) = p_ctx p"
| "stage_ctx (Served c) = c"

record conn =
  cn_request :: request
  cn_stage :: stage

abbreviation conn_ctx :: "conn \<Rightarrow> ctx" where
  "conn_ctx cn \<equiv> stage_ctx (cn_stage cn)"

text \<open>What the network does to a relayed request up to the entry of the body loop.\<close>

record relay_io =
  io_upload :: "upload list"
  io_sent :: sent
  io_head_error :: "string option"
  io_written :: bool
  io_head_request :: bool
  io_at :: u64

definition enter_relay :: "descriptor \<Rightarrow> relay_io \<Rightarrow> ctx \<Rightarrow> gateway \<Rightarrow> (stage \<times> gateway) option" where
  "enter_relay d io c g =
     (case read_upload (io_upload io) c of
        None \<Rightarrow> None
      | Some (c, False) \<Rightarrow> Some (Served c, g)
      | Some (c, True) \<Rightarrow>
          (case relay_head (io_at io) (io_head_error io) (io_written io) (io_head_request io)
                  (io_sent io) c (gw_gauges g) of
             (Inl c, gs) \<Rightarrow> Some (Served c, g\<lparr>gw_gauges := gs\<rparr>)
           | (Inr p, gs) \<Rightarrow> Some (Relaying d p, g\<lparr>gw_gauges := gs\<rparr>)))"

text \<open>\<open>request_filter\<close>: the control endpoints answer, a relayed request enters the relay, the others
  are left to the pump.\<close>

definition request_filter ::
  "env \<Rightarrow> request \<Rightarrow> string option \<Rightarrow> bool \<Rightarrow> relay_io \<Rightarrow> ctx \<Rightarrow> gateway \<Rightarrow> (stage \<times> gateway) option" where
  "request_filter env rq query is_ws_upgrade io c g =
     (case request_route (env_render env) (sn_cfg (snap c)) (rq_path rq) query is_ws_upgrade of
        Relay d \<Rightarrow> enter_relay d io c g
      | Pump \<Rightarrow> Some (Pumped c, g)
      | _ \<Rightarrow> Some (Served c, g))"

datatype hook =
    Request_filter "string option" bool relay_io
  | Request_body bool "bytes option"                  \<comment> \<open>upgraded, the chunk\<close>
  | Response_head u64 nat "string option"
  | Response_body u64 "u64 \<times> u64" bool "bytes option" bool
  | Relay_event pump_event
  | Relay_return u64

text \<open>The cap a chunk is captured under is the gateway's.\<close>

fun event_cap_ok :: "gateway \<Rightarrow> pump_event \<Rightarrow> bool" where
  "event_cap_ok g (Chunk bs wall now ok cap) = (cap = gw_cap g)"
| "event_cap_ok g _ = True"

fun hook_step :: "env \<Rightarrow> request \<Rightarrow> hook \<Rightarrow> stage \<Rightarrow> gateway \<Rightarrow> (stage \<times> gateway) option" where
  "hook_step env rq (Request_filter query ws io) (Accepted c) g = request_filter env rq query ws io c g"
| "hook_step env rq (Request_body upgraded body) (Pumped c) g =
     Some (Pumped (request_body_filter env upgraded body g c), g)"
| "hook_step env rq (Response_head now st ctype) (Pumped c) g =
     (case upstream_response_filter now st ctype g c of (c, g) \<Rightarrow> Some (Pumped c, g))"
| "hook_step env rq (Response_body at lock upgraded body at_end) (Pumped c) g =
     map_option (map_prod Pumped id) (response_body_filter env rq at lock upgraded body at_end (c, g))"
| "hook_step env rq (Relay_event ev) (Relaying d p) g =
     (if event_cap_ok g ev
      then map_option (\<lambda>p. (Relaying d p, g)) (pump_step (env_parse env) (env_render env) d p ev)
      else None)"
| "hook_step env rq (Relay_return wall) (Relaying d p) g =
     (if p_over p then Some (Served (relay_end wall p), g) else None)"
| "hook_step env rq h st g = None"

section \<open>The process\<close>

record system =
  sy_store :: "gateway option config_store"
  sy_gateway :: "gateway option"        \<comment> \<open>\<open>None\<close> once the reload hook has panicked\<close>
  sy_conns :: "nat \<Rightarrow> conn option"

datatype sys_event =
    Accept nat request u64
  | Hook nat hook
  | Logging nat log_clock "session_error option"
  | Sighup "config_error + loaded" nat nat       \<comment> \<open>what loading the file yields\<close>
  | Batcher "turn_record event"

text \<open>The exporter's own steps: neither a call of its handle nor the end of the process.\<close>

fun batcher_event :: "turn_record event \<Rightarrow> bool" where
  "batcher_event (Submit r) = False"
| "batcher_event (Reload ep n) = False"
| "batcher_event Senders_gone = False"
| "batcher_event _ = True"

definition accept_request :: "request \<Rightarrow> u64 \<Rightarrow> snapshot \<Rightarrow> gateway \<Rightarrow> conn \<times> gateway" where
  "accept_request rq now sn g =
     (\<lparr>cn_request = rq, cn_stage = Accepted (new_ctx sn now)\<rparr>, g\<lparr>gw_gauges := enter_request (gw_gauges g)\<rparr>)"

fun may_log :: "stage \<Rightarrow> bool" where
  "may_log (Relaying d p) = False"
| "may_log _ = True"

fun sys_step :: "env \<Rightarrow> (bytes \<Rightarrow> string) \<Rightarrow> system \<Rightarrow> sys_event \<Rightarrow> system option" where
  "sys_step env b64 s (Accept i rq now) =
     (case (sy_gateway s, sy_conns s i) of
        (Some g, None) \<Rightarrow>
          (case accept_request rq now (inner (sy_store s)) g of
             (cn, g) \<Rightarrow> Some (s\<lparr>sy_gateway := Some g, sy_conns := (sy_conns s)(i \<mapsto> cn)\<rparr>))
      | _ \<Rightarrow> None)"
| "sys_step env b64 s (Hook i h) =
     (case (sy_gateway s, sy_conns s i) of
        (Some g, Some cn) \<Rightarrow>
          map_option (\<lambda>(st, g). s\<lparr>sy_gateway := Some g, sy_conns := (sy_conns s)(i \<mapsto> cn\<lparr>cn_stage := st\<rparr>)\<rparr>)
            (hook_step env (cn_request cn) h (cn_stage cn) g)
      | _ \<Rightarrow> None)"
| "sys_step env b64 s (Logging i clk e) =
     (case (sy_gateway s, sy_conns s i) of
        (Some g, Some cn) \<Rightarrow>
          if may_log (cn_stage cn)
          then map_option (\<lambda>(c, g). s\<lparr>sy_gateway := Some g, sy_conns := (sy_conns s)(i := None)\<rparr>)
                 (logging env (cn_request cn) clk e (conn_ctx cn) g)
          else None
      | _ \<Rightarrow> None)"
| "sys_step env b64 s (Sighup outcome now_ms elapsed) =
     (case sighup (\<lambda>_. outcome) now_ms elapsed (sy_store s, sy_gateway s) of
        (cs, w) \<Rightarrow> Some (s\<lparr>sy_store := cs, sy_gateway := w\<rparr>))"
| "sys_step env b64 s (Batcher ev) =
     (case sy_gateway s of
        Some g \<Rightarrow>
          if batcher_event ev
          then map_option (\<lambda>ex. s\<lparr>sy_gateway := Some (g\<lparr>gw_exporter := ex\<rparr>)\<rparr>)
                 (pool_step b64 (gw_exporter g) ev)
          else None
      | None \<Rightarrow> None)"

text \<open>The process as \<open>run\<close> has started it.\<close>

definition boot :: "process \<Rightarrow> system" where
  "boot p = \<lparr>sy_store = fst p, sy_gateway = snd p, sy_conns = (\<lambda>_. None)\<rparr>"

end
