(* ===== verification/System_Laws.thy ===== *)
theory System_Laws
  imports System
begin

text \<open>
  What holds of the whole process under every interleaving of requests, reloads and exports: what a
  request keeps from its start to its end, that the components keep their invariants, that the window
  and the exporter are handed the same records, and that every request can end.
\<close>

section \<open>What a request keeps\<close>

definition origin :: "ctx \<Rightarrow> snapshot \<times> u64 \<times> u64 option" where
  "origin c = (snap c, rt_start_ns c, upstream_head_ns c)"

lemma origin_simps [simp]:
  "origin (c\<lparr>req_buf := a\<rparr>) = origin c" "origin (c\<lparr>resp_buf := a\<rparr>) = origin c"
  "origin (c\<lparr>resp_content_type := s\<rparr>) = origin c" "origin (c\<lparr>resp_status := n\<rparr>) = origin c"
  "origin (c\<lparr>ws_client_parser := w\<rparr>) = origin c" "origin (c\<lparr>ws_server_parser := w\<rparr>) = origin c"
  "origin (c\<lparr>ws_turn_state := t\<rparr>) = origin c" "origin (c\<lparr>response_complete := b\<rparr>) = origin c"
  "origin (c\<lparr>client_dead := b\<rparr>) = origin c" "origin (c\<lparr>relay_done := b\<rparr>) = origin c"
  "origin (c\<lparr>ctx_timed_out := b\<rparr>) = origin c" "origin (c\<lparr>drain_acc := x\<rparr>) = origin c"
  "origin (c\<lparr>drain_tail := a\<rparr>) = origin c" "origin (c\<lparr>drain_overflow := u\<rparr>) = origin c"
  "origin (c\<lparr>relay_error := e\<rparr>) = origin c" "origin (c\<lparr>first_output_ns := z\<rparr>) = origin c"
  "origin (c\<lparr>body_end_ns := z\<rparr>) = origin c" "origin (c\<lparr>rt_end_ns := u\<rparr>) = origin c"
  by (simp_all add: origin_def)

lemma origin_begin_drain: "origin (fst (begin_drain parse render d now c)) = origin c"
  by (auto simp: begin_drain_def Let_def split: prod.split)

lemma origin_drain_chunk [simp]: "origin (drain_chunk parse render d cap bs c) = origin c"
  by (auto simp: drain_chunk_def drain_capture_def Let_def split: option.split prod.split)

lemma origin_first_output [simp]: "origin (first_output wall bs c) = origin c"
  by (simp add: first_output_def)

lemma origin_lose_client [simp]: "origin (p_ctx (lose_client parse render d now p)) = origin (p_ctx p)"
  using origin_begin_drain [of parse render d now "(p_ctx p)\<lparr>client_dead := True\<rparr>"]
  by (cases "begin_drain parse render d now ((p_ctx p)\<lparr>client_dead := True\<rparr>)")
    (simp add: lose_client_def Let_def)

lemma origin_pump_step:
  assumes "pump_step parse render d p e = Some p'"
  shows "origin (p_ctx p') = origin (p_ctx p)"
proof (cases e)
  case (Chunk bs wall now ok cap)
  define c where "c = first_output wall bs (p_ctx p)"
  have "origin c = origin (p_ctx p)" by (simp add: c_def)
  with assms Chunk show ?thesis
    by (auto simp: c_def [symmetric] Let_def split: if_splits)
qed (use assms in \<open>auto split: if_splits\<close>)

lemma origin_relay_end [simp]: "origin (relay_end wall p) = origin (p_ctx p)"
  by (simp add: relay_end_def Let_def)

lemma origin_read_upload: "read_upload us c = Some (c', go) \<Longrightarrow> origin c' = origin c"
  by (induction us c rule: read_upload.induct) auto

lemma origin_request_body [simp]: "origin (request_body_filter env up body g c) = origin c"
  by (simp add: request_body_filter_def ws_client_chunk_def capture_request_def Let_def
      split: option.split prod.split)

lemma origin_capture_response [simp]: "origin (capture_response at body g c) = origin c"
  by (simp add: capture_response_def Let_def split: option.split)

section \<open>What a step leaves of the components\<close>

text \<open>What the configuration sets in the components.\<close>

definition settings :: "gateway \<Rightarrow> capture_cap \<times> u64 \<times> u64 \<times> u64 \<times> u64 \<times> u64 \<times> flush_target option \<times> bool
    \<times> string \<times> bool \<times> nat \<times> nat" where
  "settings g = (gw_cap g, max_records (gw_store g), max_store_bytes (gw_store g),
     st_capacity (gw_stitcher g), st_ttl_ms (gw_stitcher g), width (gw_exporter g),
     target (gw_exporter g), enabled (gw_exporter g), gw_listen g, gw_trace_off g,
     gw_worker_threads g, workers (gw_exporter g))"

lemma push_settings:
  assumes "push w h r s = Some s'"
  shows "max_records s' = max_records s" "max_store_bytes s' = max_store_bytes s"
proof -
  define t where "t = s\<lparr>store_wait_ns := store_wait_ns s + w\<rparr>"
  from assms obtain u where u: "while_option (over_budget (estimate r)) drop_oldest t = Some u"
    and s': "max_records s' = max_records u" "max_store_bytes s' = max_store_bytes u"
    by (auto simp: push_def t_def Let_def)
  have "max_records u = max_records t \<and> max_store_bytes u = max_store_bytes t"
    by (rule while_option_rule [OF _ u])
      (auto simp: drop_oldest_def split: list.split)
  with s' show "max_records s' = max_records s" "max_store_bytes s' = max_store_bytes s"
    by (simp_all add: t_def)
qed

lemma submit_settings [simp]:
  "width (submit r x) = width x" "target (submit r x) = target x" "enabled (submit r x) = enabled x"
  "workers (submit r x) = workers x"
  by (simp_all add: submit_def)

definition handle :: "'r exporter \<Rightarrow> u64 \<times> flush_target option \<times> bool \<times> nat \<times> bool" where
  "handle x = (width x, target x, enabled x, workers x, senders_gone x)"

lemma pool_ops_handle:
  "recv_pass rcv x = Some x' \<Longrightarrow> handle x' = handle x"
  "handle (adjust_width x) = handle x" "handle (check_pass now x) = handle x"
  "handle (tail_pass x) = handle x" "dispatch_batch x = Some x' \<Longrightarrow> handle x' = handle x"
  "finish_task i fe x = Some x' \<Longrightarrow> handle x' = handle x"
  by (auto simp: handle_def pool_op_defs adjust_width_def forget_permits_def dispatch_batch_def
      finish_task_def Let_def split: if_splits list.splits recv_result.splits phase.splits option.splits)

lemma pool_step_handle:
  assumes "pool_step b64 x ev = Some x'" "batcher_event ev"
  shows "handle x' = handle x"
proof (cases ev)
  case Join
  with assms show ?thesis by (auto simp: handle_def split: if_splits)
qed (use assms in \<open>auto simp: pool_ops_handle split: if_splits\<close>)

lemma assign_session_settings:
  assumes "assign_session sha render scope ms now w h st = Some (out, st')"
  shows "st_capacity st' = st_capacity st \<and> st_ttl_ms st' = st_ttl_ms st"
proof -
  have room: "st_capacity u = st_capacity t \<and> st_ttl_ms u = st_ttl_ms t" if "make_room t = Some u" for t u
  proof -
    from that have "while_option (\<lambda>st. capacity t \<le> length (st_states st)) evict_lru t = Some u"
      by (simp add: make_room_def Let_def)
    then show ?thesis
      by (rule while_option_rule [rotated]) (auto simp: evict_lru_def split: option.split)
  qed
  have sd: "st_capacity (drop_expired now k (sweep now t)) = st_capacity t"
    "st_ttl_ms (drop_expired now k (sweep now t)) = st_ttl_ms t" for k t
    by (simp_all add: drop_expired_def sweep_def Let_def split: option.split)
  show ?thesis
    using assms
    by (auto simp: assign_session_def assign_locked_def new_session_id_def Let_def bind_eq_Some_conv sd
        split: option.splits if_splits prod.splits dest!: room)
qed

text \<open>An operation of a request: what it leaves alone, and the records it files, in order.\<close>

fun pushed :: "turn_record list \<Rightarrow> gateway \<Rightarrow> gateway \<Rightarrow> bool" where
  "pushed [] g g' \<longleftrightarrow> unrecorded g g'"
| "pushed (r # rs) g g' \<longleftrightarrow> (\<exists>u. recorded r g u \<and> pushed rs u g')"

definition files :: "turn_record list \<Rightarrow> gateway \<Rightarrow> gateway \<Rightarrow> bool" where
  "files rs g g' \<longleftrightarrow> settings g' = settings g \<and> pushed rs g g'"

lemma pushed_None [simp]: "unrecorded g g"
  by (simp add: unrecorded_def)

lemma pushed_frame:
  "gw_store g1 = gw_store g \<Longrightarrow> gw_exporter g1 = gw_exporter g \<Longrightarrow> pushed rs g1 g' = pushed rs g g'"
  by (cases rs) (simp_all add: recorded_def unrecorded_def)

lemma pushed_after:
  "gw_store g2 = gw_store g' \<Longrightarrow> gw_exporter g2 = gw_exporter g' \<Longrightarrow> pushed rs g g2 = pushed rs g g'"
  by (induction rs arbitrary: g) (simp_all add: recorded_def unrecorded_def)

lemma pushed_one: "recorded r g g' \<Longrightarrow> pushed [r] g g'"
  by auto

lemma recorded_settings:
  assumes "push_record lock r g = Some g'"
  shows "settings g' = settings g \<and> gw_gauges g' = gw_gauges g \<and> gw_stitcher g' = gw_stitcher g"
  using assms by (auto simp: push_record_def settings_def push_settings)

lemma settings_frames [simp]:
  "settings (count_hdr_dropped n g) = settings g" "gw_gauges (count_hdr_dropped n g) = gw_gauges g"
  "settings (count_session ts g) = settings g" "gw_gauges (count_session ts g) = gw_gauges g"
  "settings (count_frames k g) = settings g" "gw_gauges (count_frames k g) = gw_gauges g"
  "gw_stitcher (count_frames k g) = gw_stitcher g"
  "settings (count_turn hf g) = settings g" "gw_gauges (count_turn hf g) = gw_gauges g"
  "settings (g\<lparr>gw_gauges := gs\<rparr>) = settings g" "settings (g\<lparr>turns_total := m\<rparr>) = settings g"
  "settings (g\<lparr>loose_path_matches := m\<rparr>) = settings g"
  by (simp_all add: settings_def count_hdr_dropped_def count_session_def count_frames_def count_turn_def Let_def)

lemma settle_session_frame:
  assumes "settle_session env rq clk tf g = Some (ts, g')"
  shows "settings g' = settings g \<and> gw_gauges g' = gw_gauges g"
  using settle_session_cases [OF assms]
  by (auto simp: settings_def dest!: assign_session_settings)

lemma gather_settings:
  assumes "gather env rq clk d cc he c g = Some (p, req, g')"
  shows "settings g' = settings g \<and> gw_gauges g' = gw_gauges g"
  using assms
  by (auto simp: gather_def Let_def split: prod.splits dest!: settle_session_frame)

lemma finish_turn_settings:
  assumes "finish_turn env clk d p req c g = Some (c', g')"
  shows "settings g' = settings g \<and> gw_gauges g' = gw_gauges g \<and> gw_stitcher g' = gw_stitcher g"
  using assms
  by (auto simp: finish_turn_def Let_def split: if_splits prod.splits option.splits dest!: recorded_settings)

section \<open>The hooks\<close>

lemma record_turn_settings:
  assumes "record_turn env rq clk d e c g = Some (c', g')"
  shows "settings g' = settings g \<and> gw_gauges g' = gw_gauges g"
  using assms
  by (auto simp: record_turn_def Let_def bind_eq_Some_conv split: if_splits prod.splits
      dest!: recorded_settings finish_turn_settings gather_settings)

lemma record_turn_stitcher:
  assumes "record_turn env rq clk d e c g = Some (c', g')" "stitcher_ok (gw_stitcher g)"
  shows "stitcher_ok (gw_stitcher g')"
proof (cases "gw_trace_off g")
  case True
  with assms show ?thesis
    by (auto simp: record_turn_def Let_def split: prod.splits dest!: recorded_settings)
next
  case False
  obtain cc he where v: "session_verdict e c = (cc, he)" by fastforce
  obtain p req u where g: "gather env rq clk d cc he c g = Some (p, req, u)" "stitcher_ok (gw_stitcher u)"
    using gather_returns [OF assms(2)] by blast
  with False v assms(1) have "finish_turn env clk d p req c u = Some (c', g')"
    by (simp add: record_turn_def)
  from finish_turn_settings [OF this] g(2) show ?thesis by simp
qed

text \<open>\<open>logging\<close> gives the gauges back, files at most one record, and changes nothing that the
  configuration sets.\<close>

lemma logging_effect:
  assumes "logging env rq clk e c g = Some (c', g')"
  obtains identified rs where "gw_gauges g' = exit_request (lc_exit clk) identified c (gw_gauges g)"
    "files rs g g'" "length rs \<le> 1" "rs \<noteq> [] \<Longrightarrow> turn_of env rq c \<noteq> None"
    "stitcher_ok (gw_stitcher g) \<Longrightarrow> stitcher_ok (gw_stitcher g')"
proof (cases "turn_of env rq c")
  case None
  have "settings g' = settings g \<and> gw_stitcher g' = gw_stitcher g \<and> unrecorded g g'
      \<and> gw_gauges g' = exit_request (lc_exit clk) (detect_path (env_render env) (rq_path rq) \<noteq> None) c (gw_gauges g)"
    using assms None
    by (auto simp: turn_of_def logging_def detect_path_fail_open_def Let_def unrecorded_def
        split: option.splits if_splits)
  then show ?thesis by (intro that [of _ "[]"]) (auto simp: files_def)
next
  case (Some m)
  let ?G = "released clk m c g"
  have r: "record_turn env rq clk (pm_descriptor m) e c ?G = Some (c', g')"
    using assms Some by (simp add: logging_turn)
  have G: "settings ?G = settings g" "gw_gauges ?G = exit_request (lc_exit clk) True c (gw_gauges g)"
    by (simp_all add: released_def settings_def Let_def)
  from record_turn_record [OF r] obtain rs where rs: "pushed rs ?G g'" "length rs \<le> 1"
    by (metis One_nat_def le_refl length_0_conv length_Suc_conv pushed.simps(1) pushed_one zero_le_one)
  show ?thesis
  proof (rule that [of True rs])
    show "gw_gauges g' = exit_request (lc_exit clk) True c (gw_gauges g)"
      using record_turn_settings [OF r] G by simp
    show "files rs g g'"
      using record_turn_settings [OF r] G rs(1) pushed_frame [of ?G g rs g'] by (simp add: files_def)
    show "stitcher_ok (gw_stitcher g')" if "stitcher_ok (gw_stitcher g)"
      using record_turn_stitcher [OF r] that by simp
  qed (use rs(2) Some in auto)
qed

subsection \<open>The pump's response filter\<close>

lemma ws_server_frame_effect:
  assumes "ws_server_frame env rq at lock payload (c, g) = Some (c', g')"
  shows "origin c' = origin c \<and> gw_gauges g' = gw_gauges g \<and> gw_stitcher g' = gw_stitcher g
     \<and> (\<exists>rs. files rs g g' \<and> length rs \<le> 1)"
proof -
  define c1 where "c1 = (if ws_active (ws_turn_state c) \<and> first_output_ns c = None
      then c\<lparr>first_output_ns := Some at\<rparr> else c)"
  obtain r t where a: "apply_server_frame (env_parse env) payload (ws_turn_state c1) = (r, t)" by fastforce
  obtain ev n where h: "collect_hdr_evidence (env_to_str env) (rq_headers rq) = (ev, n)" by fastforce
  have c1: "origin c1 = origin c" by (simp add: c1_def)
  show ?thesis
  proof (cases r)
    case None
    with assms a have "c' = c1\<lparr>ws_turn_state := t\<rparr>" "g' = g"
      by (auto simp: ws_server_frame_def c1_def [symmetric] Let_def)
    with c1 show ?thesis
      by (intro conjI exI [of _ "[]"]) (simp_all add: files_def)
  next
    case (Some r0)
    with assms a h obtain r1 where
      p: "push_record lock r1 (count_hdr_dropped n g) = Some g'"
      and c': "c' = (c1\<lparr>ws_turn_state := t\<rparr>)\<lparr>rt_end_ns := at, first_output_ns := None\<rparr>"
      by (auto simp: ws_server_frame_def c1_def [symmetric] Let_def)
    have "recorded r1 g g'" using push_record_recorded [OF p, of g] by simp
    then have "pushed [r1] g g'" by (rule pushed_one)
    with recorded_settings [OF p] c1 c' show ?thesis
      by (intro conjI exI [of _ "[r1]"]) (simp_all add: files_def)
  qed
qed

lemma pushed_append: "pushed rs g u \<Longrightarrow> pushed rs' u g' \<Longrightarrow> pushed (rs @ rs') g g'"
proof (induction rs arbitrary: g)
  case Nil
  then show ?case using pushed_frame [of u g rs' g'] by (simp add: unrecorded_def)
qed auto

lemma ws_server_frames_effect:
  assumes "ws_server_frames env rq at lock ps (c, g) = Some (c', g')"
  shows "origin c' = origin c \<and> gw_gauges g' = gw_gauges g \<and> gw_stitcher g' = gw_stitcher g
     \<and> (\<exists>rs. files rs g g' \<and> length rs \<le> length ps)"
  using assms
proof (induction ps arbitrary: c g)
  case Nil
  then show ?case by (auto simp: files_def intro: exI [of _ "[]"])
next
  case (Cons p ps)
  from Cons.prems obtain c1 g1 where f: "ws_server_frame env rq at lock p (c, g) = Some (c1, g1)"
    and r: "ws_server_frames env rq at lock ps (c1, g1) = Some (c', g')"
    by (auto simp: bind_eq_Some_conv)
  from ws_server_frame_effect [OF f] obtain rs where 1: "origin c1 = origin c" "gw_gauges g1 = gw_gauges g"
    "gw_stitcher g1 = gw_stitcher g" "files rs g g1" "length rs \<le> 1" by blast
  from Cons.IH [OF r] obtain rs' where 2: "origin c' = origin c1" "gw_gauges g' = gw_gauges g1"
    "gw_stitcher g' = gw_stitcher g1" "files rs' g1 g'" "length rs' \<le> length ps" by blast
  have "files (rs @ rs') g g'" using 1(4) 2(4) pushed_append by (auto simp: files_def)
  with 1 2 show ?case by (intro conjI exI [of _ "rs @ rs'"]) simp_all
qed

lemma response_body_effect:
  assumes "response_body_filter env rq at lock upgraded body at_end (c, g) = Some (c', g')"
  shows "origin c' = origin c \<and> gw_gauges g' = gw_gauges g \<and> gw_stitcher g' = gw_stitcher g
     \<and> (\<exists>rs. files rs g g' \<and> (\<not> upgraded \<longrightarrow> rs = []))"
proof -
  define c1 where "c1 = (if at_end then c\<lparr>response_complete := True,
      body_end_ns := (if body_end_ns c = None then Some at else body_end_ns c)\<rparr> else c)"
  have c1: "origin c1 = origin c" by (simp add: c1_def)
  note def = response_body_filter_def prod.case c1_def [symmetric]
  consider (ws) b where "upgraded" "body = Some b" | (plain) "\<not> upgraded \<or> body = None" by (cases body) auto
  then show ?thesis
  proof cases
    case (ws b)
    obtain payloads q where p: "ws_push b (ws_server_parser c1) = (payloads, q)" by fastforce
    from assms ws p have "ws_server_frames env rq at lock payloads (c1\<lparr>ws_server_parser := q\<rparr>, g) = Some (c', g')"
      by (simp add: def Let_def ws_server_chunk_def)
    from ws_server_frames_effect [OF this] c1 ws(1) show ?thesis by auto
  next
    case plain
    with assms have "g' = g" "c' = c1 \<or> c' = capture_response at body g c1"
      by (auto simp: def Let_def split: if_splits)
    with c1 show ?thesis by (auto simp: files_def intro!: exI [of _ "[]"])
  qed
qed

subsection \<open>Every hook\<close>

text \<open>The upstream's head is noted, or nothing that the gauges depend on happens.\<close>

definition noted :: "ctx \<Rightarrow> gateway \<Rightarrow> ctx \<Rightarrow> gateway \<Rightarrow> bool" where
  "noted c g c' g' \<longleftrightarrow> (origin c' = origin c \<and> gw_gauges g' = gw_gauges g)
     \<or> (\<exists>now c1. mark_upstream_head now c (gw_gauges g) = (c1, gw_gauges g') \<and> origin c' = origin c1)"

lemma noted_same [intro]: "origin c' = origin c \<Longrightarrow> gw_gauges g' = gw_gauges g \<Longrightarrow> noted c g c' g'"
  by (simp add: noted_def)

lemma noted_from:
  "noted c1 g c' g' \<Longrightarrow> origin c1 = origin c \<Longrightarrow> noted c g c' g'"
  by (auto simp: noted_def mark_upstream_head_def origin_def split: if_splits)

lemma mark_upstream_head_origin:
  "mark_upstream_head now c gs = (c1, gs1) \<Longrightarrow> snap c1 = snap c \<and> rt_start_ns c1 = rt_start_ns c"
  by (auto simp: mark_upstream_head_def split: if_splits)

lemma noted_keeps: "noted c g c' g' \<Longrightarrow> snap c' = snap c \<and> rt_start_ns c' = rt_start_ns c"
  by (auto simp: noted_def origin_def dest: mark_upstream_head_origin)

lemma relay_head_origin:
  assumes "relay_head now he wr hr sent c gs = (res, gs')"
  shows "(gs' = gs \<and> origin (case res of Inl c \<Rightarrow> c | Inr p \<Rightarrow> p_ctx p) = origin c)
    \<or> (\<exists>c1. mark_upstream_head now c gs = (c1, gs')
         \<and> origin (case res of Inl c \<Rightarrow> c | Inr p \<Rightarrow> p_ctx p) = origin c1)"
proof (cases sent)
  case (Connect_failed e)
  with assms show ?thesis by (auto simp: relay_head_def relay_failed_def)
next
  case (Response s ctype)
  obtain c1 gs1 where m: "mark_upstream_head now c gs = (c1, gs1)" by fastforce
  define c2 where "c2 = c1\<lparr>resp_status := s,
      resp_content_type := (case ctype of Some t \<Rightarrow> t | None \<Rightarrow> resp_content_type c1)\<rparr>"
  have "origin c2 = origin c1" by (simp add: c2_def)
  with assms Response m have "gs' = gs1" "origin (case res of Inl c \<Rightarrow> c | Inr p \<Rightarrow> p_ctx p) = origin c1"
    by (auto simp: relay_head_def c2_def [symmetric] relay_failed_def Let_def split: option.splits if_splits)
  with m show ?thesis by blast
qed

lemma enter_relay_effect:
  assumes "enter_relay d io c g = Some (st, g')"
  shows "noted c g (stage_ctx st) g' \<and> g' = g\<lparr>gw_gauges := gw_gauges g'\<rparr>"
proof -
  from assms obtain c0 go where u: "read_upload (io_upload io) c = Some (c0, go)"
    by (auto simp: enter_relay_def split: option.splits)
  note o = origin_read_upload [OF u]
  show ?thesis
  proof (cases go)
    case False
    with assms u o show ?thesis by (auto simp: enter_relay_def)
  next
    case True
    obtain res gs where h: "relay_head (io_at io) (io_head_error io) (io_written io) (io_head_request io)
        (io_sent io) c0 (gw_gauges g) = (res, gs)" by fastforce
    with assms u True have r: "stage_ctx st = (case res of Inl c \<Rightarrow> c | Inr p \<Rightarrow> p_ctx p)"
      "g' = g\<lparr>gw_gauges := gs\<rparr>"
      by (auto simp: enter_relay_def split: sum.splits)
    have "noted c0 g (stage_ctx st) g'"
      using relay_head_origin [OF h] r by (auto simp: noted_def)
    with noted_from o r(2) show ?thesis by auto
  qed
qed

lemma request_filter_effect:
  assumes "request_filter env rq query ws io c g = Some (st, g')"
  shows "noted c g (stage_ctx st) g' \<and> g' = g\<lparr>gw_gauges := gw_gauges g'\<rparr>"
  using assms enter_relay_effect by (auto simp: request_filter_def split: route.splits)

lemma response_filter_effect:
  assumes "upstream_response_filter now sc ctype g c = (c', g')"
  shows "noted c g c' g' \<and> g' = g\<lparr>gw_gauges := gw_gauges g'\<rparr>"
proof -
  obtain c1 gs1 where m: "mark_upstream_head now c (gw_gauges g) = (c1, gs1)" by fastforce
  with assms have g': "g' = g\<lparr>gw_gauges := gs1\<rparr>" and c': "c' = c1\<lparr>resp_status := sc,
      resp_content_type := (case ctype of Some t \<Rightarrow> t | None \<Rightarrow> resp_content_type c1)\<rparr>"
    by (auto simp: upstream_response_filter_def)
  have "origin c' = origin c1" by (simp add: c')
  with m g' show ?thesis by (auto simp: noted_def)
qed

lemma files_gauges: "g' = g\<lparr>gw_gauges := gs\<rparr> \<Longrightarrow> files [] g g' \<and> gw_stitcher g' = gw_stitcher g"
  by (simp add: files_def unrecorded_def)

fun upgraded_body :: "hook \<Rightarrow> bool" where
  "upgraded_body (Response_body at lock upgraded body fin) = upgraded"
| "upgraded_body _ = False"

lemma hook_step_effect:
  assumes "hook_step env rq h st g = Some (st', g')"
  shows "noted (stage_ctx st) g (stage_ctx st') g' \<and> gw_stitcher g' = gw_stitcher g
     \<and> (\<exists>rs. files rs g g' \<and> (\<not> upgraded_body h \<longrightarrow> rs = []))"
proof -
  have quiet: "noted (stage_ctx st) g (stage_ctx st') g' \<and> gw_stitcher g' = gw_stitcher g
       \<and> (\<exists>rs. files rs g g' \<and> (\<not> upgraded_body h \<longrightarrow> rs = []))"
    if "noted (stage_ctx st) g (stage_ctx st') g' \<and> g' = g\<lparr>gw_gauges := gw_gauges g'\<rparr>"
    using that files_gauges [OF conjunct2 [OF that]] by blast
  have same: "\<exists>rs. files rs g g \<and> (\<not> upgraded_body h \<longrightarrow> rs = [])"
    using files_gauges [where g = g and g' = g and gs = "gw_gauges g"] by auto
  show ?thesis
  proof (cases "(env, rq, h, st, g)" rule: hook_step.cases)
    case (1 env1 rq1 query ws io c g1)
    with assms have "request_filter env rq query ws io c g = Some (st', g')" by simp
    from request_filter_effect [OF this] quiet 1 show ?thesis by simp
  next
    case (2 env1 rq1 up body c g1)
    with assms same show ?thesis by auto
  next
    case (3 env1 rq1 now sc ctype c g1)
    with assms obtain c' where "upstream_response_filter now sc ctype g c = (c', g')" "st' = Pumped c'"
      by (auto split: prod.splits)
    with response_filter_effect [OF this(1)] quiet 3 show ?thesis by simp
  next
    case (4 env1 rq1 at lock up body fin c g1)
    with assms obtain c' where
      "response_body_filter env rq at lock up body fin (c, g) = Some (c', g')" "st' = Pumped c'"
      by auto
    with response_body_effect [OF this(1)] 4 show ?thesis by auto
  next
    case (5 env1 rq1 ev d p g1)
    with assms same show ?thesis by (auto split: if_splits intro!: noted_same intro: origin_pump_step)
  next
    case (6 env1 rq1 wall d p g1)
    with assms same show ?thesis by (auto split: if_splits)
  qed (use assms in auto)
qed

section \<open>The steps of the process\<close>

lemma accept_step:
  assumes "sys_step env b64 s (Accept i rq now) = Some s'"
  obtains g where "sy_gateway s = Some g" "sy_conns s i = None"
    "s' = s\<lparr>sy_gateway := Some (g\<lparr>gw_gauges := enter_request (gw_gauges g)\<rparr>),
       sy_conns := (sy_conns s)(i \<mapsto> \<lparr>cn_request = rq, cn_stage = Accepted (new_ctx (inner (sy_store s)) now)\<rparr>)\<rparr>"
  using assms by (auto simp: accept_request_def split: option.splits)

lemma hook_sys_step:
  assumes "sys_step env b64 s (Hook i h) = Some s'"
  obtains g cn st g' where "sy_gateway s = Some g" "sy_conns s i = Some cn"
    "hook_step env (cn_request cn) h (cn_stage cn) g = Some (st, g')"
    "s' = s\<lparr>sy_gateway := Some g', sy_conns := (sy_conns s)(i \<mapsto> cn\<lparr>cn_stage := st\<rparr>)\<rparr>"
  using assms by (auto split: option.splits)

lemma logging_sys_step:
  assumes "sys_step env b64 s (Logging i clk e) = Some s'"
  obtains g cn c g' where "sy_gateway s = Some g" "sy_conns s i = Some cn" "may_log (cn_stage cn)"
    "logging env (cn_request cn) clk e (conn_ctx cn) g = Some (c, g')"
    "s' = s\<lparr>sy_gateway := Some g', sy_conns := (sy_conns s)(i := None)\<rparr>"
  using assms by (auto split: option.splits if_splits)

lemma sighup_sys_step:
  assumes "sys_step env b64 s (Sighup outcome now_ms el) = Some s'"
  shows "sy_conns s' = sy_conns s
    \<and> (sy_store s', sy_gateway s') = sighup (\<lambda>_. outcome) now_ms el (sy_store s, sy_gateway s)"
  using assms by (auto split: prod.splits)

lemma batcher_sys_step:
  assumes "sys_step env b64 s (Batcher ev) = Some s'"
  obtains g ex where "sy_gateway s = Some g" "batcher_event ev" "pool_step b64 (gw_exporter g) ev = Some ex"
    "s' = s\<lparr>sy_gateway := Some (g\<lparr>gw_exporter := ex\<rparr>)\<rparr>"
  using assms by (auto split: option.splits if_splits)

declare sys_step.simps [simp del]

text \<open>A reload replaces the limits of the running components, or fails, or the hook panics.\<close>

lemma sighup_gateway:
  assumes "process_ok b64 cfg0 ts (cs, Some g)" "sighup (\<lambda>_. outcome) now_ms el (cs, Some g) = (cs', Some g')"
  shows "g' = g \<or> (\<exists>l. outcome = Inr l \<and> hot_apply b64 (ld_config l) g = Some g')"
  using assms by (auto simp: process_ok_def sighup_def reload_def Let_def split: sum.splits prod.splits)

lemma sighup_dead: "process_ok b64 cfg0 ts (cs, None) \<Longrightarrow> snd (sighup load now_ms el (cs, None)) = None"
  by (auto simp: process_ok_def sighup_def reload_def Let_def split: sum.splits prod.splits)

lemma hot_apply_frame:
  assumes "hot_apply b64 cfg g = Some g'"
  shows "gw_gauges g' = gw_gauges g \<and> deque (gw_store g') = deque (gw_store g)
    \<and> store.dropped (gw_store g') = store.dropped (gw_store g)
    \<and> (stitcher_ok (gw_stitcher g) \<longrightarrow> stitcher_ok (gw_stitcher g'))
    \<and> apply_target b64 (otlp_endpoint (c_export cfg)) (max_inflight (c_export cfg)) (gw_exporter g)
        = Some (gw_exporter g')"
  using assms
  by (auto simp: hot_apply_def Let_def set_caps_def set_limits_def stitcher_ok_def at_least_1_def split: if_splits)

section \<open>The components keep their invariants\<close>

definition traffic_of :: "(nat \<Rightarrow> conn option) \<Rightarrow> gateway \<Rightarrow> traffic" where
  "traffic_of conns g =
     \<lparr>open_reqs = (\<lambda>i. map_option (\<lambda>cn. req_times.truncate (conn_ctx cn)) (conns i)), gauge = gw_gauges g\<rparr>"

lemma traffic_ok_cong:
  assumes "traffic_ok n s" "\<And>i. map_option upstream_head_ns (open_reqs t i) = map_option upstream_head_ns (open_reqs s i)"
    and "gauge t = gauge s"
  shows "traffic_ok n t"
proof -
  have "i \<in> dom (open_reqs t) \<longleftrightarrow> i \<in> dom (open_reqs s)" for i
    using assms(2) [of i] by (cases "open_reqs t i"; cases "open_reqs s i") auto
  then have "dom (open_reqs t) = dom (open_reqs s)" by blast
  moreover have "waiting t = waiting s"
    unfolding waiting_def
  proof (intro Collect_cong)
    fix i show "(\<exists>r. open_reqs t i = Some r \<and> upstream_head_ns r = None) =
        (\<exists>r. open_reqs s i = Some r \<and> upstream_head_ns r = None)"
      using assms(2) [of i] by (cases "open_reqs t i"; cases "open_reqs s i") simp_all
  qed
  ultimately show ?thesis using assms(1,3) by (simp add: traffic_ok_def)
qed

lemma settings_runs:
  "settings g' = settings g \<Longrightarrow> runs_config b64 cfg g' = runs_config b64 cfg g \<and> pinned cfg ts g' = pinned cfg ts g"
proof -
  assume "settings g' = settings g"
  then have e: "gw_cap g' = gw_cap g" "max_records (gw_store g') = max_records (gw_store g)"
    "max_store_bytes (gw_store g') = max_store_bytes (gw_store g)"
    "st_capacity (gw_stitcher g') = st_capacity (gw_stitcher g)"
    "st_ttl_ms (gw_stitcher g') = st_ttl_ms (gw_stitcher g)" "width (gw_exporter g') = width (gw_exporter g)"
    "target (gw_exporter g') = target (gw_exporter g)" "enabled (gw_exporter g') = enabled (gw_exporter g)"
    "gw_listen g' = gw_listen g" "gw_trace_off g' = gw_trace_off g"
    "gw_worker_threads g' = gw_worker_threads g" "workers (gw_exporter g') = workers (gw_exporter g)"
    by (simp_all only: settings_def prod.inject)
  show ?thesis unfolding runs_config_def pinned_def e by (rule conjI refl)+
qed

lemma settings_process:
  "process_ok b64 cfg0 ts (cs, Some g) \<Longrightarrow> settings g' = settings g \<Longrightarrow> process_ok b64 cfg0 ts (cs, Some g')"
  by (simp only: process_ok_def fst_conv snd_conv option.case settings_runs [of g' g])

text \<open>The invariant of the process; \<open>n\<close> counts the requests accepted so far.\<close>

definition sys_ok :: "(bytes \<Rightarrow> string) \<Rightarrow> config \<Rightarrow> bool \<Rightarrow> nat \<Rightarrow> system \<Rightarrow> bool" where
  "sys_ok b64 cfg0 ts n s \<longleftrightarrow> process_ok b64 cfg0 ts (sy_store s, sy_gateway s)
     \<and> (\<forall>g. sy_gateway s = Some g \<longrightarrow> stitcher_ok (gw_stitcher g) \<and> traffic_ok n (traffic_of (sy_conns s) g))"

definition accepts :: "sys_event \<Rightarrow> nat" where
  "accepts e = (case e of Accept i rq now \<Rightarrow> 1 | _ \<Rightarrow> 0)"

definition accepted :: "sys_event list \<Rightarrow> nat" where
  "accepted es = sum_list (map accepts es)"

lemma accepts_simps [simp]:
  "accepts (Accept i rq now) = 1" "accepts (Hook i h) = 0" "accepts (Logging i clk er) = 0"
  "accepts (Sighup o' n m) = 0" "accepts (Batcher ev) = 0"
  "accepted [] = 0" "accepted (e # es) = accepts e + accepted es"
  by (simp_all add: accepts_def accepted_def)

lemma truncate_ctx [simp]:
  "upstream_head_ns (req_times.truncate c) = upstream_head_ns c" "rt_start_ns (req_times.truncate c) = rt_start_ns c"
  "first_output_ns (req_times.truncate c) = first_output_ns c" "body_end_ns (req_times.truncate c) = body_end_ns c"
  by (simp_all add: req_times.truncate_def)

lemma exit_truncate: "exit_request now identified (req_times.truncate c) g = exit_request now identified c g"
  by (simp only: exit_request_def truncate_ctx)

lemma traffic_accept:
  assumes "traffic_ok n (traffic_of conns g)" "conns i = None" "n + 1 < 2 ^ 64"
  shows "traffic_ok (n + 1) (traffic_of (conns(i \<mapsto> \<lparr>cn_request = rq, cn_stage = Accepted (new_ctx sn now)\<rparr>))
           (g\<lparr>gw_gauges := enter_request (gw_gauges g)\<rparr>))"
proof -
  let ?s = "traffic_of conns g"
  let ?t = "?s\<lparr>open_reqs := (open_reqs ?s)(i \<mapsto> fresh_times now), gauge := enter_request (gauge ?s)\<rparr>"
  have "traffic_step ?s (Enter i now) = Some ?t" using assms(2) by (simp add: traffic_of_def)
  from traffic_ok_step [OF assms(1) this] assms(3) have "traffic_ok (n + 1) ?t" by (simp add: enters_def)
  then show ?thesis
    by (rule traffic_ok_cong) (simp_all add: traffic_of_def new_ctx_def fresh_times_def Let_def)
qed

lemma traffic_noted:
  assumes "traffic_ok n (traffic_of conns g)" "conns i = Some cn" "n < 2 ^ 64"
    and "noted (conn_ctx cn) g (stage_ctx st) g'"
  shows "traffic_ok n (traffic_of (conns(i \<mapsto> cn\<lparr>cn_stage := st\<rparr>)) g')"
  using assms(4) unfolding noted_def
proof (elim disjE exE conjE)
  assume "origin (stage_ctx st) = origin (conn_ctx cn)" "gw_gauges g' = gw_gauges g"
  with assms(2) show ?thesis
    by (intro traffic_ok_cong [OF assms(1)]) (simp_all add: traffic_of_def origin_def)
next
  fix now c1
  assume m: "mark_upstream_head now (conn_ctx cn) (gw_gauges g) = (c1, gw_gauges g')"
    and o: "origin (stage_ctx st) = origin c1"
  let ?s = "traffic_of conns g"
  let ?r = "req_times.truncate (conn_ctx cn)"
  obtain r' gs where r: "mark_upstream_head now ?r (gw_gauges g) = (r', gs)" by fastforce
  have gs: "gs = gw_gauges g'" "upstream_head_ns r' = upstream_head_ns (stage_ctx st)"
    using m r o by (auto simp: mark_upstream_head_def origin_def split: if_splits)
  let ?t = "?s\<lparr>open_reqs := (open_reqs ?s)(i \<mapsto> r'), gauge := gs\<rparr>"
  have "traffic_step ?s (Head i now) = Some ?t" using assms(2) r by (simp add: traffic_of_def)
  from traffic_ok_step [OF assms(1) this] assms(3) have "traffic_ok n ?t" by (simp add: enters_def)
  then show ?thesis
    by (rule traffic_ok_cong) (simp_all add: traffic_of_def gs)
qed

lemma traffic_logged:
  assumes "traffic_ok n (traffic_of conns g)" "conns i = Some cn" "n < 2 ^ 64"
    and "gw_gauges g' = exit_request now identified (conn_ctx cn) (gw_gauges g)"
  shows "traffic_ok n (traffic_of (conns(i := None)) g')"
proof -
  let ?s = "traffic_of conns g"
  let ?t = "?s\<lparr>open_reqs := (open_reqs ?s)(i := None),
      gauge := exit_request now identified (req_times.truncate (conn_ctx cn)) (gauge ?s)\<rparr>"
  have "traffic_step ?s (req_event.Exit i now identified) = Some ?t" using assms(2) by (simp add: traffic_of_def)
  from traffic_ok_step [OF assms(1) this] assms(3) have "traffic_ok n ?t" by (simp add: enters_def)
  then show ?thesis
    by (rule traffic_ok_cong)
      (simp_all add: traffic_of_def assms(4) exit_truncate)
qed

lemma traffic_of_exporter [simp]: "traffic_of conns (g\<lparr>gw_exporter := x\<rparr>) = traffic_of conns g"
  by (simp add: traffic_of_def)

lemma sys_ok_step:
  assumes ok: "sys_ok b64 cfg0 ts n s" and st: "sys_step env b64 s e = Some s'" and lt: "n + accepts e < 2 ^ 64"
  shows "sys_ok b64 cfg0 ts (n + accepts e) s'"
proof (cases e)
  case (Accept i rq now)
  with st obtain g where g: "sy_gateway s = Some g" "sy_conns s i = None"
    "s' = s\<lparr>sy_gateway := Some (g\<lparr>gw_gauges := enter_request (gw_gauges g)\<rparr>),
       sy_conns := (sy_conns s)(i \<mapsto> \<lparr>cn_request = rq, cn_stage = Accepted (new_ctx (inner (sy_store s)) now)\<rparr>)\<rparr>"
    by (blast elim: accept_step)
  from ok g(1) have o: "process_ok b64 cfg0 ts (sy_store s, Some g)" "stitcher_ok (gw_stitcher g)"
    "traffic_ok n (traffic_of (sy_conns s) g)" by (simp_all add: sys_ok_def)
  have "n + 1 < 2 ^ 64" using lt Accept by simp
  from traffic_accept [OF o(3) g(2) this] o(1,2) g(3) Accept show ?thesis
    using settings_process [of b64 cfg0 ts "sy_store s" g "g\<lparr>gw_gauges := enter_request (gw_gauges g)\<rparr>"]
    by (simp add: sys_ok_def)
next
  case (Hook i h)
  with st obtain g cn stg g' where g: "sy_gateway s = Some g" "sy_conns s i = Some cn"
    "hook_step env (cn_request cn) h (cn_stage cn) g = Some (stg, g')"
    "s' = s\<lparr>sy_gateway := Some g', sy_conns := (sy_conns s)(i \<mapsto> cn\<lparr>cn_stage := stg\<rparr>)\<rparr>"
    by (blast elim: hook_sys_step)
  from hook_step_effect [OF g(3)] obtain rs where h: "noted (conn_ctx cn) g (stage_ctx stg) g'"
    "gw_stitcher g' = gw_stitcher g" "settings g' = settings g" by (auto simp: files_def)
  from ok g(1) have o: "process_ok b64 cfg0 ts (sy_store s, Some g)" "stitcher_ok (gw_stitcher g)"
    "traffic_ok n (traffic_of (sy_conns s) g)" by (simp_all add: sys_ok_def)
  from settings_process [OF o(1) h(3)] traffic_noted [OF o(3) g(2) _ h(1)] o(2) h(2) g(4) lt Hook
  show ?thesis by (simp add: sys_ok_def)
next
  case (Logging i clk er)
  with st obtain g cn c g' where g: "sy_gateway s = Some g" "sy_conns s i = Some cn"
    "logging env (cn_request cn) clk er (conn_ctx cn) g = Some (c, g')"
    "s' = s\<lparr>sy_gateway := Some g', sy_conns := (sy_conns s)(i := None)\<rparr>"
    by (blast elim: logging_sys_step)
  from ok g(1) have o: "process_ok b64 cfg0 ts (sy_store s, Some g)" "stitcher_ok (gw_stitcher g)"
    "traffic_ok n (traffic_of (sy_conns s) g)" by (simp_all add: sys_ok_def)
  obtain identified where l: "gw_gauges g' = exit_request (lc_exit clk) identified (conn_ctx cn) (gw_gauges g)"
    "settings g' = settings g" "stitcher_ok (gw_stitcher g')"
    by (rule logging_effect [OF g(3)]) (use o(2) in \<open>auto simp: files_def\<close>)
  from settings_process [OF o(1) l(2)] traffic_logged [OF o(3) g(2) _ l(1)] l(3) g(4) lt Logging
  show ?thesis by (simp add: sys_ok_def)
next
  case (Sighup outcome now_ms el)
  from sighup_sys_step [OF st [unfolded Sighup]]
  have c: "sy_conns s' = sy_conns s"
    and p: "(sy_store s', sy_gateway s') = sighup (\<lambda>_. outcome) now_ms el (sy_store s, sy_gateway s)" by blast+
  from ok have po: "process_ok b64 cfg0 ts (sy_store s, sy_gateway s)" by (simp add: sys_ok_def)
  have po': "process_ok b64 cfg0 ts (sy_store s', sy_gateway s')"
    unfolding p by (rule process_sighup [OF po])
  have "stitcher_ok (gw_stitcher g') \<and> traffic_ok n (traffic_of (sy_conns s) g')" if g': "sy_gateway s' = Some g'" for g'
  proof (cases "sy_gateway s")
    case None
    with sighup_dead [of b64 cfg0 ts "sy_store s" "\<lambda>_. outcome" now_ms el] po p g' show ?thesis by (metis option.distinct(1) snd_conv)
  next
    case (Some g)
    with ok have o: "stitcher_ok (gw_stitcher g)" "traffic_ok n (traffic_of (sy_conns s) g)" by (simp_all add: sys_ok_def)
    from po p g' Some sighup_gateway [of b64 cfg0 ts "sy_store s" g outcome now_ms el "sy_store s'" g']
    have "g' = g \<or> (\<exists>l. outcome = Inr l \<and> hot_apply b64 (ld_config l) g = Some g')" by simp
    with o hot_apply_frame [of b64 _ g g'] show ?thesis by (auto simp: traffic_of_def)
  qed
  with po' c Sighup show ?thesis by (simp add: sys_ok_def)
next
  case (Batcher ev)
  with st obtain g ex where g: "sy_gateway s = Some g" "batcher_event ev" "pool_step b64 (gw_exporter g) ev = Some ex"
    "s' = s\<lparr>sy_gateway := Some (g\<lparr>gw_exporter := ex\<rparr>)\<rparr>" by (blast elim: batcher_sys_step)
  have "settings (g\<lparr>gw_exporter := ex\<rparr>) = settings g"
    using pool_step_handle [OF g(3,2)] by (simp add: settings_def handle_def)
  with ok g Batcher show ?thesis
    using settings_process [of b64 cfg0 ts "sy_store s" g "g\<lparr>gw_exporter := ex\<rparr>"] by (simp add: sys_ok_def)
qed

end
