(* ===== verification/System_Props.thy ===== *)
theory System_Props
  imports System_Laws
begin

text \<open>
  The properties of the whole process: the invariant of its components, the records they are handed,
  the one configuration a request is served under, the end of every request, and the content of a
  drained turn under every interleaving.
\<close>

section \<open>The invariant\<close>

lemma sys_ok_run:
  "sys_ok b64 cfg0 ts n s \<Longrightarrow> run (sys_step env b64) s es = Some s' \<Longrightarrow> n + accepted es < 2 ^ 64 \<Longrightarrow>
     sys_ok b64 cfg0 ts (n + accepted es) s'"
proof (induction es arbitrary: s n)
  case (Cons e es)
  from Cons.prems(2) obtain u where u: "sys_step env b64 s e = Some u" "run (sys_step env b64) u es = Some s'"
    by (auto split: Option.bind_splits)
  have "sys_ok b64 cfg0 ts (n + accepts e) u"
    using Cons.prems(3) by (intro sys_ok_step [OF Cons.prems(1) u(1)]) simp
  from Cons.IH [OF this u(2)] Cons.prems(3) show ?case by (simp add: add.assoc)
qed simp

lemma boot_ok:
  assumes "run_process b64 slt now built ts cs = Some p"
  shows "sys_ok b64 (sn_cfg (inner cs)) ts 0 (boot p)"
proof -
  from assms obtain g where g: "build_gateway b64 slt now ts (sn_cfg (inner cs)) = Some g" "snd p = Some g"
    by (auto simp: run_process_def split: if_splits)
  then have "stitcher_ok (gw_stitcher g)" "gw_gauges g = gauges_new"
    by (auto simp: build_gateway_def with_limits_ok)
  then have "stitcher_ok (gw_stitcher g) \<and> traffic_ok 0 (traffic_of (\<lambda>_. None) g)"
    by (simp add: traffic_ok_def traffic_of_def gauges_new_def waiting_def)
  with process_start [OF assms] g(2) show ?thesis by (cases p) (simp add: sys_ok_def boot_def)
qed

lemma reachable_ok:
  assumes "run_process b64 slt now built ts cs = Some p" "run (sys_step env b64) (boot p) es = Some s"
    and "accepted es < 2 ^ 64"
  shows "sys_ok b64 (sn_cfg (inner cs)) ts (accepted es) s"
  using sys_ok_run [OF boot_ok [OF assms(1)] assms(2)] assms(3) by simp


text \<open>A process whose file changes its capture cap while a request is inside.\<close>

definition demo_reload :: sys_event where
  "demo_reload = Sighup (Inr \<lparr>ld_config = sample_config\<lparr>c_capture := \<lparr>capture_max_bytes = 7\<rparr>\<rparr>,
     ld_sha256 = [], ld_path = ''f'', ld_len = 0\<rparr>) 5 1"

lemma demo_run:
  "\<exists>p s g. run_process (\<lambda>_. []) [] 0 True True demo_store = Some p
     \<and> run (sys_step env (\<lambda>_. [])) (boot p) [Accept 0 demo_request 5, demo_reload] = Some s
     \<and> sy_gateway s = Some g \<and> dom (sy_conns s) = {0}
     \<and> sy_conns s 0 = Some \<lparr>cn_request = demo_request, cn_stage = Accepted (new_ctx (inner demo_store) 5)\<rparr>
     \<and> sn_cfg (inner (sy_store s)) = sample_config\<lparr>c_capture := \<lparr>capture_max_bytes = 7\<rparr>\<rparr>"
  by (simp add: run_process_def build_gateway_def start_def build_target_def demo_store_def from_config_def
      config_store_new_def set_on_reload_def sample_config_def demo_reload_def sighup_def reload_def
      hot_apply_def apply_target_def trim_Nil boot_def accept_request_def
      sys_step.simps Let_def split: prod.split)


section \<open>The records\<close>

lemma push_window:
  assumes "push w h r s = Some t"
  obtains k where "k \<le> length (deque s)" "deque t = drop k (deque s) @ [r]"
    "store.dropped t = store.dropped s + of_nat k"
proof -
  define u where "u = s\<lparr>store_wait_ns := store_wait_ns s + w\<rparr>"
  from assms obtain v where v: "while_option (over_budget (estimate r)) drop_oldest u = Some v"
    and t: "deque t = deque v @ [r]" "store.dropped t = store.dropped v"
    by (auto simp: push_def u_def Let_def)
  let ?P = "\<lambda>x. \<exists>k \<le> length (deque s). deque x = drop k (deque s) \<and> store.dropped x = store.dropped s + of_nat k"
  have "?P v"
  proof (rule while_option_rule [OF _ v])
    fix x assume "?P x" "over_budget (estimate r) x"
    then obtain k where k: "deque x = drop k (deque s)" "store.dropped x = store.dropped s + of_nat k"
      and ne: "drop k (deque s) \<noteq> []" by (auto simp: over_budget_def)
    then obtain old where "drop k (deque s) = old # drop (Suc k) (deque s)"
      by (metis drop_eq_Nil Cons_nth_drop_Suc not_le)
    moreover have "k < length (deque s)" using ne by simp
    ultimately show "?P (drop_oldest x)"
      using k by (intro exI [of _ "Suc k"]) (simp add: drop_oldest_def)
  next
    show "?P u" by (intro exI [of _ 0]) (simp add: u_def)
  qed
  with t that show ?thesis by auto
qed

text \<open>The records that a history of the exporter offers it.\<close>

fun submitted :: "'r event list \<Rightarrow> 'r list" where
  "submitted [] = []"
| "submitted (Submit r # es) = r # submitted es"
| "submitted (_ # es) = submitted es"

lemma submitted_append [simp]: "submitted (es @ fs) = submitted es @ submitted fs"
  by (induction es rule: submitted.induct) simp_all

lemma submitted_batcher: "batcher_event ev \<Longrightarrow> submitted [ev] = []"
  by (cases ev) simp_all

text \<open>The window holds the last of the records \<open>rs\<close>, the others have been dropped; the exporter has
  been offered \<open>rs\<close> in the same order.\<close>

definition handed :: "(bytes \<Rightarrow> string) \<Rightarrow> turn_record exporter \<Rightarrow> gateway \<Rightarrow> turn_record list \<Rightarrow> bool" where
  "handed b64 x0 g rs \<longleftrightarrow>
     (\<exists>k \<le> length rs. deque (gw_store g) = drop k rs \<and> store.dropped (gw_store g) = of_nat k)
     \<and> (\<exists>evs. run (pool_step b64) x0 evs = Some (gw_exporter g) \<and> submitted evs = rs)
     \<and> \<not> senders_gone (gw_exporter g)"

lemma handed_frame:
  "handed b64 x0 g rs \<Longrightarrow> deque (gw_store g') = deque (gw_store g) \<Longrightarrow>
     store.dropped (gw_store g') = store.dropped (gw_store g) \<Longrightarrow> gw_exporter g' = gw_exporter g \<Longrightarrow>
     handed b64 x0 g' rs"
  by (simp add: handed_def)

lemma handed_pool:
  assumes "handed b64 x0 g rs" "pool_step b64 (gw_exporter g) ev = Some ex" "\<not> senders_gone ex"
    and "submitted [ev] = []" "gw_exporter g' = ex" "deque (gw_store g') = deque (gw_store g)"
    "store.dropped (gw_store g') = store.dropped (gw_store g)"
  shows "handed b64 x0 g' rs"
proof -
  from assms(1) obtain evs where "run (pool_step b64) x0 evs = Some (gw_exporter g)" "submitted evs = rs"
    by (auto simp: handed_def)
  with assms(2,4) have "run (pool_step b64) x0 (evs @ [ev]) = Some ex" "submitted (evs @ [ev]) = rs"
    by (simp_all add: run_append)
  with assms show ?thesis unfolding handed_def by (metis (no_types, lifting))
qed

lemma handed_recorded:
  assumes "handed b64 x0 g rs" "recorded r g g'"
  shows "handed b64 x0 g' (rs @ [r])"
proof -
  from assms(1) obtain k evs where k: "k \<le> length rs" "deque (gw_store g) = drop k rs"
    "store.dropped (gw_store g) = of_nat k"
    and evs: "run (pool_step b64) x0 evs = Some (gw_exporter g)" "submitted evs = rs"
    and sg: "\<not> senders_gone (gw_exporter g)" by (auto simp: handed_def)
  from assms(2) obtain w h where p: "push w h r (gw_store g) = Some (gw_store g')"
    and x: "gw_exporter g' = submit r (gw_exporter g)" by (auto simp: recorded_def)
  obtain j where j: "j \<le> length (deque (gw_store g))" "deque (gw_store g') = drop j (deque (gw_store g)) @ [r]"
    "store.dropped (gw_store g') = store.dropped (gw_store g) + of_nat j"
    by (rule push_window [OF p])
  have "k + j \<le> length (rs @ [r])" "deque (gw_store g') = drop (k + j) (rs @ [r])"
    "store.dropped (gw_store g') = of_nat (k + j)"
    using j k by (simp_all add: add.commute)
  moreover have "run (pool_step b64) x0 (evs @ [Submit r]) = Some (gw_exporter g')"
    "submitted (evs @ [Submit r]) = rs @ [r]" "\<not> senders_gone (gw_exporter g')"
    using evs sg x by (simp_all add: run_append submit_def)
  ultimately show ?thesis unfolding handed_def by blast
qed

lemma handed_pushed: "handed b64 x0 g rs \<Longrightarrow> pushed rs' g g' \<Longrightarrow> handed b64 x0 g' (rs @ rs')"
proof (induction rs' arbitrary: g rs)
  case Nil
  then show ?case using handed_frame [of b64 x0 g rs g'] by (simp add: unrecorded_def)
next
  case (Cons r rs')
  then obtain u where u: "recorded r g u" "pushed rs' u g'" by auto
  from Cons.IH [OF handed_recorded [OF Cons.prems(1) u(1)] u(2)] show ?case by simp
qed

text \<open>Which records, labelled with their request, an event can file.\<close>

fun allotted :: "sys_event \<Rightarrow> (nat \<times> turn_record) list \<Rightarrow> bool" where
  "allotted (Logging i clk er) trs \<longleftrightarrow> length trs \<le> 1 \<and> (\<forall>t \<in> set trs. fst t = i)"
| "allotted (Hook i h) trs \<longleftrightarrow> (\<forall>t \<in> set trs. fst t = i) \<and> (\<not> upgraded_body h \<longrightarrow> trs = [])"
| "allotted _ trs \<longleftrightarrow> trs = []"

text \<open>A configuration whose pool width a semaphore can hold.\<close>

definition width_ok :: "config \<Rightarrow> bool" where
  "width_ok cfg \<longleftrightarrow> unat (max (max_inflight (c_export cfg)) 1) \<le> MAX_PERMITS"

fun steady :: "sys_event \<Rightarrow> bool" where
  "steady (Sighup (Inr l) now_ms el) = width_ok (ld_config l)"
| "steady _ = True"

lemma apply_target_senders: "apply_target b64 ep n s = Some s' \<Longrightarrow> senders_gone s' = senders_gone s"
  by (auto simp: apply_target_def Let_def)

lemma handed_step:
  assumes st: "sys_step env b64 s e = Some s'" and ok: "process_ok b64 cfg0 ts (sy_store s, sy_gateway s)"
    and g: "sy_gateway s = Some g" and g': "sy_gateway s' = Some g'" and steady: "steady e"
    and h: "handed b64 x0 g rs"
  shows "\<exists>trs. handed b64 x0 g' (rs @ map snd trs) \<and> allotted e trs"
proof (cases e)
  case (Accept i rq now)
  with st g g' have "g' = g\<lparr>gw_gauges := enter_request (gw_gauges g)\<rparr>" by (auto elim!: accept_step)
  then have "handed b64 x0 g' rs" using handed_frame [OF h, of g'] by simp
  with Accept show ?thesis by (intro exI [of _ "[]"]) simp
next
  case (Hook i k)
  from st [unfolded Hook] obtain g1 cn stg g2 where "sy_gateway s = Some g1"
    "hook_step env (cn_request cn) k (cn_stage cn) g1 = Some (stg, g2)"
    "s' = s\<lparr>sy_gateway := Some g2, sy_conns := (sy_conns s)(i \<mapsto> cn\<lparr>cn_stage := stg\<rparr>)\<rparr>"
    by (blast elim: hook_sys_step)
  with g g' have "hook_step env (cn_request cn) k (cn_stage cn) g = Some (stg, g')" by simp
  from hook_step_effect [OF this] obtain rs' where "pushed rs' g g'" "\<not> upgraded_body k \<longrightarrow> rs' = []"
    by (auto simp: files_def)
  with handed_pushed [OF h] Hook show ?thesis
    by (intro exI [of _ "map (Pair i) rs'"]) (auto simp: comp_def)
next
  case (Logging i clk er)
  from st [unfolded Logging] obtain g1 cn c g2 where "sy_gateway s = Some g1"
    "logging env (cn_request cn) clk er (conn_ctx cn) g1 = Some (c, g2)"
    "s' = s\<lparr>sy_gateway := Some g2, sy_conns := (sy_conns s)(i := None)\<rparr>"
    by (blast elim: logging_sys_step)
  with g g' have l: "logging env (cn_request cn) clk er (conn_ctx cn) g = Some (c, g')" by simp
  obtain rs' where "pushed rs' g g'" "length rs' \<le> 1"
    by (rule logging_effect [OF l]) (auto simp: files_def)
  with handed_pushed [OF h] Logging show ?thesis
    by (intro exI [of _ "map (Pair i) rs'"]) (auto simp: comp_def)
next
  case (Sighup outcome now_ms el)
  from sighup_sys_step [OF st [unfolded Sighup]] g g'
  have "sighup (\<lambda>_. outcome) now_ms el (sy_store s, Some g) = (sy_store s', Some g')" by simp
  from sighup_gateway [OF ok [unfolded g] this] have "handed b64 x0 g' rs"
  proof (elim disjE exE conjE)
    fix l assume l: "outcome = Inr l" "hot_apply b64 (ld_config l) g = Some g'"
    note fr = hot_apply_frame [OF l(2)]
    have "width_ok (ld_config l)" using steady Sighup l(1) by simp
    with h fr have ev: "pool_step b64 (gw_exporter g) (Reload (otlp_endpoint (c_export (ld_config l)))
        (max_inflight (c_export (ld_config l)))) = Some (gw_exporter g')"
      by (simp add: handed_def width_ok_def not_less)
    have "\<not> senders_gone (gw_exporter g')"
      using h apply_target_senders fr by (metis handed_def)
    from handed_pool [OF h ev this] fr show ?thesis by simp
  qed (use h in simp)
  with Sighup show ?thesis by (intro exI [of _ "[]"]) simp
next
  case (Batcher ev)
  from st [unfolded Batcher] obtain g1 ex where "sy_gateway s = Some g1" "batcher_event ev"
    "pool_step b64 (gw_exporter g1) ev = Some ex" "s' = s\<lparr>sy_gateway := Some (g1\<lparr>gw_exporter := ex\<rparr>)\<rparr>"
    by (blast elim: batcher_sys_step)
  with g g' have b: "batcher_event ev" "pool_step b64 (gw_exporter g) ev = Some ex"
    "g' = g\<lparr>gw_exporter := ex\<rparr>" by simp_all
  have "senders_gone ex = senders_gone (gw_exporter g)"
    using pool_step_handle [OF b(2,1)] by (simp add: handle_def)
  with h have "\<not> senders_gone ex" by (simp add: handed_def)
  from handed_pool [OF h b(2) this submitted_batcher [OF b(1)]] b(3) have "handed b64 x0 g' rs" by simp
  with Batcher show ?thesis by (intro exI [of _ "[]"]) simp
qed

text \<open>How often a request's identity was accepted, and closed; whether it was a WebSocket.\<close>

fun opens :: "nat \<Rightarrow> sys_event \<Rightarrow> bool" where
  "opens i (Accept j rq now) = (j = i)"
| "opens i _ = False"

fun closes :: "nat \<Rightarrow> sys_event \<Rightarrow> bool" where
  "closes i (Logging j clk er) = (j = i)"
| "closes i _ = False"

fun ws_hook :: "nat \<Rightarrow> sys_event \<Rightarrow> bool" where
  "ws_hook i (Hook j h) = (j = i \<and> upgraded_body h)"
| "ws_hook i _ = False"

definition filed_by :: "nat \<Rightarrow> (nat \<times> turn_record) list \<Rightarrow> nat" where
  "filed_by i trs = length (filter (\<lambda>t. fst t = i) trs)"

lemma filed_by_append [simp]: "filed_by i (as @ bs) = filed_by i as + filed_by i bs" "filed_by i [] = 0"
  by (simp_all add: filed_by_def)

lemma allotted_count:
  "allotted e trs \<Longrightarrow> \<not> ws_hook i e \<Longrightarrow> filed_by i trs \<le> (if closes i e then 1 else 0)"
  by (cases e) (auto simp: filed_by_def filter_empty_conv intro: order_trans [OF length_filter_le])

lemma sighup_alive:
  assumes "sys_ok b64 cfg0 ts n s" "sys_step env b64 s e = Some s'" "sy_gateway s' = Some g'"
  obtains g where "sy_gateway s = Some g"
proof (cases "sy_gateway s")
  case None
  have "sy_gateway s' = None"
  proof (cases e)
    case (Sighup outcome now_ms el)
    with sighup_sys_step [of env b64 s outcome now_ms el s'] assms(1,2) None
      sighup_dead [of b64 cfg0 ts "sy_store s" "\<lambda>_. outcome" now_ms el]
    show ?thesis by (metis snd_conv sys_ok_def)
  qed (use assms(2) None in \<open>auto simp: sys_step.simps\<close>)
  with assms(3) show ?thesis by simp
qed (use that in blast)

lemma alive_run:
  "sys_ok b64 cfg0 ts n s \<Longrightarrow> run (sys_step env b64) s es = Some s' \<Longrightarrow> n + accepted es < 2 ^ 64 \<Longrightarrow>
     sy_gateway s' = Some g' \<Longrightarrow> \<exists>g. sy_gateway s = Some g"
proof (induction es arbitrary: s n)
  case (Cons e es)
  from Cons.prems(2) obtain u where u: "sys_step env b64 s e = Some u" "run (sys_step env b64) u es = Some s'"
    by (auto split: Option.bind_splits)
  have lt: "n + accepts e < 2 ^ 64" "n + accepts e + accepted es < 2 ^ 64" using Cons.prems(3) by simp_all
  from Cons.IH [OF sys_ok_step [OF Cons.prems(1) u(1) lt(1)] u(2) lt(2) Cons.prems(4)]
  obtain gu where "sy_gateway u = Some gu" by blast
  from sighup_alive [OF Cons.prems(1) u(1) this] show ?case by blast
qed simp

lemma handed_run:
  assumes "sys_ok b64 cfg0 ts n s" "run (sys_step env b64) s es = Some s'" "n + accepted es < 2 ^ 64"
    and "list_all steady es" "sy_gateway s' = Some g'"
    and "\<And>g. sy_gateway s = Some g \<Longrightarrow> handed b64 x0 g rs"
  shows "\<exists>trs. handed b64 x0 g' (rs @ map snd trs)
    \<and> (\<forall>i. list_all (\<lambda>e. \<not> ws_hook i e) es \<longrightarrow> filed_by i trs \<le> length (filter (closes i) es))"
  using assms
proof (induction es arbitrary: s n rs)
  case Nil
  then show ?case by (intro exI [of _ "[]"]) simp
next
  case (Cons e es)
  from Cons.prems(2) obtain u where u: "sys_step env b64 s e = Some u" "run (sys_step env b64) u es = Some s'"
    by (auto split: Option.bind_splits)
  have lt: "n + accepts e < 2 ^ 64" "n + accepts e + accepted es < 2 ^ 64" using Cons.prems(3) by simp_all
  note ok = sys_ok_step [OF Cons.prems(1) u(1) lt(1)]
  from alive_run [OF ok u(2) lt(2) Cons.prems(5)] obtain gu where gu: "sy_gateway u = Some gu" by blast
  obtain g where g: "sy_gateway s = Some g" by (rule sighup_alive [OF Cons.prems(1) u(1) gu])
  have "process_ok b64 cfg0 ts (sy_store s, sy_gateway s)" using Cons.prems(1) by (simp add: sys_ok_def)
  from handed_step [OF u(1) this g gu _ Cons.prems(6) [OF g]] Cons.prems(4)
  obtain ts1 where t1: "handed b64 x0 gu (rs @ map snd ts1)" "allotted e ts1" by auto
  from Cons.IH [OF ok u(2) lt(2) _ Cons.prems(5), of "rs @ map snd ts1"] Cons.prems(4) t1(1) gu
  obtain ts2 where t2: "handed b64 x0 g' ((rs @ map snd ts1) @ map snd ts2)"
    "\<forall>i. list_all (\<lambda>e. \<not> ws_hook i e) es \<longrightarrow> filed_by i ts2 \<le> length (filter (closes i) es)" by auto
  have "filed_by i (ts1 @ ts2) \<le> length (filter (closes i) (e # es))"
    if "list_all (\<lambda>e. \<not> ws_hook i e) (e # es)" for i
    using that allotted_count [OF t1(2), of i] t2(2) [rule_format, of i] by (auto split: if_splits)
  with t2(1) show ?case by (intro exI [of _ "ts1 @ ts2"]) simp
qed

text \<open>An identity is closed once for each time it was accepted, unless it is still open.\<close>

lemma open_close_run:
  assumes "run (sys_step env b64) s es = Some s'"
  shows "length (filter (closes i) es) + (if sy_conns s' i = None then 0 else 1)
     = length (filter (opens i) es) + (if sy_conns s i = None then 0 else 1)"
  using assms
proof (induction es arbitrary: s)
  case (Cons e es)
  from Cons.prems obtain u where u: "sys_step env b64 s e = Some u" "run (sys_step env b64) u es = Some s'"
    by (auto split: Option.bind_splits)
  have "(if closes i e then 1 else 0) + (if sy_conns u i = None then 0 else 1)
      = (if opens i e then 1 else 0) + (if sy_conns s i = None then 0 else (1 :: nat))"
  proof (cases e)
    case (Accept j rq now)
    with u(1) show ?thesis by (auto elim!: accept_step split: if_splits)
  next
    case (Hook j h)
    with u(1) show ?thesis by (auto elim!: hook_sys_step split: if_splits)
  next
    case (Logging j clk er)
    with u(1) show ?thesis by (auto elim!: logging_sys_step split: if_splits)
  next
    case (Sighup outcome now_ms el)
    with sighup_sys_step [of env b64 s outcome now_ms el u] u(1) show ?thesis by simp
  next
    case (Batcher ev)
    with u(1) show ?thesis by (auto elim!: batcher_sys_step split: if_splits)
  qed
  with Cons.IH [OF u(2)] show ?case by auto
qed simp

lemma start_senders: "start b64 ep n w now = Some s \<Longrightarrow> \<not> senders_gone s"
  by (auto simp: start_def)


lemma width_ok_sample: "width_ok (sample_config\<lparr>c_capture := \<lparr>capture_max_bytes = 7\<rparr>\<rparr>)"
  by (simp add: width_ok_def sample_config_def MAX_PERMITS_def)


end
