(* ===== verification/System_Turns.thy ===== *)
theory System_Turns
  imports System_Props
begin

text \<open>
  One request among the others: it is served under the one configuration it was accepted with, it
  can always end, nothing that the other requests, the reloads or the exporter do changes what the
  relay makes of its upstream, and so a drained turn is recorded whole in any interleaving.
\<close>

section \<open>One configuration\<close>

lemma conn_step:
  assumes "sys_step env b64 s e = Some s'" "sy_conns s i = Some cn" "\<not> closes i e"
  shows "\<exists>cn'. sy_conns s' i = Some cn' \<and> cn_request cn' = cn_request cn
    \<and> snap (conn_ctx cn') = snap (conn_ctx cn) \<and> rt_start_ns (conn_ctx cn') = rt_start_ns (conn_ctx cn)"
proof (cases e)
  case (Accept j rq now)
  with assms show ?thesis by (auto elim!: accept_step)
next
  case (Hook j h)
  with assms(1) obtain g cnj st g' where h: "sy_conns s j = Some cnj"
    "hook_step env (cn_request cnj) h (cn_stage cnj) g = Some (st, g')"
    "s' = s\<lparr>sy_gateway := Some g', sy_conns := (sy_conns s)(j \<mapsto> cnj\<lparr>cn_stage := st\<rparr>)\<rparr>"
    by (blast elim: hook_sys_step)
  from hook_step_effect [OF h(2)] have "noted (conn_ctx cnj) g (stage_ctx st) g'" by blast
  with noted_keeps h(1,3) assms(2) show ?thesis by (cases "j = i") auto
next
  case (Logging j clk er)
  with assms show ?thesis by (auto elim!: logging_sys_step)
next
  case (Sighup outcome now_ms el)
  with sighup_sys_step [of env b64 s outcome now_ms el s'] assms show ?thesis by simp
next
  case (Batcher ev)
  with assms show ?thesis by (auto elim!: batcher_sys_step)
qed

lemma conn_run:
  assumes "run (sys_step env b64) s es = Some s'" "sy_conns s i = Some cn" "list_all (\<lambda>e. \<not> closes i e) es"
  shows "\<exists>cn'. sy_conns s' i = Some cn' \<and> cn_request cn' = cn_request cn
    \<and> snap (conn_ctx cn') = snap (conn_ctx cn) \<and> rt_start_ns (conn_ctx cn') = rt_start_ns (conn_ctx cn)"
  using assms
proof (induction es arbitrary: s cn)
  case (Cons e es)
  from Cons.prems(1) obtain u where u: "sys_step env b64 s e = Some u" "run (sys_step env b64) u es = Some s'"
    by (auto split: Option.bind_splits)
  from conn_step [OF u(1) Cons.prems(2)] Cons.prems(3) obtain cu where cu: "sy_conns u i = Some cu"
    "cn_request cu = cn_request cn" "snap (conn_ctx cu) = snap (conn_ctx cn)"
    "rt_start_ns (conn_ctx cu) = rt_start_ns (conn_ctx cn)" by auto
  from Cons.IH [OF u(2) cu(1)] Cons.prems(3) cu(2-4) show ?case by auto
qed simp

lemma logging_states:
  assumes "logging env rq clk e c g = Some (c', g')"
  shows "\<exists>rs. pushed rs g g' \<and> length rs \<le> 1
    \<and> (\<forall>r \<in> set rs. trace_tag r = tr_tag (c_trace (sn_cfg (snap c))) \<and> start_ns r = rt_start_ns c)"
proof (cases "turn_of env rq c")
  case None
  from logging_skips [OF None, of clk e g] assms have "pushed [] g g'" by (auto simp: unrecorded_def)
  then show ?thesis by (intro exI [of _ "[]"]) simp
next
  case (Some m)
  with assms have "record_turn env rq clk (pm_descriptor m) e c (released clk m c g) = Some (c', g')"
    by (simp add: logging_turn)
  from record_turn_record [OF this] have
    "(\<exists>r. recorded r (released clk m c g) g' \<and> states_turn clk (pm_descriptor m) (session_verdict e c) c r)
     \<or> unrecorded (released clk m c g) g'" by blast
  then show ?thesis
  proof (elim disjE exE conjE)
    fix r assume "recorded r (released clk m c g) g'" "states_turn clk (pm_descriptor m) (session_verdict e c) c r"
    moreover from this(1) have "recorded r g g'" by (simp add: recorded_def)
    from pushed_one [OF this] have "pushed [r] g g'" .
    ultimately show ?thesis by (intro exI [of _ "[r]"]) (simp add: states_turn_def)
  next
    assume "unrecorded (released clk m c g) g'"
    then show ?thesis by (intro exI [of _ "[]"]) (simp add: unrecorded_def)
  qed
qed


text \<open>A reload between the acceptance and the end.\<close>

lemma demo_logged:
  obtains p s1 s2 s3 g2 g3 where "run_process (\<lambda>_. []) [] 0 True True demo_store = Some p"
    "sys_step demo_env (\<lambda>_. []) (boot p) (Accept 0 demo_request 5) = Some s1"
    "run (sys_step demo_env (\<lambda>_. [])) s1 [demo_reload] = Some s2"
    "sys_step demo_env (\<lambda>_. []) s2 (Logging 0 demo_clock None) = Some s3"
    "sy_gateway s2 = Some g2" "sy_gateway s3 = Some g3"
    "sn_cfg (inner (sy_store s2)) = sample_config\<lparr>c_capture := \<lparr>capture_max_bytes = 7\<rparr>\<rparr>"
proof -
  obtain p s2 g2 where p: "run_process (\<lambda>_. []) [] 0 True True demo_store = Some p"
    and s2: "run (sys_step demo_env (\<lambda>_. [])) (boot p) [Accept 0 demo_request 5, demo_reload] = Some s2"
    and g2: "sy_gateway s2 = Some g2"
    and cn: "sy_conns s2 0 = Some \<lparr>cn_request = demo_request, cn_stage = Accepted (new_ctx (inner demo_store) 5)\<rparr>"
    and cfg: "sn_cfg (inner (sy_store s2)) = sample_config\<lparr>c_capture := \<lparr>capture_max_bytes = 7\<rparr>\<rparr>"
    using demo_run by blast
  have "accepted [Accept 0 demo_request 5, demo_reload] < 2 ^ 64" by (simp add: demo_reload_def)
  from reachable_ok [OF p s2 this] g2 have "stitcher_ok (gw_stitcher g2)" by (simp add: sys_ok_def)
  then obtain c' g3 where "logging demo_env demo_request demo_clock None (new_ctx (inner demo_store) 5) g2 = Some (c', g3)"
    using logging_some by blast
  with g2 cn obtain s3 where s3: "sys_step demo_env (\<lambda>_. []) s2 (Logging 0 demo_clock None) = Some s3" "sy_gateway s3 = Some g3"
    by (simp add: sys_step.simps)
  from s2 obtain s1 where "sys_step demo_env (\<lambda>_. []) (boot p) (Accept 0 demo_request 5) = Some s1"
    "run (sys_step demo_env (\<lambda>_. [])) s1 [demo_reload] = Some s2" by (auto simp: bind_eq_Some_conv)
  from that [OF p this s3(1) g2 s3(2) cfg] show ?thesis .
qed


section \<open>Every request can end\<close>

fun concerns :: "nat \<Rightarrow> sys_event \<Rightarrow> bool" where
  "concerns i (Accept j rq now) = (j = i)"
| "concerns i (Hook j h) = (j = i)"
| "concerns i (Logging j clk er) = (j = i)"
| "concerns i _ = False"

lemma log_now:
  assumes "sy_gateway s = Some g" "sy_conns s i = Some cn" "may_log (cn_stage cn)" "stitcher_ok (gw_stitcher g)"
  shows "\<exists>s'. sys_step env b64 s (Logging i clk er) = Some s' \<and> sy_conns s' i = None"
proof -
  obtain c g' where "logging env (cn_request cn) clk er (conn_ctx cn) g = Some (c, g')"
    using logging_some [OF assms(4)] by blast
  with assms(1-3) show ?thesis by (simp add: sys_step.simps)
qed

lemma return_now:
  assumes "sy_gateway s = Some g" "sy_conns s i = Some cn" "cn_stage cn = Relaying d p" "p_over p"
    and "stitcher_ok (gw_stitcher g)"
  shows "\<exists>s'. run (sys_step env b64) s [Hook i (Relay_return wall), Logging i clk er] = Some s'
    \<and> sy_conns s' i = None"
proof -
  let ?u = "s\<lparr>sy_gateway := Some g, sy_conns := (sy_conns s)(i \<mapsto> cn\<lparr>cn_stage := Served (relay_end wall p)\<rparr>)\<rparr>"
  have u: "sys_step env b64 s (Hook i (Relay_return wall)) = Some ?u"
    using assms by (simp add: sys_step.simps)
  have "\<exists>s'. sys_step env b64 ?u (Logging i clk er) = Some s' \<and> sy_conns s' i = None"
    by (rule log_now [where g = g and cn = "cn\<lparr>cn_stage := Served (relay_end wall p)\<rparr>"])
      (simp_all add: assms(5))
  with u show ?thesis by auto
qed



section \<open>A relayed request among the others\<close>

text \<open>The events of a request's body pump, in their order.\<close>

fun pump_events :: "nat \<Rightarrow> sys_event list \<Rightarrow> pump_event list" where
  "pump_events i [] = []"
| "pump_events i (Hook j (Relay_event ev) # es) = (if j = i then ev # pump_events i es else pump_events i es)"
| "pump_events i (_ # es) = pump_events i es"

fun returns :: "nat \<Rightarrow> sys_event \<Rightarrow> bool" where
  "returns i (Hook j (Relay_return wall)) = (j = i)"
| "returns i _ = False"

lemma pump_events_Cons: "pump_events i (e # es) = pump_events i [e] @ pump_events i es"
proof (cases e)
  case (Hook j h)
  then show ?thesis by (cases h) simp_all
qed simp_all

lemma conn_untouched:
  assumes "sys_step env b64 s e = Some s'" "\<not> concerns i e"
  shows "sy_conns s' i = sy_conns s i"
proof (cases e)
  case (Accept j rq now)
  with assms show ?thesis by (auto elim!: accept_step)
next
  case (Hook j h)
  with assms(1) obtain g cnj st g' where
    "s' = s\<lparr>sy_gateway := Some g', sy_conns := (sy_conns s)(j \<mapsto> cnj\<lparr>cn_stage := st\<rparr>)\<rparr>"
    by (blast elim: hook_sys_step)
  with assms(2) Hook show ?thesis by simp
next
  case (Logging j clk er)
  with assms show ?thesis by (auto elim!: logging_sys_step)
next
  case (Sighup outcome now_ms el)
  with sighup_sys_step [of env b64 s outcome now_ms el s'] assms show ?thesis by simp
next
  case (Batcher ev)
  with assms show ?thesis by (auto elim!: batcher_sys_step)
qed

lemma conn_untouched_run:
  assumes "run (sys_step env b64) s es = Some s'" "list_all (\<lambda>e. \<not> concerns i e) es"
  shows "sy_conns s' i = sy_conns s i"
  using assms
proof (induction es arbitrary: s)
  case (Cons e es)
  from Cons.prems(1) obtain u where u: "sys_step env b64 s e = Some u" "run (sys_step env b64) u es = Some s'"
    by (auto split: Option.bind_splits)
  from Cons.IH [OF u(2)] conn_untouched [OF u(1)] Cons.prems(2) show ?case by simp
qed simp

lemma concerns_no_pump: "\<not> concerns i e \<Longrightarrow> pump_events i [e] = []"
proof (cases e)
  case (Hook j h)
  then show "\<not> concerns i e \<Longrightarrow> pump_events i [e] = []" by (cases h) simp_all
qed simp_all

text \<open>What the relay makes of its upstream depends on the request's own events alone.\<close>

lemma relay_step:
  assumes st: "sys_step env b64 s e = Some s'" and cn: "sy_conns s i = Some cn" "cn_stage cn = Relaying d p"
    and nr: "\<not> returns i e"
  shows "\<exists>q. sy_conns s' i = Some (cn\<lparr>cn_stage := Relaying d q\<rparr>)
    \<and> run (pump_step (env_parse env) (env_render env) d) p (pump_events i [e]) = Some q"
proof (cases "concerns i e")
  case False
  from conn_untouched [OF st False] cn concerns_no_pump [OF False]
  show ?thesis by (intro exI [of _ p]) simp
next
  case True
  then show ?thesis
  proof (cases e)
    case (Accept j rq now)
    with True cn st show ?thesis by (auto elim!: accept_step)
  next
    case (Hook j h)
    with True have j: "j = i" by simp
    from st [unfolded Hook] obtain g cnj stg g' where h: "sy_conns s j = Some cnj"
      "hook_step env (cn_request cnj) h (cn_stage cnj) g = Some (stg, g')"
      "s' = s\<lparr>sy_gateway := Some g', sy_conns := (sy_conns s)(j \<mapsto> cnj\<lparr>cn_stage := stg\<rparr>)\<rparr>"
      by (blast elim: hook_sys_step)
    with j cn have h2: "hook_step env (cn_request cn) h (Relaying d p) g = Some (stg, g')" by simp
    with nr Hook j obtain ev where ev: "h = Relay_event ev" by (cases h) auto
    with h2 obtain q where "pump_step (env_parse env) (env_render env) d p ev = Some q" "stg = Relaying d q"
      by (auto split: if_splits)
    with h j cn ev Hook show ?thesis by auto
  next
    case (Logging j clk er)
    with True cn st show ?thesis by (auto elim!: logging_sys_step)
  qed simp_all
qed

lemma relay_run:
  assumes "run (sys_step env b64) s es = Some s'" "sy_conns s i = Some cn" "cn_stage cn = Relaying d p"
    and "list_all (\<lambda>e. \<not> returns i e) es"
  shows "\<exists>q. sy_conns s' i = Some (cn\<lparr>cn_stage := Relaying d q\<rparr>)
    \<and> run (pump_step (env_parse env) (env_render env) d) p (pump_events i es) = Some q"
  using assms
proof (induction es arbitrary: s cn p)
  case (Cons e es)
  from Cons.prems(1) obtain u where u: "sys_step env b64 s e = Some u" "run (sys_step env b64) u es = Some s'"
    by (auto split: Option.bind_splits)
  from relay_step [OF u(1) Cons.prems(2,3)] Cons.prems(4) obtain q where
    q: "sy_conns u i = Some (cn\<lparr>cn_stage := Relaying d q\<rparr>)"
    "run (pump_step (env_parse env) (env_render env) d) p (pump_events i [e]) = Some q" by auto
  from Cons.IH [OF u(2) q(1), of q] Cons.prems(4) obtain q' where
    "sy_conns s' i = Some (cn\<lparr>cn_stage := Relaying d q'\<rparr>)"
    "run (pump_step (env_parse env) (env_render env) d) q (pump_events i es) = Some q'" by auto
  with q(2) show ?case by (simp add: pump_events_Cons [of i e es] run_append del: pump_events.simps)
qed auto

subsection \<open>The status of the response\<close>

lemma status_frames [simp]:
  "resp_status (drain_chunk parse render d cap bs c) = resp_status c"
  "resp_status (first_output wall bs c) = resp_status c"
  by (auto simp: drain_chunk_def drain_capture_def first_output_def Let_def split: option.split prod.split)

lemma status_lose_client [simp]:
  "resp_status (p_ctx (lose_client parse render d now p)) = resp_status (p_ctx p)"
proof -
  have "resp_status (fst (begin_drain parse render d now c)) = resp_status c" for c
    by (auto simp: begin_drain_def Let_def split: prod.split)
  from this [of "(p_ctx p)\<lparr>client_dead := True\<rparr>"] show ?thesis
    by (cases "begin_drain parse render d now ((p_ctx p)\<lparr>client_dead := True\<rparr>)") (simp add: lose_client_def Let_def)
qed

lemma status_pump_step:
  assumes "pump_step parse render d p e = Some p'"
  shows "resp_status (p_ctx p') = resp_status (p_ctx p)"
proof (cases e)
  case (Chunk bs wall now ok cap)
  define c where "c = first_output wall bs (p_ctx p)"
  have "resp_status c = resp_status (p_ctx p)" by (simp add: c_def)
  with assms Chunk show ?thesis by (auto simp: c_def [symmetric] Let_def split: if_splits)
qed (use assms in \<open>auto split: if_splits\<close>)

lemma status_pump_run:
  "run (pump_step parse render d) p es = Some q \<Longrightarrow> resp_status (p_ctx q) = resp_status (p_ctx p)"
proof (induction es arbitrary: p)
  case (Cons e es)
  from Cons.prems obtain u where "pump_step parse render d p e = Some u" "run (pump_step parse render d) u es = Some q"
    by (auto split: Option.bind_splits)
  with Cons.IH status_pump_step show ?case by metis
qed simp

subsection \<open>The recorded turn\<close>

lemma relayed_route:
  "request_route render cfg path query ws = Relay d \<Longrightarrow>
     on_cancel (c_drain cfg) \<and> (\<exists>m. detect_path render path = Some m \<and> pm_descriptor m = d)"
  by (auto simp: request_route_def detect_path_fail_open_def split: if_splits prod.splits option.splits)

lemma enter_relay_relaying:
  assumes "enter_relay d io c g = Some (Relaying d' p, g')"
  shows "d' = d \<and> (\<exists>c0 gs. read_upload (io_upload io) c = Some (c0, True)
     \<and> relay_head (io_at io) (io_head_error io) (io_written io) (io_head_request io) (io_sent io) c0 (gw_gauges g)
         = (Inr p, gs))"
  using assms by (auto simp: enter_relay_def split: option.splits bool.splits prod.splits sum.splits)

text \<open>The history of a relayed request, from its acceptance to the hook at its end, with everything
  else that happens meanwhile in the three stretches \<open>es1\<close>, \<open>es2\<close>, \<open>es3\<close>.\<close>

definition relayed_history ::
  "env \<Rightarrow> (bytes \<Rightarrow> string) \<Rightarrow> nat \<Rightarrow> request \<Rightarrow> u64 \<Rightarrow> string option \<Rightarrow> relay_io \<Rightarrow> u64 \<Rightarrow>
     sys_event list \<Rightarrow> sys_event list \<Rightarrow> sys_event list \<Rightarrow> system \<Rightarrow> system \<Rightarrow> bool" where
  "relayed_history env b64 i rq now query io wall es1 es2 es3 s t \<longleftrightarrow>
     run (sys_step env b64) s
       (Accept i rq now # es1 @ Hook i (Request_filter query False io) # es2
        @ Hook i (Relay_return wall) # es3) = Some t
     \<and> list_all (\<lambda>e. \<not> concerns i e) es1 \<and> list_all (\<lambda>e. \<not> returns i e \<and> \<not> closes i e) es2
     \<and> list_all (\<lambda>e. \<not> concerns i e) es3"

lemma hook_of:
  assumes "sys_step env b64 s (Hook i h) = Some s'" "sy_conns s i = Some cn"
  obtains g st g' where "sy_gateway s = Some g" "hook_step env (cn_request cn) h (cn_stage cn) g = Some (st, g')"
    "sy_conns s' i = Some (cn\<lparr>cn_stage := st\<rparr>)"
  using assms(1) by (rule hook_sys_step) (use assms(2) that in auto)

lemma served_run:
  assumes "run (sys_step env b64) s es = Some s'" "sy_conns s i = Some cn" "cn_stage cn = Served c"
    and "list_all (\<lambda>e. \<not> closes i e) es"
  shows "sy_conns s' i = Some cn"
  using assms(1,2,4)
proof (induction es arbitrary: s)
  case (Cons e es)
  from Cons.prems(1) obtain u where u: "sys_step env b64 s e = Some u" "run (sys_step env b64) u es = Some s'"
    by (auto split: Option.bind_splits)
  have "sy_conns u i = Some cn"
  proof (cases "concerns i e")
    case False
    with conn_untouched [OF u(1)] Cons.prems(2) show ?thesis by simp
  next
    case True
    then show ?thesis
    proof (cases e)
      case (Accept j rq now)
      with True Cons.prems(2) u(1) show ?thesis by (auto elim!: accept_step)
    next
      case (Hook j h)
      with True have "sys_step env b64 s (Hook i h) = Some u" using u(1) by simp
      then show ?thesis
        by (rule hook_of [OF _ Cons.prems(2)]) (use assms(3) in \<open>cases h; simp\<close>)
    qed (use Cons.prems(3) in auto)
  qed
  with Cons.IH [OF u(2)] Cons.prems(3) show ?case by simp
qed simp

lemma relayed_history_turn:
  assumes "relayed_history env b64 i rq now query io wall es1 es2 es3 s t"
    and "request_route (env_render env) (sn_cfg (inner (sy_store s))) (rq_path rq) query False = Relay d"
  obtains c0 p q gs where "read_upload (io_upload io) (new_ctx (inner (sy_store s)) now) = Some (c0, True)"
    "relay_turn (env_parse env) (env_render env) d (io_at io) wall (io_upload io) (io_sent io)
       (io_head_error io) (io_written io) (io_head_request io) (pump_events i es2)
       (new_ctx (inner (sy_store s)) now) gs = Some (relay_end wall q, snd (relay_head (io_at io)
         (io_head_error io) (io_written io) (io_head_request io) (io_sent io) c0 gs))"
    "relay_head (io_at io) (io_head_error io) (io_written io) (io_head_request io) (io_sent io) c0 gs
       = (Inr p, snd (relay_head (io_at io) (io_head_error io) (io_written io) (io_head_request io)
           (io_sent io) c0 gs))"
    "run (pump_step (env_parse env) (env_render env) d) p (pump_events i es2) = Some q"
    "sy_conns t i = Some \<lparr>cn_request = rq, cn_stage = Served (relay_end wall q)\<rparr>"
proof -
  let ?sn = "inner (sy_store s)"
  let ?run = "run (sys_step env b64)"
  from assms(1) obtain s1 s2 s3 s4 s5 where
    h: "sys_step env b64 s (Accept i rq now) = Some s1" "?run s1 es1 = Some s2"
    "sys_step env b64 s2 (Hook i (Request_filter query False io)) = Some s3" "?run s3 es2 = Some s4"
    "sys_step env b64 s4 (Hook i (Relay_return wall)) = Some s5" "?run s5 es3 = Some t"
    by (auto simp: relayed_history_def run_append bind_eq_Some_conv)
  from assms(1) have q: "list_all (\<lambda>e. \<not> concerns i e) es1" "list_all (\<lambda>e. \<not> returns i e) es2"
    "list_all (\<lambda>e. \<not> concerns i e) es3" "list_all (\<lambda>e. \<not> closes i e) es2"
    by (simp_all add: relayed_history_def list_all_iff)
  from h(1) have "sy_conns s1 i = Some \<lparr>cn_request = rq, cn_stage = Accepted (new_ctx ?sn now)\<rparr>"
    by (auto elim!: accept_step)
  with conn_untouched_run [OF h(2) q(1)]
  have c2: "sy_conns s2 i = Some \<lparr>cn_request = rq, cn_stage = Accepted (new_ctx ?sn now)\<rparr>" by simp
  obtain g st g' where f: "hook_step env rq (Request_filter query False io) (Accepted (new_ctx ?sn now)) g = Some (st, g')"
    "sy_conns s3 i = Some \<lparr>cn_request = rq, cn_stage = st\<rparr>"
    by (rule hook_of [OF h(3) c2]) simp
  have "snap (new_ctx ?sn now) = ?sn" by (simp add: new_ctx_def Let_def)
  with f(1) assms(2) have e: "enter_relay d io (new_ctx ?sn now) g = Some (st, g')"
    by (simp add: request_filter_def)
  have "\<exists>p. st = Relaying d p"
  proof (rule ccontr)
    assume no: "\<nexists>p. st = Relaying d p"
    with e obtain c where st: "st = Served c"
      by (auto simp: enter_relay_def split: option.splits bool.splits prod.splits sum.splits)
    from served_run [OF h(4) f(2) _ q(4)] st
    have c4: "sy_conns s4 i = Some \<lparr>cn_request = rq, cn_stage = Served c\<rparr>" by simp
    show False by (rule hook_of [OF h(5) c4]) simp
  qed
  then obtain p where p: "st = Relaying d p" by blast
  from enter_relay_relaying [OF e [unfolded p]] obtain c0 gs where
    u: "read_upload (io_upload io) (new_ctx ?sn now) = Some (c0, True)"
    "relay_head (io_at io) (io_head_error io) (io_written io) (io_head_request io) (io_sent io) c0 (gw_gauges g) = (Inr p, gs)"
    by blast
  from relay_run [OF h(4) f(2) _ q(2), of d p] p obtain w where
    w: "sy_conns s4 i = Some \<lparr>cn_request = rq, cn_stage = Relaying d w\<rparr>"
    "run (pump_step (env_parse env) (env_render env) d) p (pump_events i es2) = Some w" by auto
  obtain g4 st4 g5 where "hook_step env rq (Relay_return wall) (Relaying d w) g4 = Some (st4, g5)"
    "sy_conns s5 i = Some \<lparr>cn_request = rq, cn_stage = st4\<rparr>"
    by (rule hook_of [OF h(5) w(1)]) simp
  then have o: "p_over w" "sy_conns s5 i = Some \<lparr>cn_request = rq, cn_stage = Served (relay_end wall w)\<rparr>"
    by (auto split: if_splits)
  with conn_untouched_run [OF h(6) q(3)]
  have t: "sy_conns t i = Some \<lparr>cn_request = rq, cn_stage = Served (relay_end wall w)\<rparr>" by simp
  have r: "relay_turn (env_parse env) (env_render env) d (io_at io) wall (io_upload io) (io_sent io)
       (io_head_error io) (io_written io) (io_head_request io) (pump_events i es2)
       (new_ctx ?sn now) (gw_gauges g) = Some (relay_end wall w, gs)"
    using u w(2) o(1) by (simp add: relay_turn_def)
  show ?thesis
    by (rule that [OF u(1) _ _ w(2) t, of "gw_gauges g"]) (use u(2) r in simp_all)
qed

text \<open>C1 End to end, in the whole process: a relayed event stream is recorded with the text, the tool
  calls, the usage and the protocol error of everything its upstream sent, whatever moment its client
  was lost at and whatever other requests, reloads and exports did meanwhile; it is stated as
  cancelled exactly when the client was lost, and under the configuration it was accepted with.\<close>

theorem interleaved_turn_recorded:
  assumes "relayed_history env b64 i rq now query io wall es1 es2 es3 s t"
    and "request_route (env_render env) (sn_cfg (inner (sy_store s))) (rq_path rq) query False = Relay d"
    and "io_sent io = Response sc (Some ctype)" "io_head_error io = None" "looks_like_sse ctype"
    and "200 \<le> sc" "sc < 300"
    and "sys_step env b64 t (Logging i clk None) = Some t'"
    and "sy_gateway t = Some g" "sy_gateway t' = Some g'" "\<not> gw_trace_off g"
  shows "\<exists>r cn. recorded r g g' \<and> sy_conns t i = Some cn
     \<and> (let out = stream_response (env_parse env) (env_render env) d (received (pump_events i es2))
        in final_output r = so_text out \<and> tool_calls r = so_tools out \<and> usage r = so_usage out
           \<and> turn_error r = or_else (so_error out) (relay_error (conn_ctx cn)))
     \<and> cancelled r = client_dead (conn_ctx cn) \<and> sy_conns t' i = None"
proof -
  obtain c0 p q gs where h:
    "read_upload (io_upload io) (new_ctx (inner (sy_store s)) now) = Some (c0, True)"
    "relay_turn (env_parse env) (env_render env) d (io_at io) wall (io_upload io) (io_sent io)
       (io_head_error io) (io_written io) (io_head_request io) (pump_events i es2)
       (new_ctx (inner (sy_store s)) now) gs = Some (relay_end wall q, snd (relay_head (io_at io)
         (io_head_error io) (io_written io) (io_head_request io) (io_sent io) c0 gs))"
    "relay_head (io_at io) (io_head_error io) (io_written io) (io_head_request io) (io_sent io) c0 gs
       = (Inr p, snd (relay_head (io_at io) (io_head_error io) (io_written io) (io_head_request io)
           (io_sent io) c0 gs))"
    "run (pump_step (env_parse env) (env_render env) d) p (pump_events i es2) = Some q"
    "sy_conns t i = Some \<lparr>cn_request = rq, cn_stage = Served (relay_end wall q)\<rparr>"
    by (rule relayed_history_turn [OF assms(1,2)])
  let ?c = "relay_end wall q"
  from relayed_route [OF assms(2)] obtain m where
    on: "on_cancel (c_drain (sn_cfg (inner (sy_store s))))"
    and m: "detect_path (env_render env) (rq_path rq) = Some m" "pm_descriptor m = d" by blast
  have "resp_status (p_ctx p) = sc"
    using relay_head_pump(2) [OF h(3) [unfolded assms(3)]] .
  with status_pump_run [OF h(4)] have sc: "resp_status ?c = sc" by (simp add: relay_end_def Let_def)
  then have turn: "turn_of env rq ?c = Some m" using m(1) assms(6,7) by (simp add: turn_of_def)
  from assms(8) obtain g1 cn c' g2 where l: "sy_gateway t = Some g1" "sy_conns t i = Some cn"
    "logging env (cn_request cn) clk None (conn_ctx cn) g1 = Some (c', g2)"
    "t' = t\<lparr>sy_gateway := Some g2, sy_conns := (sy_conns t)(i := None)\<rparr>" by (blast elim: logging_sys_step)
  with h(5) assms(9,10) have log: "logging env rq clk None ?c g = Some (c', g')" and gone: "sy_conns t' i = None" by auto
  have rt: "relay_turn (env_parse env) (env_render env) (pm_descriptor m) (io_at io) wall (io_upload io)
       (Response sc (Some ctype)) None (io_written io) (io_head_request io) (pump_events i es2)
       (new_ctx (inner (sy_store s)) now) gs = Some (?c, snd (relay_head (io_at io) (io_head_error io)
         (io_written io) (io_head_request io) (io_sent io) c0 gs))"
    using h(2) m(2) assms(3,4) by simp
  obtain r where r: "recorded r g g'" "(let out = stream_response (env_parse env) (env_render env)
        (pm_descriptor m) (received (pump_events i es2))
      in final_output r = so_text out \<and> tool_calls r = so_tools out \<and> usage r = so_usage out
         \<and> turn_error r = or_else (so_error out) (snd (session_verdict None ?c)))" "cancelled r = client_dead ?c"
    using drained_turn_recorded [OF on assms(5) h(1) rt turn assms(11) log] by blast
  have "snd (session_verdict None ?c) = relay_error ?c"
    using sc assms(7) by (auto simp: session_verdict_def split: option.split)
  with r m(2) h(5) gone show ?thesis
    by (intro exI [of _ r] exI [of _ "\<lparr>cn_request = rq, cn_stage = Served ?c\<rparr>"]) (simp add: Let_def)
qed

text \<open>A turn whose client goes between two chunks, while another request enters.\<close>

lemma pump_events_map: "pump_events i (map (\<lambda>ev. Hook i (Relay_event ev)) evs) = evs"
  by (induction evs) simp_all

lemma relay_hook:
  assumes "sy_gateway s = Some g" "sy_conns s i = Some cn" "cn_stage cn = Relaying d p" "event_cap_ok g ev"
    and "pump_step (env_parse env) (env_render env) d p ev = Some q"
  shows "sys_step env b64 s (Hook i (Relay_event ev)) =
    Some (s\<lparr>sy_gateway := Some g, sy_conns := (sy_conns s)(i \<mapsto> cn\<lparr>cn_stage := Relaying d q\<rparr>)\<rparr>)"
  using assms by (simp add: sys_step.simps del: pump_step.simps)

lemma relay_hooks:
  assumes "sy_gateway s = Some g" "sy_conns s i = Some cn" "cn_stage cn = Relaying d p"
    and "list_all (event_cap_ok g) evs" "run (pump_step (env_parse env) (env_render env) d) p evs = Some q"
  shows "\<exists>t. run (sys_step env b64) s (map (\<lambda>ev. Hook i (Relay_event ev)) evs) = Some t
    \<and> sy_gateway t = Some g \<and> sy_conns t i = Some (cn\<lparr>cn_stage := Relaying d q\<rparr>)"
  using assms
proof (induction evs arbitrary: s cn p)
  case (Cons ev evs)
  from Cons.prems(5) obtain w where w: "pump_step (env_parse env) (env_render env) d p ev = Some w"
    "run (pump_step (env_parse env) (env_render env) d) w evs = Some q" by (auto split: Option.bind_splits)
  note st = relay_hook [OF Cons.prems(1-3) _ w(1), of b64]
  from Cons.IH [of "s\<lparr>sy_gateway := Some g, sy_conns := (sy_conns s)(i \<mapsto> cn\<lparr>cn_stage := Relaying d w\<rparr>)\<rparr>"
      "cn\<lparr>cn_stage := Relaying d w\<rparr>" w] Cons.prems(4) w(2) st show ?case by simp
qed auto

definition turn_system :: system where
  "turn_system = \<lparr>sy_store = \<lparr>inner = drain_snapshot, reload_failures = 0,
     structural = structural_of sample_config, on_reload = None\<rparr>,
     sy_gateway = Some (demo_gateway\<lparr>gw_cap := capture_new 4\<rparr>), sy_conns = (\<lambda>_. None)\<rparr>"

definition turn_io :: relay_io where
  "turn_io = \<lparr>io_upload = [Upload_end], io_sent = Response 200 (Some ''text/event-stream''),
     io_head_error = None, io_written = True, io_head_request = False, io_at = 1\<rparr>"

definition turn_events :: "sys_event list" where
  "turn_events = Accept 1 demo_request 3 # map (\<lambda>ev. Hook 0 (Relay_event ev)) lost_client_events"

lemma turn_route:
  "request_route (env_render demo_env) (sn_cfg (inner (sy_store turn_system))) (rq_path demo_request) None False
     = Relay (anthropic_descriptor (\<lambda>_. []))"
proof -
  have "detect_path (env_render demo_env) (rq_path demo_request) =
      Some \<lparr>pm_descriptor = anthropic_descriptor (\<lambda>_. []), loose = False\<rparr>"
    using demo_turn [of "new_ctx drain_snapshot 0"] by (auto simp: turn_of_def split: option.splits if_splits)
  then show ?thesis
    by (simp add: request_route_def detect_path_fail_open_def turn_system_def drain_snapshot_def
        sample_config_def demo_request_def)
qed

lemma turn_history:
  obtains t g where "relayed_history demo_env (\<lambda>_. []) 0 demo_request 0 None turn_io 2 [] turn_events [] turn_system t"
    "sy_gateway t = Some g" "stitcher_ok (gw_stitcher g)" "\<not> gw_trace_off g"
proof -
  let ?step = "sys_step demo_env (\<lambda>_. [])" and ?d = "anthropic_descriptor (\<lambda>_. [])"
  let ?c = "new_ctx drain_snapshot 0"
  define g1 where "g1 = demo_gateway\<lparr>gw_cap := capture_new 4, gw_gauges := enter_request gauges_new\<rparr>"
  define s1 where "s1 = turn_system\<lparr>sy_gateway := Some g1,
     sy_conns := (\<lambda>_. None)(0 \<mapsto> \<lparr>cn_request = demo_request, cn_stage = Accepted ?c\<rparr>)\<rparr>"
  have 1: "?step turn_system (Accept 0 demo_request 0) = Some s1"
    by (simp add: sys_step.simps accept_request_def turn_system_def s1_def g1_def demo_gateway_def)
  obtain p gs where h: "relay_head 1 None True False (Response 200 (Some ''text/event-stream'')) ?c (gw_gauges g1) = (Inr p, gs)"
    "\<not> p_over p" "drains (p_ctx p)" "\<not> client_dead (p_ctx p)"
    by (simp add: relay_head_def mark_upstream_head_def new_ctx_def no_body_status_def Let_def
        drain_snapshot_def sample_config_def)
  define g2 where "g2 = g1\<lparr>gw_gauges := gs\<rparr>"
  define s2 where "s2 = s1\<lparr>sy_gateway := Some g2,
     sy_conns := (\<lambda>_. None)(0 \<mapsto> \<lparr>cn_request = demo_request, cn_stage = Relaying ?d p\<rparr>)\<rparr>"
  have r: "request_route (env_render demo_env) (sn_cfg (snap ?c)) (rq_path demo_request) None False = Relay ?d"
    using turn_route by (simp add: turn_system_def new_ctx_def Let_def)
  have 2: "?step s1 (Hook 0 (Request_filter None False turn_io)) = Some s2"
    using h(1) r by (simp add: sys_step.simps s1_def s2_def g2_def request_filter_def enter_relay_def turn_io_def)
  define g3 where "g3 = g2\<lparr>gw_gauges := enter_request gs\<rparr>"
  define s3 where "s3 = s2\<lparr>sy_gateway := Some g3, sy_conns := (sy_conns s2)(1 \<mapsto>
     \<lparr>cn_request = demo_request, cn_stage = Accepted (new_ctx drain_snapshot 3)\<rparr>)\<rparr>"
  have 3: "?step s2 (Accept 1 demo_request 3) = Some s3"
    by (simp add: sys_step.simps accept_request_def s2_def s3_def g3_def g2_def s1_def turn_system_def)
  obtain q where q: "run (pump_step (env_parse demo_env) (env_render demo_env) ?d) p lost_client_events = Some q" "p_over q"
    by (rule lost_client_run [OF h(2-4)])
  have caps: "list_all (event_cap_ok g3) lost_client_events"
    by (simp add: lost_client_events_def g3_def g2_def g1_def)
  have "sy_gateway s3 = Some g3"
    "sy_conns s3 0 = Some \<lparr>cn_request = demo_request, cn_stage = Relaying ?d p\<rparr>" by (simp_all add: s3_def s2_def)
  from relay_hooks [OF this _ caps q(1), of "\<lambda>_. []"] obtain s4 where
    s4: "run ?step s3 (map (\<lambda>ev. Hook 0 (Relay_event ev)) lost_client_events) = Some s4"
    "sy_gateway s4 = Some g3" "sy_conns s4 0 = Some \<lparr>cn_request = demo_request, cn_stage = Relaying ?d q\<rparr>" by auto
  define t where "t = s4\<lparr>sy_gateway := Some g3, sy_conns := (sy_conns s4)(0 \<mapsto>
     \<lparr>cn_request = demo_request, cn_stage = Served (relay_end 2 q)\<rparr>)\<rparr>"
  have 5: "?step s4 (Hook 0 (Relay_return 2)) = Some t"
    using s4(2,3) q(2) by (simp add: sys_step.simps t_def)
  have "relayed_history demo_env (\<lambda>_. []) 0 demo_request 0 None turn_io 2 [] turn_events [] turn_system t"
    using 1 2 3 s4(1) 5
    by (simp add: relayed_history_def turn_events_def run_append list_all_iff)
  moreover have "sy_gateway t = Some g3" by (simp add: t_def)
  moreover have "stitcher_ok (gw_stitcher g3)" "\<not> gw_trace_off g3"
    using demo_stitcher by (simp_all add: g3_def g2_def g1_def demo_gateway_def)
  ultimately show ?thesis by (rule that)
qed

theorem interleaved_turn_recorded_witness:
  "\<exists>t t' g g' r. relayed_history demo_env (\<lambda>_. []) 0 demo_request 0 None turn_io 2 [] turn_events [] turn_system t
     \<and> sys_step demo_env (\<lambda>_. []) t (Logging 0 demo_clock None) = Some t'
     \<and> sy_gateway t = Some g \<and> sy_gateway t' = Some g' \<and> recorded r g g'
     \<and> final_output r = so_text (stream_response (\<lambda>_. None) (\<lambda>_. []) (anthropic_descriptor (\<lambda>_. [])) ''data: {}'')"
proof -
  obtain t g where t: "relayed_history demo_env (\<lambda>_. []) 0 demo_request 0 None turn_io 2 [] turn_events [] turn_system t"
    "sy_gateway t = Some g" "stitcher_ok (gw_stitcher g)" "\<not> gw_trace_off g" by (rule turn_history)
  obtain c0 p q gs where "sy_conns t 0 = Some \<lparr>cn_request = demo_request, cn_stage = Served (relay_end 2 q)\<rparr>"
    by (rule relayed_history_turn [OF t(1) turn_route])
  moreover obtain c' g' where "logging demo_env demo_request demo_clock None (relay_end 2 q) g = Some (c', g')"
    using logging_some [OF t(3)] by blast
  ultimately obtain t' where l: "sys_step demo_env (\<lambda>_. []) t (Logging 0 demo_clock None) = Some t'" "sy_gateway t' = Some g'"
    using t(2) by (simp add: sys_step.simps)
  have sse: "looks_like_sse ''text/event-stream''" by code_simp
  have "received (pump_events 0 turn_events) = ''data: {}''"
    by (simp add: turn_events_def pump_events_map lost_client_events_def)
  with interleaved_turn_recorded [OF t(1) turn_route _ _ sse _ _ l(1) t(2) l(2) t(4)]
  obtain r where "recorded r g g'"
    "final_output r = so_text (stream_response (\<lambda>_. None) (\<lambda>_. []) (anthropic_descriptor (\<lambda>_. [])) ''data: {}'')"
    by (auto simp: Let_def turn_io_def demo_env_def)
  with t(1,2) l show ?thesis by blast
qed

end
