(* ===== verification/Text.thy ===== *)
theory Text
  imports Unpack Evidence Capture
begin

text \<open>
  What Rust's type \<open>String\<close> promises and the byte lists of the model do not: that text is valid UTF-8.
  The closure of valid text under the operations the gateway slices and joins with, the typing of
  JSON values, and the proof that the readers of the protocol tables, the SSE engine, the session and
  harness rules and the header evidence turn valid text into valid text. A Rust slice at a byte that
  is not a character boundary panics; here it would be a text that is not valid.
\<close>

named_theorems text_intro \<comment> \<open>operations that keep text valid\<close>

section \<open>Closure\<close>

lemma valid_utf8_Nil [simp]: "valid_utf8 []"
  by (simp add: valid_utf8_def)

lemma valid_append: "valid_utf8 a \<Longrightarrow> valid_utf8 (a @ b) = valid_utf8 b"
proof (induction a rule: utf8_chunks.induct)
  case (2 x r)
  from 2(2) obtain n where st: "utf8_step x r = (True, n)" and rest: "valid_utf8 (drop n (x # r))"
    by (auto simp: valid_utf8_Cons)
  have n: "0 < n" "n \<le> Suc (length r)" using st by (auto dest: utf8_step_pos utf8_step_le)
  have "r @ b = take (n - 1) r @ drop (n - 1) r @ b" by simp
  then have st': "utf8_step x (r @ b) = (True, n)" using utf8_step_take [OF st] by metis
  have "drop n ((x # r) @ b) = drop n (x # r) @ b" using n by (cases n) simp_all
  with 2(1) [unfolded st snd_conv, OF rest] st' show ?case by (simp add: valid_utf8_Cons)
qed simp

lemma valid_appendI [text_intro]: "valid_utf8 a \<Longrightarrow> valid_utf8 b \<Longrightarrow> valid_utf8 (a @ b)"
  by (simp add: valid_append)

lemma valid_concat [text_intro]: "(\<And>s. s \<in> set ss \<Longrightarrow> valid_utf8 s) \<Longrightarrow> valid_utf8 (concat ss)"
  by (induction ss) (simp_all add: valid_append)

lemma valid_lossy [text_intro]: "valid_utf8 (from_utf8_lossy s)"
proof -
  have "valid_utf8 (concat (map (\<lambda>(ok, c). if ok then c else replacement) (utf8_chunks s)))"
  proof (induction s rule: utf8_chunks.induct)
    case (2 b r)
    obtain ok n where st: "utf8_step b r = (ok, n)" by fastforce
    have "valid_utf8 (take n (b # r))" if ok
    proof -
      have "0 < n" using st by (rule utf8_step_pos)
      then have t: "take n (b # r) = b # take (n - 1) r" by (cases n) simp_all
      have "utf8_step b (take (n - 1) r) = (True, n)"
        using utf8_step_take [of b r n "[]"] st that by simp
      then show ?thesis unfolding t valid_utf8_Cons using \<open>0 < n\<close> by (intro exI [of _ n]) (cases n; simp)
    qed
    moreover have "valid_utf8 replacement" by code_simp
    ultimately show ?case using 2 [unfolded st snd_conv] st by (simp add: utf8_chunks.simps(2) valid_append)
  qed simp
  then show ?thesis by (simp add: from_utf8_lossy_def)
qed

lemma valid_ascii: "list_all is_ascii s \<Longrightarrow> valid_utf8 s"
  by (rule valid_utf8_ascii)

lemma valid_join [text_intro]:
  "valid_utf8 sep \<Longrightarrow> (\<And>s. s \<in> set ss \<Longrightarrow> valid_utf8 s) \<Longrightarrow> valid_utf8 (join sep ss)"
  by (induction sep ss rule: join.induct) (simp_all add: valid_append)

lemma white_space_text: "w \<in> set white_space \<Longrightarrow> valid_utf8 w \<and> w \<noteq> [] \<and> \<not> is_cont (hd w)"
proof -
  have "list_all (\<lambda>w. valid_utf8 w \<and> w \<noteq> [] \<and> \<not> is_cont (hd w)) white_space" by code_simp
  then show "w \<in> set white_space \<Longrightarrow> valid_utf8 w \<and> w \<noteq> [] \<and> \<not> is_cont (hd w)" by (auto simp: list_all_iff)
qed

lemma strip_head_cases: "strip_head W s = Some r \<Longrightarrow> \<exists>w \<in> set W. w \<noteq> [] \<and> s = w @ r"
  by (auto simp: strip_head_def strip_prefix_Some dest!: find_map_SomeD split: if_splits)

lemma trim_start_valid:
  "(\<And>w. w \<in> set W \<Longrightarrow> valid_utf8 w) \<Longrightarrow> valid_utf8 s \<Longrightarrow> valid_utf8 (trim_start_of W s)"
proof (induction W s rule: trim_start_of.induct)
  case (1 W s)
  show ?case
  proof (cases "strip_head W s")
    case None
    with 1 show ?thesis by (simp add: trim_start_of_id)
  next
    case (Some r)
    from strip_head_cases [OF Some] 1(2,3) have "valid_utf8 r" by (auto simp: valid_append)
    with 1(1) [OF Some 1(2)] Some show ?thesis by (subst trim_start_of.simps) simp
  qed
qed

lemma trim_end_valid:
  "(\<And>w. w \<in> set W \<Longrightarrow> w \<noteq> [] \<Longrightarrow> \<not> is_cont (last w)) \<Longrightarrow> valid_utf8 (rev s) \<Longrightarrow>
     valid_utf8 (rev (trim_start_of W s))"
proof (induction W s rule: trim_start_of.induct)
  case (1 W s)
  show ?case
  proof (cases "strip_head W s")
    case None
    with 1 show ?thesis by (simp add: trim_start_of_id)
  next
    case (Some r)
    from strip_head_cases [OF Some] obtain w where w: "w \<in> set W" "w \<noteq> []" "s = w @ r" by blast
    then have "rev s ! length r = last w" "length r < length (rev s)"
      by (simp_all add: nth_append hd_conv_nth [symmetric] hd_rev)
    with valid_utf8_take [OF 1(3), of "length r"] 1(2) [OF w(1,2)] have "valid_utf8 (take (length r) (rev s))" by simp
    then have "valid_utf8 (rev r)" using w(3) by simp
    with 1(1) [OF Some 1(2)] Some show ?thesis by (subst trim_start_of.simps) simp
  qed
qed

lemma valid_trim [text_intro]: "valid_utf8 s \<Longrightarrow> valid_utf8 (trim s)"
  unfolding trim_def
  by (rule trim_end_valid) (auto simp: last_rev white_space_text trim_start_valid)

lemma valid_suffix: "valid_utf8 s \<Longrightarrow> strip_prefix s p = Some r \<Longrightarrow> valid_utf8 p \<Longrightarrow> valid_utf8 r"
  by (auto simp: strip_prefix_Some valid_append)

lemma hex_ascii: "list_all is_ascii (hex_encode bs)"
proof -
  have "is_ascii (hex_digit n)" if "n < 16" for n
    using that by (simp add: hex_digit_def is_ascii_def)
  then show ?thesis by (induction bs) (simp_all add: hex_encode_def code_def div_less_iff_less_mult)
qed

lemma valid_hex [text_intro]: "valid_utf8 (hex_encode bs)" "valid_utf8 (take n (hex_encode bs))"
proof -
  show "valid_utf8 (hex_encode bs)" using hex_ascii by (rule valid_ascii)
  show "valid_utf8 (take n (hex_encode bs))"
    using hex_ascii [of bs] by (intro valid_ascii) (meson list_all_iff in_set_takeD)
qed

lemma valid_show_nat [text_intro]: "valid_utf8 (show_nat n)"
  using show_nat_digits [of n] by (intro valid_ascii) (auto simp: list_all_iff is_digit_def is_ascii_def)

section \<open>JSON values\<close>

text \<open>Every string of the value, keys included, is text.\<close>

inductive json_text :: "json \<Rightarrow> bool" where
  null: "json_text JNull"
| bool: "json_text (JBool b)"
| number: "json_text (JNumber n)"
| string: "valid_utf8 s \<Longrightarrow> json_text (JString s)"
| array: "(\<And>v. v \<in> set vs \<Longrightarrow> json_text v) \<Longrightarrow> json_text (JArray vs)"
| object: "(\<And>k v. (k, v) \<in> set m \<Longrightarrow> valid_utf8 k \<and> json_text v) \<Longrightarrow> json_text (JObject m)"

inductive_simps json_text_simps [simp]:
  "json_text JNull" "json_text (JBool b)" "json_text (JNumber n)" "json_text (JString s)"
  "json_text (JArray vs)" "json_text (JObject m)"

lemma json_text_get: "json_text v \<Longrightarrow> jget v k = Some w \<Longrightarrow> json_text w"
  by (cases v) (auto dest: map_of_SomeD)

lemma json_text_at [text_intro]: "json_text v \<Longrightarrow> json_text (jat v k)"
  using json_text_get [of v k] by (cases "jget v k") (simp_all add: jat_def unwrap_or_def)

lemma json_text_idx [text_intro]: "json_text v \<Longrightarrow> json_text (jat_idx v i)"
  by (cases v) (auto simp: jat_idx_def unwrap_or_def)

lemma json_text_get_idx: "json_text v \<Longrightarrow> jget_idx v i = Some w \<Longrightarrow> json_text w"
  by (cases v) (auto split: if_splits)

lemma json_text_str: "json_text v \<Longrightarrow> as_str v = Some s \<Longrightarrow> valid_utf8 s"
  by (cases v) auto

lemma json_text_elems: "json_text v \<Longrightarrow> as_array v = Some vs \<Longrightarrow> w \<in> set vs \<Longrightarrow> json_text w"
  by (cases v) auto

lemma valid_str_or_empty [text_intro]: "json_text v \<Longrightarrow> valid_utf8 (str_or_empty v)"
  by (cases v) auto

lemma json_text_resolve [text_intro]: "json_text v \<Longrightarrow> json_text (resolve_path v path)"
proof (induction path arbitrary: v)
  case (Cons k path)
  have "json_text (resolve_step v k)"
  proof (cases v)
    case (JArray vs)
    with Cons.prems show ?thesis
      by (auto simp: resolve_step_def unwrap_or_def split: option.split bind_splits)
  next
    case (JObject m)
    with Cons.prems show ?thesis by (auto simp: unwrap_or_def split: option.split dest: map_of_SomeD)
  qed simp_all
  with Cons.IH show ?case by simp
qed simp

lemma json_text_read: "json_text v \<Longrightarrow> read_path v path = Some s \<Longrightarrow> valid_utf8 s"
  by (induction v path rule: read_path.induct) (auto simp: bind_eq_Some_conv json_text_str dest: json_text_get)

section \<open>The readers of the protocol tables\<close>

abbreviation opt_text :: "string option \<Rightarrow> bool" where
  "opt_text \<equiv> pred_option valid_utf8"

definition call_text :: "tool_call \<Rightarrow> bool" where
  "call_text c \<longleftrightarrow> valid_utf8 (tc_name c) \<and> valid_utf8 (tc_arguments c)"

lemma opt_text_iff: "opt_text x \<longleftrightarrow> (\<forall>s. x = Some s \<longrightarrow> valid_utf8 s)"
  by (cases x) simp_all

lemma opt_text_unwrap [text_intro]: "opt_text x \<Longrightarrow> valid_utf8 (unwrap_or [] x)"
  by (cases x) (simp_all add: unwrap_or_def)

lemma opt_text_or_else [text_intro]: "opt_text x \<Longrightarrow> opt_text y \<Longrightarrow> opt_text (or_else x y)"
  by (cases x) (simp_all add: or_else_def)

lemma opt_text_filter [text_intro]: "opt_text x \<Longrightarrow> opt_text (opt_filter p x)"
  by (cases x) (auto simp: opt_filter_def)

lemma opt_text_str [text_intro]: "json_text v \<Longrightarrow> opt_text (as_str v)"
  by (cases v) auto

lemma opt_text_bind [text_intro]: "(\<And>y. x = Some y \<Longrightarrow> opt_text (f y)) \<Longrightarrow> opt_text (Option.bind x f)"
  by (cases x) simp_all

lemma opt_text_map_trim [text_intro]: "opt_text x \<Longrightarrow> opt_text (map_option trim x)"
  by (cases x) (simp_all add: valid_trim)

lemma opt_text_find_map: "(\<And>x. x \<in> set xs \<Longrightarrow> opt_text (f x)) \<Longrightarrow> opt_text (find_map f xs)"
  by (auto simp: opt_text_iff dest: find_map_SomeD)

lemma newline_text [text_intro]: "valid_utf8 newline"
  by code_simp

lemma map_filter_text: "(\<And>b. b \<in> set bs \<Longrightarrow> opt_text (f b)) \<Longrightarrow> s \<in> set (List.map_filter f bs) \<Longrightarrow> valid_utf8 s"
  by (force simp: List.map_filter_def opt_text_iff)

lemma content_text_text [text_intro]: "json_text v \<Longrightarrow> opt_text (content_text v)"
proof (cases "as_array v")
  case (Some bs)
  assume v: "json_text v"
  have "valid_utf8 s" if "s \<in> set (text_blocks bs)" for s
    using that unfolding text_blocks_def
    by (rule map_filter_text [rotated]) (intro opt_text_str json_text_at json_text_elems [OF v Some])
  then have "valid_utf8 (join newline (text_blocks bs))" by (intro text_intro)
  with v Some show ?thesis by (auto simp: content_text_def Let_def opt_filter_def json_text_str split: option.split)
qed (auto simp: content_text_def opt_filter_def json_text_str split: option.split)

lemma find_in_set: "List.find p xs = Some w \<Longrightarrow> w \<in> set xs"
  by (induction xs) (auto split: if_splits)

lemma find_text: "json_text v \<Longrightarrow> as_array v = Some vs \<Longrightarrow> List.find p (rev vs) = Some w \<Longrightarrow> json_text w"
  using find_in_set [of p "rev vs" w] by (auto intro: json_text_elems)

lemma typed_text_text:
  "(\<And>b. b \<in> set bs \<Longrightarrow> json_text b) \<Longrightarrow> s \<in> set (typed_text ty bs) \<Longrightarrow> valid_utf8 s"
  unfolding typed_text_def
  by (erule map_filter_text [rotated]) (auto intro: opt_text_str json_text_at)

lemma responses_user_input_text [text_intro]: "json_text v \<Longrightarrow> opt_text (responses_user_input v)"
proof (cases "as_str v")
  case None
  assume v: "json_text v"
  have "opt_text (case as_str (jat u ''content'') of Some s \<Rightarrow> opt_filter (\<lambda>s. s \<noteq> []) (Some s)
      | None \<Rightarrow> Option.bind (as_array (jat u ''content'')) (\<lambda>blocks.
          let out = typed_text ''input_text'' blocks in if out = [] then None else Some (join newline out)))"
    if u: "json_text u" for u
  proof (cases "as_str (jat u ''content'')")
    case None
    have "valid_utf8 (join newline (typed_text ''input_text'' bs))" if "as_array (jat u ''content'') = Some bs" for bs
      using json_text_elems [OF json_text_at [OF u] that] by (intro text_intro) (auto intro: typed_text_text)
    with None show ?thesis by (auto simp: opt_text_iff bind_eq_Some_conv Let_def split: if_splits)
  qed (use u in \<open>auto intro: text_intro simp: opt_filter_def json_text_str [OF json_text_at]\<close>)
  with None v show ?thesis
    unfolding responses_user_input_def responses_user_item_def
    by (auto intro!: opt_text_bind dest: find_text)
qed (auto simp: responses_user_input_def opt_filter_def json_text_str)

lemma responses_final_output_text [text_intro]: "json_text v \<Longrightarrow> opt_text (responses_final_output v)"
proof -
  assume v: "json_text v"
  have "valid_utf8 s" if items: "as_array (jat v ''output'') = Some items"
    and s: "s \<in> set (concat (map (\<lambda>item. case as_array (jat item ''content'') of
               Some blocks \<Rightarrow> typed_text ''output_text'' blocks | None \<Rightarrow> []) items))" for items s
  proof -
    from s obtain item where item: "item \<in> set items" and s: "s \<in> set (case as_array (jat item ''content'') of
        Some blocks \<Rightarrow> typed_text ''output_text'' blocks | None \<Rightarrow> [])"
      unfolding set_concat set_map by blast
    note it = json_text_at [OF json_text_elems [OF json_text_at [OF v] items item]]
    show ?thesis
    proof (cases "as_array (jat item ''content'')")
      case (Some bs)
      with s have "s \<in> set (typed_text ''output_text'' bs)" by simp
      then show ?thesis using typed_text_text json_text_elems [OF it Some] by blast
    qed (use s in simp)
  qed
  then show ?thesis
    unfolding responses_final_output_def by (auto simp: Let_def intro!: opt_text_bind text_intro)
qed

lemma str_text: "json_text v \<Longrightarrow> as_str (jat v k) = Some s \<Longrightarrow> valid_utf8 s"
  by (blast intro: json_text_str json_text_at)

lemma valid_case_name [text_intro]: "json_text v \<Longrightarrow> valid_utf8 (unwrap_or [] (or_else (as_str (jat v k)) (as_str (jat v l))))"
  by (intro text_intro)

text \<open>What is assumed of \<open>serde_json\<close>: its values hold Rust strings, and its printer writes one.\<close>

definition text_codec :: "(string \<Rightarrow> json option) \<Rightarrow> (json \<Rightarrow> string) \<Rightarrow> bool" where
  "text_codec parse render \<longleftrightarrow>
     (\<forall>s v. parse s = Some v \<longrightarrow> json_text v) \<and> (\<forall>v. json_text v \<longrightarrow> valid_utf8 (render v))"

lemma codec_parse: "text_codec parse render \<Longrightarrow> parse s = Some v \<Longrightarrow> json_text v"
  by (simp add: text_codec_def)

lemma codec_render [text_intro]: "text_codec parse render \<Longrightarrow> json_text v \<Longrightarrow> valid_utf8 (render v)"
  by (simp add: text_codec_def)

lemma anthropic_tools_text:
  assumes "text_codec parse render" "json_text v" "c \<in> set (anthropic_nonstreaming_tools render v)"
  shows "call_text c"
proof (cases "as_array (jat v ''content'')")
  case (Some bs)
  with assms(3) obtain b where b: "b \<in> set bs"
    and c: "c = \<lparr>tc_name = str_or_empty (jat b ''name''),
      tc_arguments = (case jat b ''input'' of JString s \<Rightarrow> s | v \<Rightarrow> render v)\<rparr>"
    unfolding anthropic_nonstreaming_tools_def by (simp only: option.case) (auto simp only: set_map set_filter)
  from json_text_elems [OF json_text_at [OF assms(2)] Some b]
  have t: "json_text (jat b k)" for k by (rule json_text_at)
  from t [of "''input''"] codec_render [OF assms(1) t [of "''input''"]]
  have "valid_utf8 (case jat b ''input'' of JString s \<Rightarrow> s | v \<Rightarrow> render v)"
    by (cases "jat b ''input''") simp_all
  then show ?thesis by (simp add: call_text_def c valid_str_or_empty t)
qed (use assms(3) in \<open>simp add: anthropic_nonstreaming_tools_def\<close>)

lemma responses_tools_text:
  assumes "json_text v" "c \<in> set (responses_nonstreaming_tools v)"
  shows "call_text c"
proof (cases "as_array (jat v ''output'')")
  case (Some bs)
  with assms(2) obtain b where b: "b \<in> set bs"
    and c: "c = \<lparr>tc_name = str_or_empty (jat b ''name''),
      tc_arguments = unwrap_or [] (or_else (as_str (jat b ''arguments'')) (as_str (jat b ''input'')))\<rparr>"
    unfolding responses_nonstreaming_tools_def by (simp only: option.case) (auto simp only: set_map set_filter)
  have t: "json_text b" by (rule json_text_elems [OF json_text_at [OF assms(1)] Some b])
  show ?thesis by (simp add: call_text_def c valid_case_name t valid_str_or_empty json_text_at)
qed (use assms(2) in \<open>simp add: responses_nonstreaming_tools_def\<close>)

lemma opt_text_get_str: "json_text v \<Longrightarrow> opt_text (Option.bind (jget v k) as_str)"
  by (auto simp: opt_text_iff bind_eq_Some_conv intro: json_text_str json_text_get)

lemma chat_tools_text:
  assumes "json_text v" "c \<in> set (chat_nonstreaming_tools v)"
  shows "call_text c"
proof -
  let ?calls = "Option.bind (Option.bind (Option.bind (Option.bind (jget v ''choices'')
              (\<lambda>c. jget_idx c 0)) (\<lambda>c. jget c ''message'')) (\<lambda>m. jget m ''tool_calls'')) as_array"
  show ?thesis
  proof (cases ?calls)
    case (Some cs)
    then have elems: "b \<in> set cs \<Longrightarrow> json_text b" for b
      unfolding bind_eq_Some_conv
      by (metis assms(1) json_text_get json_text_get_idx json_text_elems)
    from Some assms(2) obtain b where b: "b \<in> set cs"
      and c: "c = (let f = jget b ''function'' in
          \<lparr>tc_name = unwrap_or [] (Option.bind (Option.bind f (\<lambda>f. jget f ''name'')) as_str),
           tc_arguments = unwrap_or [] (Option.bind (Option.bind f (\<lambda>f. jget f ''arguments'')) as_str)\<rparr>)"
      unfolding chat_nonstreaming_tools_def by (simp only: option.case) (auto simp only: set_map)
    have "opt_text (Option.bind (Option.bind (jget b ''function'') (\<lambda>f. jget f k)) as_str)" for k
      by (cases "jget b ''function''")
        (simp_all add: opt_text_get_str [OF json_text_get [OF elems [OF b]]])
    then show ?thesis by (simp only: call_text_def c Let_def tool_call.simps opt_text_unwrap)
  qed (use assms(2) in \<open>simp only: chat_nonstreaming_tools_def option.case list.set empty_iff\<close>)
qed

section \<open>The engine\<close>

definition accum_text :: "sse_accum \<Rightarrow> bool" where
  "accum_text a \<longleftrightarrow> valid_utf8 (sa_text a) \<and> opt_text (sa_error a) \<and> list_all call_text (sa_tools a)
     \<and> pred_option (call_text \<circ> snd) (sa_pending a) \<and> list_all (call_text \<circ> snd) (sa_chat_tools a)"

definition outcome_text :: "sse_outcome \<Rightarrow> bool" where
  "outcome_text out \<longleftrightarrow> valid_utf8 (so_text out) \<and> opt_text (so_error out) \<and> list_all call_text (so_tools out)"

lemma empty_call_text: "call_text \<lparr>tc_name = [], tc_arguments = []\<rparr>"
  by (simp add: call_text_def)

lemma extend_call_text: "json_text tc \<Longrightarrow> call_text c \<Longrightarrow> call_text (extend_call tc c)"
  by (auto simp: extend_call_def Let_def call_text_def intro!: valid_appendI intro: str_text json_text_at
      split: option.split)

lemma update_call_text:
  "json_text tc \<Longrightarrow> list_all (call_text \<circ> snd) calls \<Longrightarrow> list_all (call_text \<circ> snd) (update_call i tc calls)"
  by (induction i tc calls rule: update_call.induct) (auto intro!: extend_call_text simp: empty_call_text)

lemma chunk_calls_text:
  "(\<And>v. v \<in> set vs \<Longrightarrow> json_text v) \<Longrightarrow> list_all (call_text \<circ> snd) calls \<Longrightarrow>
     list_all (call_text \<circ> snd) (foldl chunk_call calls vs)"
  by (induction vs arbitrary: calls) (simp_all add: chunk_call_def update_call_text)

lemma apply_action_text: "json_text v \<Longrightarrow> accum_text a \<Longrightarrow> accum_text (apply_action act v a)"
proof (induction act v a rule: apply_action.induct)
  case (1 path v acc)
  then show ?case
    by (auto simp: accum_text_def valid_append intro: json_text_str json_text_resolve split: option.split)
next
  case (2 v acc)
  then show ?case
    by (auto simp: accum_text_def Let_def call_text_def intro!: valid_str_or_empty json_text_at split: option.splits)
next
  case (3 v acc)
  then show ?case
    by (auto simp: accum_text_def call_text_def valid_append dest: str_text [OF json_text_at] split: option.splits)
next
  case (4 v acc)
  then show ?case by (auto simp: accum_text_def split: option.splits)
next
  case (5 v acc)
  then show ?case
    by (auto simp: accum_text_def Let_def call_text_def
        intro!: valid_str_or_empty json_text_at valid_case_name)
next
  case (6 v acc)
  then show ?case
    by (auto simp: accum_text_def intro!: chunk_calls_text split: option.split
        dest!: json_text_elems [OF json_text_at [OF json_text_at [OF json_text_idx [OF json_text_at]]], rotated])
qed

lemma apply_sse_rule_text: "json_text v \<Longrightarrow> accum_text a \<Longrightarrow> accum_text (apply_sse_rule d ev v a)"
proof -
  have "accum_text (foldl (\<lambda>acc rule. if matches_rule rule ev v then apply_action (action rule) v acc else acc) a rs)"
    if "json_text v" "accum_text a" for rs
    using that by (induction rs arbitrary: a) (simp_all add: apply_action_text)
  then show "json_text v \<Longrightarrow> accum_text a \<Longrightarrow> ?thesis" by (simp add: apply_sse_rule_def)
qed

lemma error_marker_text:
  "text_codec parse render \<Longrightarrow> json_text v \<Longrightarrow> opt_text (error_marker render nm v)"
  by (auto simp: error_marker_def intro!: codec_render json_text_at)

lemma feed_frame_text:
  assumes "text_codec parse render" "accum_text a"
  shows "accum_text (feed_frame parse render d data a)"
proof (cases "furniture data \<or> parse data = None")
  case True
  with assms(2) show ?thesis by (auto simp: feed_frame_def accum_text_def)
next
  case False
  then obtain v where "parse data = Some v" by auto
  moreover from codec_parse [OF assms(1) this] have v: "json_text v" .
  moreover have "accum_text (case error_marker render (d_name d) v of Some e \<Rightarrow> a\<lparr>sa_error := Some e\<rparr> | None \<Rightarrow> a)"
    using assms(2) error_marker_text [OF assms(1) v, of "d_name d"]
    by (auto simp: accum_text_def split: option.split)
  from apply_sse_rule_text [OF v this] have
    "accum_text (apply_sse_rule d (as_str (jat v ''type'')) v
       (case error_marker render (d_name d) v of Some e \<Rightarrow> a\<lparr>sa_error := Some e\<rparr> | None \<Rightarrow> a))" .
  ultimately show ?thesis
    using False by (auto simp: feed_frame_def Let_def accum_text_def split: option.split)
qed

lemma fold_frames_text:
  "text_codec parse render \<Longrightarrow> accum_text a \<Longrightarrow> accum_text (fold (feed_frame parse render d) fs a)"
  by (induction fs arbitrary: a) (simp_all add: feed_frame_text)

lemma empty_accum_text: "accum_text empty_accum"
  by (simp add: accum_text_def empty_accum_def)

lemma finish_accum_text: "accum_text a \<Longrightarrow> outcome_text (finish_accum a d)"
  by (cases "sa_pending a")
    (auto simp: finish_accum_def accum_text_def outcome_text_def Let_def list_all_iff)

lemma stream_response_text:
  "text_codec parse render \<Longrightarrow> outcome_text (stream_response parse render d body)"
  unfolding stream_response_def by (intro finish_accum_text fold_frames_text empty_accum_text)

lemma drain_feed_text:
  "text_codec parse render \<Longrightarrow> accum_text (fst st) \<Longrightarrow> accum_text (fst (drain_feed parse render d b st))"
  by (auto simp: drain_feed_def Let_def fold_frames_text split: prod.split option.split)

lemma drain_finish_text:
  "text_codec parse render \<Longrightarrow> accum_text (fst st) \<Longrightarrow> outcome_text (drain_finish parse render d st)"
  by (auto simp: drain_finish_def split_beta finish_accum_text fold_frames_text)

section \<open>The facts of a turn\<close>

lemma descriptor_readers:
  assumes "d \<in> set (DESCRIPTORS render)"
  shows "user_input_fn d = None \<or> user_input_fn d = Some responses_user_input"
    and "final_output_fn d = None \<or> final_output_fn d = Some responses_final_output"
    and "nonstreaming_tools d \<in> {None, Some (anthropic_nonstreaming_tools render),
           Some responses_nonstreaming_tools, Some chat_nonstreaming_tools}"
  using assms
  by (auto simp: DESCRIPTORS_def anthropic_descriptor_def responses_descriptor_def
      chat_descriptor_def live_descriptor_def)

lemma user_input_text:
  assumes "d \<in> set (DESCRIPTORS render)" "json_text v"
  shows "opt_text (user_input_of d v)"
proof (cases "in_shape d")
  case ShapeMessages
  with assms(2) show ?thesis
    by (auto simp: user_input_of_def find_user_message_def
        intro!: opt_text_bind content_text_text json_text_at dest: find_text [OF json_text_at])
next
  case ShapeResponses
  with descriptor_readers(1) [OF assms(1)] responses_user_input_text [OF json_text_at [OF assms(2)]]
  show ?thesis by (auto simp: user_input_of_def)
qed

lemma final_output_text:
  "d \<in> set (DESCRIPTORS render) \<Longrightarrow> json_text v \<Longrightarrow> opt_text (final_output_of d v)"
  using descriptor_readers(2) [of d render]
  by (auto simp: final_output_of_def responses_final_output_text content_text_text json_text_resolve)

lemma nonstreaming_tools_text:
  "text_codec parse render \<Longrightarrow> d \<in> set (DESCRIPTORS render) \<Longrightarrow> json_text v \<Longrightarrow>
     list_all call_text (case nonstreaming_tools d of Some f \<Rightarrow> f v | None \<Rightarrow> [])"
  using descriptor_readers(3) [of d render]
  by (auto simp: list_all_iff anthropic_tools_text responses_tools_text chat_tools_text)

lemma end_user_text: "json_text v \<Longrightarrow> opt_text (end_user d v)"
  unfolding end_user_def
  by (intro opt_text_find_map opt_text_map_trim opt_text_filter)
    (unfold opt_text_iff, blast intro: json_text_read)

lemma pck_text: "valid_utf8 y \<Longrightarrow> opt_text (pck_namespace y)"
proof -
  have "valid_utf8 ''pck:''" by code_simp
  then show "valid_utf8 y \<Longrightarrow> ?thesis" by (simp only: pck_namespace_def option.pred_inject valid_append)
qed

lemma read_source_text:
  assumes "d \<in> set (DESCRIPTORS render)" "src \<in> set (body_sources d)" "json_text v"
  shows "opt_text (read_source v src)"
proof -
  have "opt_text (if two_form src then or_else (as_str (resolve_path v (src_path src)))
      (as_str (jat (resolve_path v (src_path src)) ''id'')) else as_str (resolve_path v (src_path src)))"
    using assms(3) by (auto intro!: opt_text_or_else opt_text_str json_text_at json_text_resolve)
  then have raw: "opt_text (opt_filter (\<lambda>s. s \<noteq> []) (map_option trim (if two_form src
      then or_else (as_str (resolve_path v (src_path src))) (as_str (jat (resolve_path v (src_path src)) ''id''))
      else as_str (resolve_path v (src_path src)))))"
    by (intro opt_text_filter opt_text_map_trim)
  from raw body_source_transforms [OF assms(1,2)] show ?thesis
    unfolding read_source_def Let_def
    by (intro opt_text_bind) (auto simp: opt_text_iff [of "opt_filter p x" for p x] pck_text simp del: opt_filter_eq_Some)
qed

lemma body_session_text:
  assumes "d \<in> set (DESCRIPTORS render)" "json_text v" "session_from_body_with_source d v = Some (sid, p)"
  shows "valid_utf8 sid"
proof -
  from session_from_body_Some [OF assms(3)] obtain src
    where "src \<in> set (body_sources d)" "read_source v src = Some sid" by (metis in_set_conv_decomp)
  with read_source_text [OF assms(1) _ assms(2)] show ?thesis by (metis option.pred_inject(2))
qed

section \<open>The Claude Code session shapes\<close>

lemma in_class_ascii: "in_class dash c \<Longrightarrow> is_ascii c"
  by (auto simp: in_class_def is_hex_def is_digit_def is_ascii_def code_def)

lemma lower_ascii: "is_ascii c \<Longrightarrow> is_ascii (to_lower c)"
  by (auto simp: to_lower_def is_ascii_def code_char_of_mod)

lemma legacy_parts_text:
  assumes "claude_code_legacy_parts s = Some (sid, acct)"
  shows "valid_utf8 sid" "opt_text acct"
proof -
  from assms obtain h a u where s: "s = ''user_'' @ h @ ''_account_'' @ a @ ''_session_'' @ u"
    and cl: "list_all (in_class False) h" "length h = 64" "list_all (in_class True) a"
    "list_all (in_class True) u" "length u = 36" "CHR ''-'' \<in> set u"
    by (rule legacy_parts_SomeD)
  have "(sid, acct) = (ascii_lower u, if a = [] then None else Some a)"
    using assms unfolding s legacy_shape [OF cl] by (simp only: option.inject)
  moreover have "list_all is_ascii a" "list_all is_ascii (ascii_lower u)"
    using cl(3,4) by (auto simp: list_all_iff ascii_lower_def intro: in_class_ascii lower_ascii)
  ultimately show "valid_utf8 sid" "opt_text acct" by (auto intro: valid_ascii)
qed

lemma envelope_text: "json_text v \<Longrightarrow> opt_text (envelope_session v)"
  unfolding envelope_session_def by (intro opt_text_filter opt_text_map_trim opt_text_get_str)

lemma metadata_session_text:
  assumes "text_codec parse render" "json_text v"
  shows "opt_text (metadata_user_id_session parse v)"
proof (cases v)
  case (JString s)
  have "opt_text (Option.bind (parse s) envelope_session)"
    by (intro opt_text_bind envelope_text codec_parse [OF assms(1)])
  moreover have "opt_text (claude_code_legacy_user_id_session s)"
    by (cases "claude_code_legacy_parts s")
      (auto simp: claude_code_legacy_user_id_session_def dest: legacy_parts_text)
  ultimately show ?thesis
    by (cases "Option.bind (parse s) envelope_session") (simp_all add: metadata_user_id_session_def JString)
qed (use assms(2) envelope_text in \<open>auto simp: metadata_user_id_session_def\<close>)

lemma reparsed_text:
  "text_codec parse render \<Longrightarrow> valid_utf8 s \<Longrightarrow> json_text (unwrap_or (JString s) (parse s))"
  by (cases "parse s") (auto dest: codec_parse)

lemma dialect_session_text:
  assumes c: "text_codec parse render" and v: "json_text v"
  shows "opt_text (dialect_session parse v)"
proof -
  have 1: "opt_text (Option.bind (as_str (meta_user_id v))
      (\<lambda>raw. metadata_user_id_session parse (unwrap_or (JString raw) (parse raw))))"
    by (intro opt_text_bind metadata_session_text [OF c] reparsed_text [OF c] str_text [OF json_text_at [OF v]])
  have 2: "opt_text (metadata_envelope_transform parse s)" for s
    unfolding metadata_envelope_transform_def
    by (intro opt_text_bind metadata_session_text [OF c] reparsed_text [OF c])
      (meson c codec_parse json_text_get json_text_str)
  have 3: "opt_text (opt_filter (\<lambda>s. s \<noteq> []) (Option.bind (Option.bind (as_object (meta_user_id v))
      (\<lambda>m. map_of m ''session_id'')) as_str))"
    using json_text_at [OF json_text_at [OF v], of "''metadata''" "''user_id''"]
    by (cases "meta_user_id v")
      (auto simp: opt_text_iff bind_eq_Some_conv, meson json_text_str map_of_SomeD)
  from 1 2 3 show ?thesis
    unfolding dialect_session_def
    by (auto simp only: option.pred_inject simp_thms split: option.split)
qed

lemma harness_body_text:
  "text_codec parse render \<Longrightarrow> json_text v \<Longrightarrow> opt_text (h_session_from_body parse facts v)"
  by (auto simp: h_session_from_body_def DIALECTS_def claude_code_dialect_def intro: dialect_session_text)

text \<open>A header lookup answers text when \<open>to_str\<close> does.\<close>

lemma header_session_text:
  "(\<And>n. opt_text (get n)) \<Longrightarrow> session_from_headers_with_source d get = Some (sid, nm) \<Longrightarrow> valid_utf8 sid"
  using session_from_headers_Some [of d get sid nm] by (metis opt_text_iff valid_trim)

lemma harness_header_text:
  "(\<And>n. opt_text (get n)) \<Longrightarrow> h_session_from_headers_with_source facts get = Some (sid, nm) \<Longrightarrow> valid_utf8 sid"
  unfolding h_session_from_headers_with_source_def opt_text_iff
  by (fastforce simp: bind_eq_Some_conv intro: valid_trim dest!: find_map_SomeD)

lemma mount_names:
  "d \<in> set (DESCRIPTORS render) \<Longrightarrow> list_all valid_utf8 (header_sources d)"
  "find_harness nm = Some h \<Longrightarrow> list_all valid_utf8 (session_header_mounts h)"
proof -
  have "list_all valid_utf8 [HDR_SESSION_ID, HDR_SESSION_ID_ALT, HDR_CC_SESSION, HDR_GROK_CONV, HDR_SESSION,
      HDR_SESSION_AFFINITY, HDR_OPENCODE_SESSION, HDR_CONVERSATION_ID]" by code_simp
  then show "d \<in> set (DESCRIPTORS render) \<Longrightarrow> list_all valid_utf8 (header_sources d)"
    by (auto simp: DESCRIPTORS_def anthropic_descriptor_def responses_descriptor_def chat_descriptor_def
        live_descriptor_def)
  from \<open>list_all valid_utf8 [HDR_SESSION_ID, _, _, _, _, _, _, _]\<close>
  have m: "h \<in> set HARNESSES \<Longrightarrow> list_all valid_utf8 (session_header_mounts h)"
    by (auto simp: HARNESSES_def claude_code_harness_def codex_harness_def
        grok_harness_def opencode_harness_def omp_harness_def)
  then show "find_harness nm = Some h \<Longrightarrow> list_all valid_utf8 (session_header_mounts h)"
    unfolding find_harness_def by (blast dest: find_in_set)
qed

lemma source_paths:
  assumes "d \<in> set (DESCRIPTORS render)" "src \<in> set (body_sources d)"
  shows "valid_utf8 (''body:'' @ join ''.'' (src_path src))"
proof -
  have "list_all (\<lambda>src. valid_utf8 (''body:'' @ join ''.'' (src_path src)))
      (body_sources responses_descriptor @ body_sources chat_descriptor @ body_sources live_descriptor)"
    by code_simp
  moreover have "body_sources (anthropic_descriptor render) =
      [plain_source [''session_id''], plain_source [''metadata'', ''session_id'']]"
    by (simp add: anthropic_descriptor_def)
  moreover have "list_all (\<lambda>src. valid_utf8 (''body:'' @ join ''.'' (src_path src)))
      [plain_source [''session_id''], plain_source [''metadata'', ''session_id'']]"
    by code_simp
  ultimately show ?thesis
    using assms unfolding DESCRIPTORS_def list_all_iff set_append by auto
qed

end
