(* ===== verification/Turn_Text.thy ===== *)
theory Turn_Text
  imports Text System_Props
begin

text \<open>
  Text in, text out, continued: the facts of a turn, the record that \<open>logging\<close> files and the record of
  a WebSocket turn hold valid UTF-8 only, and every hook keeps the text of the request's context.
\<close>

section \<open>The facts of a turn\<close>

definition env_text :: "env \<Rightarrow> bool" where
  "env_text env \<longleftrightarrow> text_codec (env_parse env) (env_render env)
     \<and> (\<forall>b. opt_text (env_to_str env b))"

definition facts_text :: "turn_facts \<Rightarrow> bool" where
  "facts_text tf \<longleftrightarrow> opt_text (tf_session_id tf) \<and> valid_utf8 (tf_session_source tf)
     \<and> valid_utf8 (tf_user_input tf) \<and> valid_utf8 (tf_model_name tf) \<and> valid_utf8 (tf_user_id tf)"

lemma env_codec: "env_text env \<Longrightarrow> text_codec (env_parse env) (env_render env)"
  by (simp add: env_text_def)

lemma header_get_text: "env_text env \<Longrightarrow> opt_text (header_get env rq n)"
  by (auto simp: env_text_def header_get_def intro: opt_text_bind)

lemma literal_text:
  "valid_utf8 ''body:harness''" "valid_utf8 ''header:''" "valid_utf8 ''harness-header:''"
  "valid_utf8 ''-compatible''" "valid_utf8 ''proxy_error: ''" "valid_utf8 ''http_status: ''"
  "valid_utf8 ''stitcher''" "valid_utf8 ''body:client_metadata.session_id''" "valid_utf8 ''claude-code''"
  "valid_utf8 ''connect: ''" "valid_utf8 ''response head: ''" "valid_utf8 ''proxy_error: upstream read: ''"
  "valid_utf8 FINGERPRINT_KIND" "valid_utf8 '':''" "valid_utf8 ''openai.live''"
  by code_simp+

lemma descriptor_name_text: "d \<in> set (DESCRIPTORS render) \<Longrightarrow> valid_utf8 (d_name d)"
proof -
  have "list_all valid_utf8 [''anthropic.messages'', ''openai.responses'', ''openai.chat_completions'', ''openai.live'']"
    by code_simp
  then show "d \<in> set (DESCRIPTORS render) \<Longrightarrow> ?thesis" by (auto simp: DESCRIPTORS_def)
qed

lemma facts_session_text:
  assumes c: "text_codec parse render" and d: "d \<in> set (DESCRIPTORS render)" and v: "json_text v"
    and get: "\<And>n. opt_text (get n)"
  shows "opt_text (fst (facts_session parse d v get facts)) \<and> valid_utf8 (snd (facts_session parse d v get facts))"
proof -
  have 1: "valid_utf8 sid \<and> valid_utf8 (''body:'' @ join ''.'' p)"
    if "session_from_body_with_source d v = Some (sid, p)" for sid p
  proof -
    from session_from_body_Some [OF that] obtain src where "src \<in> set (body_sources d)" "src_path src = p"
      by (metis in_set_conv_decomp)
    with source_paths [OF d] body_session_text [OF d v that] show ?thesis by metis
  qed
  have 2: "valid_utf8 sid" if "h_session_from_body parse facts v = Some sid" for sid
    using harness_body_text [OF c v, of facts] that by simp
  have 3: "valid_utf8 sid \<and> valid_utf8 (''header:'' @ nm)"
    if "session_from_headers_with_source d get = Some (sid, nm)" for sid nm
    using header_session_text [OF get that] session_from_headers_Some [OF that] mount_names(1) [OF d]
      valid_appendI [OF literal_text(2)] by (auto simp: list_all_iff)
  have 4: "valid_utf8 sid \<and> valid_utf8 (''harness-header:'' @ nm)"
    if "h_session_from_headers_with_source facts get = Some (sid, nm)" for sid nm
  proof -
    from that obtain h where "find_harness (the (hf_identity facts)) = Some h" "nm \<in> set (session_header_mounts h)"
      by (auto simp: h_session_from_headers_with_source_def bind_eq_Some_conv dest!: find_map_SomeD)
    with mount_names(2) have "valid_utf8 nm" by (fastforce simp: list_all_iff)
    with harness_header_text [OF get that] valid_appendI [OF literal_text(3)] show ?thesis by simp
  qed
  show ?thesis
    unfolding facts_session_def
    by (auto simp only: option.pred_inject fst_conv snd_conv valid_utf8_Nil literal_text(1) simp_thms
        dest: 1 2 3 4 split: option.splits prod.splits)
qed

lemma turn_facts_text:
  assumes c: "text_codec parse render" and v: "json_text v" and get: "\<And>n. opt_text (get n)"
    and tf: "turn_facts_of parse render proto v get facts = Some tf"
  shows "facts_text tf"
proof -
  from tf obtain d where d: "detect_by_name render proto = Some d"
    and t: "tf = (let (sid, source) = facts_session parse d v get facts
        in \<lparr>tf_session_id = sid, tf_session_source = source,
            tf_user_input = unwrap_or [] (user_input_of d v), tf_model_name = str_or_empty (jat v ''model''),
            tf_user_id = unwrap_or [] (end_user d v), tf_messages = extract_messages v,
            tf_stitch_eligible = stitch_eligible d\<rparr>)"
    by (auto simp: turn_facts_of_def)
  note dd = conjunct1 [OF detect_by_name_known [OF d]]
  from facts_session_text [OF c dd v get, where facts = facts] show ?thesis
    by (auto simp: t facts_text_def Let_def split_beta opt_text_unwrap user_input_text [OF dd v]
        end_user_text [OF v] valid_str_or_empty json_text_at v)
qed

section \<open>The harness\<close>

lemma harness_names_text: "h \<in> set HARNESSES \<Longrightarrow> valid_utf8 (h_name h)"
proof -
  have "list_all (\<lambda>h. valid_utf8 (h_name h)) HARNESSES"
    unfolding HARNESSES_def by (simp add: harness_names) code_simp
  then show "h \<in> set HARNESSES \<Longrightarrow> ?thesis" by (simp add: list_all_iff)
qed

definition harness_text :: "harness_facts \<Rightarrow> bool" where
  "harness_text f \<longleftrightarrow> opt_text (hf_identity f) \<and> valid_utf8 (hf_dialect f) \<and> list_all valid_utf8 (hf_candidates f)"

lemma identity_hits_text: "(n, s) \<in> set (identity_hits req ua hg) \<Longrightarrow> valid_utf8 n"
  by (auto simp: identity_hits_def List.map_filter_def intro: harness_names_text)

lemma detect_dialect_text: "valid_utf8 (detect_dialect parse req hg)"
  by (simp add: detect_dialect_def DIALECTS_def claude_code_dialect_def literal_text unwrap_or_def)

lemma identify_text: "harness_text (identify parse proto req ua hg)"
proof -
  have c: "list_all valid_utf8 (map fst (filter (\<lambda>h. snd h = top) (identity_hits req ua hg)))" for top
    by (auto simp: list_all_iff intro: identity_hits_text)
  have w: "list_all valid_utf8 xs \<Longrightarrow> valid_utf8 (case xs of [] \<Rightarrow> [] | w # _ \<Rightarrow> w)" for xs :: "string list"
    by (cases xs) simp_all
  show ?thesis
    by (simp add: identify_def Let_def harness_text_def detect_dialect_text c w [OF c])
qed

lemma harness_label_text: "harness_text f \<Longrightarrow> valid_utf8 (harness_label f)"
  by (auto simp: harness_label_def harness_text_def intro: valid_appendI literal_text split: option.split)

definition pairs_text :: "(string \<times> string) list \<Rightarrow> bool" where
  "pairs_text ps \<longleftrightarrow> (\<forall>(k, v) \<in> set ps. valid_utf8 k \<and> valid_utf8 v)"

lemma enricher_text:
  assumes "json_text v" "h \<in> set HARNESSES" "(k, f) \<in> set (enrichers h)"
  shows "valid_utf8 k \<and> opt_text (f v)"
proof -
  have k: "valid_utf8 ''cc_account''" "valid_utf8 ''codex_installation''" by code_simp+
  have a: "opt_text (account v)"
    unfolding account_def by (intro opt_text_bind) (auto dest: legacy_parts_text(2))
  have i: "opt_text (installation_id v)"
    unfolding installation_id_def by (intro opt_text_filter opt_text_str json_text_at assms(1))
  from assms(2,3) consider "k = ''cc_account''" "f = account" | "k = ''codex_installation''" "f = installation_id"
    by (auto simp: HARNESSES_def claude_code_harness_def codex_harness_def grok_harness_def
        opencode_harness_def omp_harness_def)
  then show ?thesis using k a i by cases simp_all
qed

lemma enrich_text: "json_text v \<Longrightarrow> pairs_text (enrich parse facts v)"
proof -
  assume v: "json_text v"
  have "pairs_text (List.map_filter (\<lambda>(key, extract). map_option (Pair key) (extract v)) (enrichers h))"
    if "find_harness nm = Some h" for nm h
  proof -
    from that have "h \<in> set HARNESSES" unfolding find_harness_def by (rule find_in_set)
    with enricher_text [OF v] show ?thesis
      by (fastforce simp: pairs_text_def List.map_filter_def)
  qed
  then show ?thesis
    unfolding enrich_def by (auto simp: pairs_text_def [of "[]"] split: option.split)
qed

section \<open>Headers and captured bytes\<close>

lemma evidence_text:
  assumes "\<And>b. opt_text (to_str b)" and "\<And>n b. (n, b) \<in> set headers \<Longrightarrow> valid_utf8 n"
  shows "pairs_text (fst (collect_hdr_evidence to_str headers))"
proof -
  have step: "pairs_text (kept (scan_header to_str h sc))"
    if "h \<in> set headers" "pairs_text (kept sc)" for h sc
  proof -
    have "valid_utf8 (truncate_header_value (trim raw) HDR_VALUE_CAP)" if "to_str (snd h) = Some raw" for raw
      using assms(1) [of "snd h"] that by (simp add: truncate_valid valid_trim)
    with that assms(2) [of "fst h" "snd h"] show ?thesis
      by (auto simp: scan_header_def Let_def pairs_text_def split: option.split)
  qed
  have "pairs_text (kept (fold (scan_header to_str) hs sc))" if "set hs \<subseteq> set headers" "pairs_text (kept sc)" for hs sc
    using that by (induction hs arbitrary: sc) (simp_all add: step)
  from this [of headers "\<lparr>kept = [], used = 0, hdr_dropped = 0\<rparr>"] show ?thesis
    by (simp add: collect_hdr_evidence_def Let_def pairs_text_def)
qed

lemma fingerprint_text: "valid_utf8 (request_api_key_fp sha proto get slt)"
  by (auto simp: request_api_key_fp_def api_key_fp_of_def Let_def intro: valid_hex split: option.split)

lemma marker_text: "valid_utf8 (truncation_marker a b)"
proof -
  have "valid_utf8 ''[truncated:original_bytes=''" "valid_utf8 '',captured_bytes=''" "valid_utf8 '']''" by code_simp+
  then show ?thesis
    unfolding truncation_marker_def by (intro valid_appendI valid_show_nat)
qed

lemma bound_text: "valid_utf8 (bound cap d)"
  by (simp add: bound_def Let_def valid_lossy valid_appendI marker_text)

lemma captured_text: "valid_utf8 (captured_response cap c)"
  by (simp add: captured_response_def Let_def bound_text valid_appendI marker_text)

section \<open>The stitcher\<close>

definition stitcher_text :: "stitcher \<Rightarrow> bool" where
  "stitcher_text st \<longleftrightarrow> (\<forall>e \<in> set (st_states st). valid_utf8 (cs_session_id (snd e)))"

lemma session_id_text: "valid_utf8 (session_id_of sha slt seed nonce)"
  unfolding session_id_of_def by (intro valid_appendI valid_hex literal_text)

lemma assign_locked_text:
  assumes "stitcher_ok st" "stitcher_text st" "assign_locked sha scope head fps now st = Some (out, st')"
  shows "valid_utf8 (fst out) \<and> stitcher_text st'"
proof -
  obtain st1 where spec: "assign_locked sha scope head fps now st = Some (stitch_answer sha (scope, head) fps now st, st1)"
    "map_of (st_states st1) (scope, head) =
       Some \<lparr>cs_chain = fps, cs_session_id = fst (stitch_answer sha (scope, head) fps now st), cs_last_used = now\<rparr>"
    "\<forall>e \<in> set (st_states st1). fst e \<noteq> (scope, head) \<longrightarrow> e \<in> set (st_states st)" "stitcher_ok st1"
    by (rule assign_locked_spec [OF assms(1)])
  have a: "valid_utf8 (fst (stitch_answer sha (scope, head) fps now st))"
    using assms(2)
    by (auto simp: stitch_answer_def minted_def session_id_text live_def stitcher_text_def
        dest!: map_of_SomeD split: option.split)
  have "valid_utf8 (cs_session_id (snd e))" if e: "e \<in> set (st_states st1)" for e
  proof (cases "fst e = (scope, head)")
    case True
    have "distinct (map fst (st_states st1))" using spec(4) by (simp add: stitcher_ok_def)
    moreover obtain cs where "e = ((scope, head), cs)" using True by (cases e) simp
    ultimately have "map_of (st_states st1) (scope, head) = Some cs" "snd e = cs"
      using e map_of_is_SomeI by fastforce+
    with spec(2) a show ?thesis by (metis chain_state.select_convs(2) option.inject)
  next
    case False
    with spec(3) e assms(2) show ?thesis by (simp add: stitcher_text_def)
  qed
  with a spec(1) assms(3) show ?thesis by (simp add: stitcher_text_def)
qed

lemma assign_session_text:
  assumes "stitcher_ok st" "stitcher_text st"
    "assign_session sha render scope ms now waited hold st = Some (out, st')"
  shows "valid_utf8 (fst out) \<and> stitcher_text st'"
proof -
  define s0 where "s0 = st\<lparr>st_lock_wait_ns := st_lock_wait_ns st + waited\<rparr>"
  from assms(3) obtain s1 where
    a: "assign_locked sha scope (head_key sha render ms) (map (message_fingerprint sha render) ms) now s0 = Some (out, s1)"
    and st': "st' = s1\<lparr>st_lock_hold_ns := st_lock_hold_ns s1 + hold\<rparr>"
    by (auto simp: assign_session_def Let_def s0_def)
  have "stitcher_ok s0" "stitcher_text s0" using assms(1,2) by (simp_all add: s0_def stitcher_ok_def stitcher_text_def)
  from assign_locked_text [OF this a] show ?thesis by (simp add: st' stitcher_text_def)
qed

section \<open>The record of a turn\<close>

definition record_text :: "turn_record \<Rightarrow> bool" where
  "record_text r \<longleftrightarrow> valid_utf8 (protocol r) \<and> valid_utf8 (session_id r) \<and> valid_utf8 (user_input r)
     \<and> valid_utf8 (final_output r) \<and> valid_utf8 (raw_request r) \<and> valid_utf8 (raw_response r)
     \<and> list_all call_text (tool_calls r) \<and> valid_utf8 (model_name r) \<and> valid_utf8 (user_id r)
     \<and> opt_text (turn_error r) \<and> valid_utf8 (harness r) \<and> valid_utf8 (dialect r) \<and> valid_utf8 (client_ua r)
     \<and> pairs_text (hdr_evidence r) \<and> valid_utf8 (session_source r) \<and> valid_utf8 (api_key_fp r)
     \<and> list_all valid_utf8 (harness_candidates r) \<and> pairs_text (harness_enrich r) \<and> valid_utf8 (trace_tag r)"

definition ws_text :: "ws_turn \<Rightarrow> bool" where
  "ws_text t \<longleftrightarrow> opt_text (wt_input t) \<and> valid_utf8 (wt_session_id t) \<and> valid_utf8 (wt_output t)
     \<and> list_all call_text (wt_tool_calls t) \<and> valid_utf8 (wt_raw_request t) \<and> valid_utf8 (wt_raw_response t)
     \<and> valid_utf8 (wt_model_name t) \<and> valid_utf8 (wt_user_id t)"

definition tag_text :: "ctx \<Rightarrow> bool" where
  "tag_text c \<longleftrightarrow> valid_utf8 (tr_tag (c_trace (sn_cfg (snap c))))"

definition ctx_text :: "ctx \<Rightarrow> bool" where
  "ctx_text c \<longleftrightarrow> opt_text (relay_error c) \<and> pred_option accum_text (drain_acc c)
     \<and> ws_text (ws_turn_state c) \<and> tag_text c"

definition parts_text :: "turn_parts \<Rightarrow> bool" where
  "parts_text p \<longleftrightarrow> valid_utf8 (tp_proto p) \<and> pred_option facts_text (tp_facts p) \<and> harness_text (tp_harness p)
     \<and> valid_utf8 (tp_client_ua p) \<and> pairs_text (tp_evidence p) \<and> valid_utf8 (tp_fp p) \<and> pairs_text (tp_enrich p)
     \<and> valid_utf8 (ts_id (tp_session p)) \<and> valid_utf8 (ts_source (tp_session p))
     \<and> valid_utf8 (tp_raw_request p) \<and> valid_utf8 (tp_raw_response p) \<and> opt_text (tp_http_error p)"

definition rq_text :: "request \<Rightarrow> bool" where
  "rq_text rq \<longleftrightarrow> (\<forall>(n, b) \<in> set (rq_headers rq). valid_utf8 n)"

lemma session_verdict_text:
  assumes "ctx_text c" "pred_option (\<lambda>e. valid_utf8 (se_text e)) e"
  shows "opt_text (snd (session_verdict e c))"
proof (cases e)
  case (Some er)
  with assms(2) have "valid_utf8 (''proxy_error: '' @ se_text er)" by (intro valid_appendI literal_text) simp
  with Some show ?thesis by (simp add: session_verdict_def split: session_error_class.split del: append_Cons append_Nil)
next
  case None
  have "valid_utf8 (''http_status: '' @ show_nat (resp_status c))" by (intro valid_appendI literal_text valid_show_nat)
  with None assms(1) show ?thesis
    by (cases "relay_error c") (simp_all add: session_verdict_def ctx_text_def del: append_Cons append_Nil)
qed

lemma settle_session_text:
  assumes "settle_session env rq clk tf g = Some (ts, g')" "stitcher_ok (gw_stitcher g)"
    "stitcher_text (gw_stitcher g)" "pred_option facts_text tf"
  shows "valid_utf8 (ts_id ts) \<and> valid_utf8 (ts_source ts) \<and> stitcher_text (gw_stitcher g')"
proof -
  have st: "valid_utf8 (ts_id (stated_session tf)) \<and> valid_utf8 (ts_source (stated_session tf))"
    using assms(4) by (cases tf) (auto simp: stated_session_def facts_text_def intro: opt_text_unwrap)
  from assms(1) consider "ts = stated_session tf" "g' = g"
    | messages synthetic bp s where "ts_id ts = synthetic" "ts_source ts = ''stitcher''" "g' = g\<lparr>gw_stitcher := s\<rparr>"
      "assign_session (env_sha env) (env_render env) (unwrap_or [] (header_get env rq ''authorization''))
         messages (lc_stitch clk) (fst (lc_stitch_lock clk)) (snd (lc_stitch_lock clk)) (gw_stitcher g) =
       Some ((synthetic, bp), s)"
    by (auto simp: settle_session_def Let_def split: if_splits option.splits)
  then show ?thesis
  proof cases
    case 1
    with st assms(3) show ?thesis by simp
  next
    case 2
    from assign_session_text [OF assms(2,3) 2(4)] 2(1-3) literal_text show ?thesis by simp
  qed
qed

lemma parse_body_text: "env_text env \<Longrightarrow> pred_option json_text (parse_body (env_parse env) b)"
  by (cases "env_parse env b") (auto simp: parse_body_def dest: codec_parse [OF env_codec])

lemma gather_text:
  assumes e: "env_text env" and rq: "rq_text rq" and d: "d \<in> set (DESCRIPTORS (env_render env))"
    and err: "opt_text http_error" and st: "stitcher_ok (gw_stitcher g)" "stitcher_text (gw_stitcher g)"
    and g: "gather env rq clk d cc http_error c g = Some (p, req, g')"
  shows "parts_text p \<and> pred_option json_text req \<and> stitcher_text (gw_stitcher g')"
proof -
  define hf where "hf = identify (env_parse env) (d_name d) (parse_body (env_parse env) (req_buf c))
      (header_get env rq ''user-agent'') (header_get env rq)"
  define tf where "tf = Option.bind (parse_body (env_parse env) (req_buf c))
      (\<lambda>r. turn_facts_of (env_parse env) (env_render env) (d_name d) r (header_get env rq) hf)"
  obtain ev n where ev: "collect_hdr_evidence (env_to_str env) (rq_headers rq) = (ev, n)" by fastforce
  from g obtain ts u where s: "settle_session env rq clk tf (count_turn hf (count_hdr_dropped n g)) = Some (ts, u)"
    and g': "g' = count_session ts u" and req: "req = parse_body (env_parse env) (req_buf c)"
    and p: "p = \<lparr>tp_proto = d_name d, tp_facts = tf, tp_harness = hf,
        tp_client_ua = unwrap_or [] (map_option (\<lambda>u. truncate_header_value u HDR_VALUE_CAP) (header_get env rq ''user-agent'')),
        tp_evidence = ev,
        tp_fp = request_api_key_fp (env_sha env) (d_name d) (header_get env rq) (salt (c_api_key (sn_cfg (snap c)))),
        tp_enrich = unwrap_or [] (map_option (enrich (env_parse env) hf) req), tp_session = ts,
        tp_raw_request = bound (gw_cap u) (req_buf c), tp_raw_response = captured_response (gw_cap u) c,
        tp_cancelled = cc, tp_http_error = http_error\<rparr>"
    unfolding gather_def Let_def ev prod.case hf_def [symmetric] tf_def [symmetric] by auto
  note body = parse_body_text [OF e, of "req_buf c"]
  have tft: "pred_option facts_text tf"
    using body turn_facts_text [OF env_codec [OF e] _ header_get_text [OF e]]
    by (cases "parse_body (env_parse env) (req_buf c)"; cases tf) (auto simp: tf_def)
  from settle_session_text [OF s _ _ tft] st have ts: "valid_utf8 (ts_id ts)" "valid_utf8 (ts_source ts)"
    "stitcher_text (gw_stitcher u)" by simp_all
  have "pairs_text (fst (collect_hdr_evidence (env_to_str env) (rq_headers rq)))"
    using e rq by (intro evidence_text) (auto simp: env_text_def rq_text_def)
  moreover have "valid_utf8 (unwrap_or [] (map_option (\<lambda>u. truncate_header_value u HDR_VALUE_CAP)
      (header_get env rq ''user-agent'')))"
    using header_get_text [OF e, of rq "''user-agent''"]
    by (cases "header_get env rq ''user-agent''") (simp_all add: truncate_valid)
  moreover have "pairs_text (unwrap_or [] (map_option (enrich (env_parse env) hf) req))"
    using body by (cases req) (simp_all add: req enrich_text pairs_text_def [of "[]"])
  ultimately show ?thesis
    using ts tft body descriptor_name_text [OF d] err identify_text
    by (simp add: parts_text_def p g' req ev fingerprint_text bound_text captured_text hf_def)
qed

lemma fact_text: "parts_text p \<Longrightarrow> (\<And>tf. facts_text tf \<Longrightarrow> valid_utf8 (f tf)) \<Longrightarrow> valid_utf8 (fact f p)"
  by (cases "tp_facts p") (auto simp: fact_def parts_text_def)

lemma fact_texts:
  "parts_text p \<Longrightarrow> valid_utf8 (fact tf_user_input p)" "parts_text p \<Longrightarrow> valid_utf8 (fact tf_model_name p)"
  "parts_text p \<Longrightarrow> valid_utf8 (fact tf_user_id p)"
  by (auto intro: fact_text simp: facts_text_def)

lemma stream_record_text:
  assumes "parts_text p" "tag_text c" "content = (txt, us, tools, err, n)"
    "valid_utf8 txt" "list_all call_text tools" "opt_text err"
  shows "record_text (stream_record p content c)"
  using assms fact_texts [OF assms(1)]
  by (simp add: stream_record_def record_text_def parts_text_def harness_label_text tag_text_def
      harness_text_def opt_text_or_else)

lemma rest_record_text:
  assumes "parts_text p" "tag_text c" "record_text r"
  shows "record_text (rest_record p r c)"
  using assms
  by (simp add: rest_record_def record_text_def parts_text_def harness_label_text tag_text_def
      harness_text_def opt_text_or_else)

lemma minimal_record_text: "parts_text p \<Longrightarrow> tag_text c \<Longrightarrow> record_text (minimal_record p c)"
  using fact_texts [of p]
  by (simp add: minimal_record_def default_turn_def record_text_def parts_text_def harness_label_text
      tag_text_def harness_text_def pairs_text_def)

lemma shell_record_text:
  "valid_utf8 proto \<Longrightarrow> opt_text err \<Longrightarrow> tag_text c \<Longrightarrow> record_text (shell_record proto cc err c)"
  by (simp add: shell_record_def default_turn_def record_text_def tag_text_def pairs_text_def)

lemma nonstreaming_text:
  assumes "text_codec parse render" "d \<in> set (DESCRIPTORS render)" "json_text req" "json_text resp"
    "nonstreaming d req resp = Some r"
  shows "record_text r"
proof -
  from assms(5) obtain inp where i: "user_input_of d req = Some inp"
    and r: "r = default_turn\<lparr>protocol := d_name d, user_input := inp,
         final_output := unwrap_or [] (final_output_of d resp), usage := usage_from_nonstreaming d resp,
         model_name := str_or_empty (jat req ''model''), user_id := unwrap_or [] (end_user d req),
         tool_calls := (case nonstreaming_tools d of Some f \<Rightarrow> f resp | None \<Rightarrow> [])\<rparr>"
    by (auto simp: nonstreaming_def)
  from user_input_text [OF assms(2,3)] i nonstreaming_tools_text [OF assms(1,2,4)] show ?thesis
    by (simp add: r record_text_def default_turn_def pairs_text_def descriptor_name_text [OF assms(2)]
        opt_text_unwrap final_output_text [OF assms(2,4)] end_user_text assms(3) valid_str_or_empty json_text_at)
qed

section \<open>The end of a request\<close>

definition gateway_text :: "gateway \<Rightarrow> bool" where
  "gateway_text g \<longleftrightarrow> stitcher_text (gw_stitcher g) \<and> (\<forall>r \<in> set (deque (gw_store g)). record_text r)"

lemma gateway_text_frame:
  "gateway_text g \<Longrightarrow> gw_stitcher g' = gw_stitcher g \<Longrightarrow> deque (gw_store g') = deque (gw_store g) \<Longrightarrow> gateway_text g'"
  by (simp add: gateway_text_def)

lemma push_record_text:
  assumes "push_record lock r g = Some g'" "record_text r" "stitcher_text (gw_stitcher g)"
    "\<forall>r \<in> set (deque (gw_store g)). record_text r"
  shows "gateway_text g'"
proof -
  from assms(1) obtain s where p: "push (fst lock) (snd lock) r (gw_store g) = Some s"
    and g': "g' = g\<lparr>gw_store := s, gw_exporter := submit r (gw_exporter g)\<rparr>"
    by (auto simp: push_record_def)
  from p obtain k where "deque s = drop k (deque (gw_store g)) @ [r]" by (rule push_window)
  with assms(2-4) show ?thesis by (auto simp: gateway_text_def g' dest: in_set_dropD)
qed

lemma stream_content_text:
  assumes "env_text env" "ctx_text c" "stream_content env d c = (content, c')"
  shows "tag_text c' \<and> (\<exists>txt us tools err n. content = (txt, us, tools, err, n)
           \<and> valid_utf8 txt \<and> list_all call_text tools \<and> opt_text err)"
proof (cases "drain_acc c")
  case None
  note st = stream_response_text [OF env_codec [OF assms(1)], unfolded outcome_text_def]
  from assms(3) None have c: "content = reassemble_sse (env_parse env) (env_render env) (d_name d) (resp_buf c)" "c' = c"
    by (auto simp: stream_content_def)
  have "\<exists>txt us tools err n. content = (txt, us, tools, err, n) \<and> valid_utf8 txt \<and> list_all call_text tools \<and> opt_text err"
    using st by (cases "detect_by_name (env_render env) (d_name d)") (simp_all add: c reassemble_sse_def Let_def)
  then show ?thesis using assms(2) c(2) by (simp add: ctx_text_def)
next
  case (Some acc)
  with assms(2) have "accum_text (fst (acc, drain_tail c))" by (simp add: ctx_text_def)
  from drain_finish_text [OF env_codec [OF assms(1)] this, of d] assms Some show ?thesis
    by (auto simp: stream_content_def Let_def outcome_text_def ctx_text_def tag_text_def)
qed

lemma finish_turn_text:
  assumes e: "env_text env" and d: "d \<in> set (DESCRIPTORS (env_render env))" and c: "ctx_text c"
    and p: "parts_text p" and req: "pred_option json_text req" and g: "gateway_text g"
    and f: "finish_turn env clk d p req c g = Some (c', g')"
  shows "gateway_text g'"
proof -
  note push = push_record_text [OF _ _ _ g [unfolded gateway_text_def, THEN conjunct2]]
  have g1: "stitcher_text (gw_stitcher g)" using g by (simp add: gateway_text_def)
  have tag: "tag_text (c\<lparr>rt_end_ns := lc_end clk\<rparr>)" using c by (simp add: ctx_text_def tag_text_def)
  show ?thesis
  proof (cases "looks_like_sse (resp_content_type c)")
    case True
    obtain content c1 where s: "stream_content env d c = (content, c1)" by fastforce
    from stream_content_text [OF e c s] obtain out us tools err n where
      t: "tag_text (c1\<lparr>rt_end_ns := lc_end clk\<rparr>)" "content = (out, us, tools, err, n)"
      "valid_utf8 out" "list_all call_text tools" "opt_text err" by (auto simp: tag_text_def)
    from f True s t(2) have "push_record (lc_store_lock clk)
        (stream_record p content (c1\<lparr>rt_end_ns := lc_end clk\<rparr>)) (count_frames n g) = Some g'"
      by (auto simp: finish_turn_def Let_def)
    from push_record_text [OF this stream_record_text [OF p t]] g show ?thesis
      by (simp add: gateway_text_def count_frames_def)
  next
    case False
    show ?thesis
    proof (cases "unpack_nonstreaming (env_parse env) (env_render env) (d_name d) req (resp_buf c)")
      case (Some r)
      then obtain d' v resp where u: "detect_by_name (env_render env) (d_name d) = Some d'" "req = Some v"
        "env_parse env (resp_buf c) = Some resp" "nonstreaming d' v resp = Some r"
        by (auto simp: unpack_nonstreaming_def bind_eq_Some_conv)
      have r: "record_text r"
        using nonstreaming_text [OF env_codec [OF e] conjunct1 [OF detect_by_name_known [OF u(1)]] _
            codec_parse [OF env_codec [OF e] u(3)] u(4)] req u(2) by simp
      from f False Some have "push_record (lc_store_lock clk) (rest_record p r (c\<lparr>rt_end_ns := lc_end clk\<rparr>)) g = Some g'"
        by (auto simp: finish_turn_def Let_def)
      from push [OF this rest_record_text [OF p tag r] g1] show ?thesis .
    next
      case None
      with f False have "g' = g \<or>
          push_record (lc_store_lock clk) (minimal_record p (c\<lparr>rt_end_ns := lc_end clk\<rparr>)) g = Some g'"
        by (auto simp: finish_turn_def Let_def split: if_splits)
      with push [OF _ minimal_record_text [OF p tag] g1] g show ?thesis by blast
    qed
  qed
qed

lemma gateway_text_counted:
  "gateway_text g \<Longrightarrow> gateway_text (g\<lparr>gw_gauges := x\<rparr>)" "gateway_text g \<Longrightarrow> gateway_text (g\<lparr>loose_path_matches := n\<rparr>)"
  "gateway_text g \<Longrightarrow> gateway_text (g\<lparr>turns_total := n\<rparr>)" "gateway_text g \<Longrightarrow> gateway_text (count_hdr_dropped k g)"
  by (simp_all add: gateway_text_def)

lemma gather_store:
  "gather env rq clk d cc he c g = Some (p, req, g') \<Longrightarrow> gw_store g' = gw_store g"
  using gather_frame by blast

lemma record_turn_text:
  assumes e: "env_text env" and rq: "rq_text rq" and d: "d \<in> set (DESCRIPTORS (env_render env))" and c: "ctx_text c"
    and er: "pred_option (\<lambda>e. valid_utf8 (se_text e)) er" and st: "stitcher_ok (gw_stitcher g)" and g: "gateway_text g"
    and f: "record_turn env rq clk d er c g = Some (c', g')"
  shows "gateway_text g'"
proof -
  obtain cc he where v: "session_verdict er c = (cc, he)" by fastforce
  with session_verdict_text [OF c er] have he: "opt_text he" by simp
  show ?thesis
  proof (cases "gw_trace_off g")
    case True
    with f v have "push_record (lc_store_lock clk) (shell_record (d_name d) cc he (c\<lparr>rt_end_ns := lc_end clk\<rparr>))
        (g\<lparr>turns_total := turns_total g + 1\<rparr>) = Some g'" by (auto simp: record_turn_def Let_def)
    moreover have "record_text (shell_record (d_name d) cc he (c\<lparr>rt_end_ns := lc_end clk\<rparr>))"
      using descriptor_name_text [OF d] he c by (intro shell_record_text) (simp_all add: ctx_text_def tag_text_def)
    ultimately show ?thesis
      by (rule push_record_text) (use g in \<open>simp_all add: gateway_text_def\<close>)
  next
    case False
    with f v obtain p req u where u: "gather env rq clk d cc he c g = Some (p, req, u)"
      "finish_turn env clk d p req c u = Some (c', g')" by (auto simp: record_turn_def bind_eq_Some_conv)
    have "parts_text p \<and> pred_option json_text req \<and> stitcher_text (gw_stitcher u)"
      by (rule gather_text [OF e rq d he st _ u(1)]) (use g in \<open>simp add: gateway_text_def\<close>)
    moreover from this have "gateway_text u" using gather_store [OF u(1)] g by (simp add: gateway_text_def)
    ultimately show ?thesis by (intro finish_turn_text [OF e d c _ _ _ u(2)]) simp_all
  qed
qed

lemma logging_text:
  assumes e: "env_text env" and rq: "rq_text rq" and c: "ctx_text c"
    and er: "pred_option (\<lambda>e. valid_utf8 (se_text e)) er" and st: "stitcher_ok (gw_stitcher g)" and g: "gateway_text g"
    and f: "logging env rq clk er c g = Some (c', g')"
  shows "gateway_text g'"
proof (cases "turn_of env rq c")
  case None
  with f have "gw_store g' = gw_store g" "gw_stitcher g' = gw_stitcher g"
    by (auto simp: turn_of_def logging_def detect_path_fail_open_def Let_def split: option.splits if_splits)
  with g show ?thesis by (simp add: gateway_text_def)
next
  case (Some m)
  then have "detect_path (env_render env) (rq_path rq) = Some m" by (simp add: turn_of_def)
  from detect_by_name_known [OF detect_path_known [OF this]]
  have d: "pm_descriptor m \<in> set (DESCRIPTORS (env_render env))" by simp
  from f Some have "record_turn env rq clk (pm_descriptor m) er c (released clk m c g) = Some (c', g')"
    by (simp add: logging_turn)
  from record_turn_text [OF e rq d c er _ _ this] st g show ?thesis by (simp add: gateway_text_def)
qed

section \<open>The hooks before it\<close>

definition event_text :: "pump_event \<Rightarrow> bool" where
  "event_text ev \<longleftrightarrow> (case ev of Upstream_error e \<Rightarrow> valid_utf8 e | _ \<Rightarrow> True)"

definition io_text :: "relay_io \<Rightarrow> bool" where
  "io_text io \<longleftrightarrow> opt_text (io_head_error io) \<and> (case io_sent io of Connect_failed e \<Rightarrow> valid_utf8 e | _ \<Rightarrow> True)"

definition hook_text :: "hook \<Rightarrow> bool" where
  "hook_text h \<longleftrightarrow> (case h of Request_filter q ws io \<Rightarrow> io_text io | Relay_event ev \<Rightarrow> event_text ev | _ \<Rightarrow> True)"

lemma ctx_text_simps [simp]:
  "ctx_text (c\<lparr>req_buf := b\<rparr>) = ctx_text c" "ctx_text (c\<lparr>resp_buf := b\<rparr>) = ctx_text c"
  "ctx_text (c\<lparr>client_dead := x\<rparr>) = ctx_text c" "ctx_text (c\<lparr>relay_done := x\<rparr>) = ctx_text c"
  "ctx_text (c\<lparr>resp_status := n\<rparr>) = ctx_text c" "ctx_text (c\<lparr>resp_content_type := s\<rparr>) = ctx_text c"
  "ctx_text (c\<lparr>first_output_ns := z\<rparr>) = ctx_text c" "ctx_text (c\<lparr>body_end_ns := z\<rparr>) = ctx_text c"
  "ctx_text (c\<lparr>upstream_head_ns := z\<rparr>) = ctx_text c" "ctx_text (c\<lparr>response_complete := x\<rparr>) = ctx_text c"
  "ctx_text (c\<lparr>ctx_timed_out := x\<rparr>) = ctx_text c" "ctx_text (c\<lparr>drain_overflow := w\<rparr>) = ctx_text c"
  "ctx_text (c\<lparr>rt_end_ns := w\<rparr>) = ctx_text c" "ctx_text (c\<lparr>ws_client_parser := p\<rparr>) = ctx_text c"
  "ctx_text (c\<lparr>ws_server_parser := p\<rparr>) = ctx_text c"
  by (simp_all add: ctx_text_def tag_text_def)

lemma ctx_text_drain: "ctx_text c \<Longrightarrow> accum_text acc \<Longrightarrow> ctx_text (c\<lparr>drain_acc := Some acc, drain_tail := t\<rparr>)"
  by (simp add: ctx_text_def tag_text_def)

lemma begin_drain_text:
  assumes "text_codec parse render" "ctx_text c"
  shows "ctx_text (fst (begin_drain parse render d now c))"
proof -
  obtain acc t where f: "drain_feed parse render d (resp_buf c) (empty_accum, drain_tail c) = (acc, t)" by fastforce
  have "accum_text acc" using drain_feed_text [OF assms(1), of "(empty_accum, drain_tail c)" d "resp_buf c"] f
    by (simp add: empty_accum_text)
  with assms(2) f show ?thesis by (simp add: begin_drain_def ctx_text_drain)
qed

lemma drain_chunk_text:
  assumes "text_codec parse render" "ctx_text c"
  shows "ctx_text (drain_chunk parse render d cap bs c)"
proof -
  define c1 where "c1 = (if drain_acc (drain_capture cap bs c) = None \<and> looks_like_sse (resp_content_type (drain_capture cap bs c))
      then (drain_capture cap bs c)\<lparr>drain_acc := Some empty_accum\<rparr> else drain_capture cap bs c)"
  have c1: "ctx_text c1"
    using assms(2) by (simp add: c1_def drain_capture_def Let_def ctx_text_def tag_text_def empty_accum_text)
  have eq: "drain_chunk parse render d cap bs c = (case drain_acc c1 of
           Some acc \<Rightarrow> (case drain_feed parse render d bs (acc, drain_tail c1) of
               (acc, tail) \<Rightarrow> c1\<lparr>drain_acc := Some acc, drain_tail := tail\<rparr>)
         | None \<Rightarrow> c1)"
    unfolding drain_chunk_def c1_def Let_def ..
  show ?thesis
  proof (cases "drain_acc c1")
    case None
    then show ?thesis using c1 by (simp add: eq)
  next
    case (Some acc)
    obtain acc' t where f: "drain_feed parse render d bs (acc, drain_tail c1) = (acc', t)" by fastforce
    have "accum_text acc'" using drain_feed_text [OF assms(1), of "(acc, drain_tail c1)" d bs] f c1 Some
      by (simp add: ctx_text_def)
    with c1 Some f show ?thesis by (simp add: eq ctx_text_drain)
  qed
qed

lemma lose_client_text:
  "text_codec parse render \<Longrightarrow> ctx_text (p_ctx p) \<Longrightarrow> ctx_text (p_ctx (lose_client parse render d now p))"
  using begin_drain_text [of parse render "(p_ctx p)\<lparr>client_dead := True\<rparr>" d now]
  by (auto simp: lose_client_def Let_def split: prod.split)

lemma relay_error_text:
  "ctx_text c \<Longrightarrow> valid_utf8 e \<Longrightarrow> ctx_text (c\<lparr>relay_error := Some e\<rparr>)"
  by (simp add: ctx_text_def tag_text_def)

lemma pump_step_text:
  assumes "text_codec parse render" "ctx_text (p_ctx p)" "event_text ev" "pump_step parse render d p ev = Some p'"
  shows "ctx_text (p_ctx p')"
proof (cases ev)
  case (Chunk bs wall now ok cap)
  have "ctx_text (first_output wall bs (p_ctx p))" using assms(2) by (simp add: first_output_def)
  then show ?thesis using assms(1,4) Chunk
    by (auto simp: Let_def lose_client_text drain_chunk_text split: if_splits)
next
  case (Upstream_error e)
  with assms(3) have "valid_utf8 (''proxy_error: upstream read: '' @ e)"
    by (intro valid_appendI literal_text) (simp add: event_text_def)
  from relay_error_text [OF assms(2) this] assms(4) Upstream_error show ?thesis
    by (auto split: if_splits)
qed (use assms in \<open>auto simp: lose_client_text split: if_splits\<close>)

lemma relay_end_text: "ctx_text (p_ctx p) \<Longrightarrow> ctx_text (relay_end wall p)"
  by (simp add: relay_end_def Let_def)

lemma read_upload_text: "read_upload us c = Some (c', go) \<Longrightarrow> ctx_text c \<Longrightarrow> ctx_text c'"
  by (induction us c rule: read_upload.induct) auto

lemma mark_head_text: "mark_upstream_head now c gs = (c', gs') \<Longrightarrow> ctx_text c' = ctx_text c"
  by (auto simp: mark_upstream_head_def ctx_text_def tag_text_def split: if_splits)

lemma relay_failed_text:
  "ctx_text c \<Longrightarrow> valid_utf8 e \<Longrightarrow> ctx_text (relay_failed e c)"
  using relay_error_text [of c "''proxy_error: '' @ e"]
  by (simp add: relay_failed_def valid_appendI [OF literal_text(5)] del: append_Cons append_Nil)

lemma relay_head_text:
  assumes "ctx_text c" "io_text io"
    and "relay_head now (io_head_error io) written hr (io_sent io) c gs = (x, gs')"
  shows "case x of Inl c' \<Rightarrow> ctx_text c' | Inr p \<Rightarrow> ctx_text (p_ctx p)"
proof (cases "io_sent io")
  case (Connect_failed e)
  with assms(2) have "valid_utf8 (''connect: '' @ e)" by (intro valid_appendI literal_text) (simp add: io_text_def)
  from relay_failed_text [OF assms(1) this] assms(3) Connect_failed show ?thesis by (auto simp: relay_head_def)
next
  case (Response st ctype)
  obtain c1 g1 where m: "mark_upstream_head now c gs = (c1, g1)" by fastforce
  define c2 where "c2 = c1\<lparr>resp_status := st, resp_content_type := (case ctype of Some t \<Rightarrow> t | None \<Rightarrow> resp_content_type c1)\<rparr>"
  have c2: "ctx_text c2" using mark_head_text [OF m] assms(1) by (simp add: c2_def)
  note def = relay_head_def sent.case m Response Let_def prod.case c2_def [symmetric]
  show ?thesis
  proof (cases "io_head_error io")
    case (Some e)
    with assms(2) have "valid_utf8 (''response head: '' @ e)" by (intro valid_appendI literal_text) (simp add: io_text_def)
    from relay_failed_text [OF c2 this] assms(3) Some show ?thesis unfolding def by auto
  next
    case None
    with assms(3) c2 show ?thesis unfolding def by (auto split: if_splits)
  qed
qed

lemma request_filter_text:
  assumes "ctx_text c" "io_text io" "request_filter env rq query ws io c g = Some (st, g')"
  shows "ctx_text (stage_ctx st)"
proof -
  have "ctx_text (stage_ctx st)" if en: "enter_relay d io c g = Some (st, g')" for d
  proof -
    from en obtain c1 go where u: "read_upload (io_upload io) c = Some (c1, go)"
      by (auto simp: enter_relay_def split: option.splits)
    have c1: "ctx_text c1" by (rule read_upload_text [OF u assms(1)])
    show ?thesis
    proof (cases go)
      case False
      with en u c1 show ?thesis by (auto simp: enter_relay_def)
    next
      case True
      obtain x gs where h: "relay_head (io_at io) (io_head_error io) (io_written io) (io_head_request io)
          (io_sent io) c1 (gw_gauges g) = (x, gs)" by fastforce
      from relay_head_text [OF c1 assms(2) h] en u True h show ?thesis
        by (auto simp: enter_relay_def split: sum.splits)
    qed
  qed
  with assms show ?thesis by (auto simp: request_filter_def split: route.splits)
qed

section \<open>WebSocket turns\<close>

lemma ws_text_update: "ctx_text c \<Longrightarrow> ws_text t \<Longrightarrow> ctx_text (c\<lparr>ws_turn_state := t\<rparr>)"
  by (simp add: ctx_text_def tag_text_def)

lemma empty_turn_text: "ws_text empty_turn"
  by (simp add: ws_text_def empty_turn_def)

lemma client_frame_text:
  assumes "text_codec parse render" "ws_text t"
  shows "ws_text (apply_client_frame parse b t)"
proof (cases "parse b")
  case (Some v)
  from codec_parse [OF assms(1) this] have v: "json_text v" .
  with Some assms(2) show ?thesis
    by (simp add: apply_client_frame_def ws_text_def Let_def valid_lossy valid_str_or_empty json_text_at
        opt_text_unwrap end_user_text)
qed (simp add: apply_client_frame_def assms(2))

lemma taken_record_text: "ws_text u \<Longrightarrow> record_text (fst (take_record u)) \<and> ws_text (snd (take_record u))"
  using empty_turn_text literal_text(8,15)
  by (simp add: take_record_def record_text_def default_turn_def ws_text_def [of u] pairs_text_def opt_text_unwrap)

lemma server_frame_text:
  assumes "text_codec parse render" "ws_text t" "apply_server_frame parse b t = (rec, t')"
  shows "ws_text t' \<and> pred_option record_text rec"
proof -
  define t1 where "t1 = t\<lparr>wt_raw_response := wt_raw_response t @ from_utf8_lossy b @ newline\<rparr>"
  have t1: "ws_text t1"
    using assms(2) by (simp add: t1_def ws_text_def valid_append valid_lossy newline_text)
  show ?thesis
  proof (cases "parse b")
    case None
    with assms(3) t1 show ?thesis by (simp add: apply_server_frame_def t1_def)
  next
    case (Some v)
    from codec_parse [OF assms(1) this] have v: "json_text v" .
    define item where "item = jat v ''item''"
    define u where "u = (let w = resolve_path v (obj_path (hd (usage_frames live_descriptor)))
        in if is_null w then t1 else t1\<lparr>wt_usage := Some (usage_from_obj live_descriptor w)\<rparr>)"
    have u: "ws_text u" using t1 by (simp add: u_def ws_text_def Let_def)
    have tool: "ws_text (t1\<lparr>wt_tool_calls := wt_tool_calls t1 @
        [\<lparr>tc_name = str_or_empty (jat item ''name''), tc_arguments = str_or_empty (jat item ''arguments'')\<rparr>]\<rparr>)"
      using t1 v by (simp add: ws_text_def call_text_def item_def valid_str_or_empty json_text_at)
    have out: "ws_text (t1\<lparr>wt_output := wt_output t1 @ d\<rparr>)" if "as_str (jat v ''delta'') = Some d" for d
      using t1 str_text [OF v that] by (simp add: ws_text_def valid_append)
    obtain r t2 where tr: "take_record u = (r, t2)" by fastforce
    have "rec = None \<and> t' \<in> {t1, t1\<lparr>wt_tool_calls := wt_tool_calls t1 @
          [\<lparr>tc_name = str_or_empty (jat item ''name''), tc_arguments = str_or_empty (jat item ''arguments'')\<rparr>]\<rparr>}
       \<or> rec = None \<and> (\<exists>d. as_str (jat v ''delta'') = Some d \<and> t' = t1\<lparr>wt_output := wt_output t1 @ d\<rparr>)
       \<or> rec = Some r \<and> t' = t2"
      using assms(3) Some tr unfolding apply_server_frame_def t1_def [symmetric] u_def item_def Let_def
      by (auto split: if_splits option.splits)
    with t1 tool out taken_record_text [OF u] tr show ?thesis by auto
  qed
qed

lemma ws_server_frame_text:
  assumes e: "env_text env" and rq: "rq_text rq" and c: "ctx_text c" and g: "gateway_text g"
    and f: "ws_server_frame env rq at lock b (c, g) = Some (c', g')"
  shows "ctx_text c' \<and> gateway_text g'"
proof -
  define c1 where "c1 = (if ws_active (ws_turn_state c) \<and> first_output_ns c = None
      then c\<lparr>first_output_ns := Some at\<rparr> else c)"
  obtain rec t where a: "apply_server_frame (env_parse env) b (ws_turn_state c1) = (rec, t)" by fastforce
  obtain ev n where h: "collect_hdr_evidence (env_to_str env) (rq_headers rq) = (ev, n)" by fastforce
  have c1: "ctx_text c1" using c by (simp add: c1_def)
  from server_frame_text [OF env_codec [OF e] _ a] c1
  have t: "ws_text t" "pred_option record_text rec" by (simp_all add: ctx_text_def)
  have c2: "ctx_text (c1\<lparr>ws_turn_state := t\<rparr>)" by (rule ws_text_update [OF c1 t(1)])
  have "pairs_text (fst (collect_hdr_evidence (env_to_str env) (rq_headers rq)))"
    using e rq by (intro evidence_text) (auto simp: env_text_def rq_text_def)
  then have ev: "pairs_text ev" by (simp add: h)
  show ?thesis
  proof (cases rec)
    case None
    with f a g c2 show ?thesis by (auto simp: ws_server_frame_def c1_def [symmetric] Let_def)
  next
    case (Some r)
    from f a h Some have p: "push_record lock (r\<lparr>start_ns := rt_start_ns c1, end_ns := at,
          completion_start_ns := first_output_ns c1, trace_tag := tr_tag (c_trace (sn_cfg (snap c1))),
          hdr_evidence := ev\<rparr>) (count_hdr_dropped n g) = Some g'"
      and c': "c' = (c1\<lparr>ws_turn_state := t\<rparr>)\<lparr>rt_end_ns := at, first_output_ns := None\<rparr>"
      by (auto simp: ws_server_frame_def c1_def [symmetric] Let_def)
    have "record_text (r\<lparr>start_ns := rt_start_ns c1, end_ns := at, completion_start_ns := first_output_ns c1,
        trace_tag := tr_tag (c_trace (sn_cfg (snap c1))), hdr_evidence := ev\<rparr>)"
      using t(2) Some ev c1 by (simp add: record_text_def ctx_text_def tag_text_def)
    from push_record_text [OF p this] g c2 show ?thesis by (simp add: c' gateway_text_def)
  qed
qed

lemma ws_server_frames_text:
  assumes "env_text env" "rq_text rq"
  shows "ctx_text c \<Longrightarrow> gateway_text g \<Longrightarrow> ws_server_frames env rq at lock bs (c, g) = Some (c', g') \<Longrightarrow>
     ctx_text c' \<and> gateway_text g'"
proof (induction bs arbitrary: c g)
  case (Cons b bs)
  from Cons.prems(3) obtain c1 g1 where f: "ws_server_frame env rq at lock b (c, g) = Some (c1, g1)"
    "ws_server_frames env rq at lock bs (c1, g1) = Some (c', g')" by (auto simp: bind_eq_Some_conv)
  from ws_server_frame_text [OF assms Cons.prems(1,2) f(1)] Cons.IH [OF _ _ f(2)] show ?case by blast
qed simp

lemma response_body_text:
  assumes e: "env_text env" and rq: "rq_text rq" and c: "ctx_text c" and g: "gateway_text g"
    and f: "response_body_filter env rq at lock upgraded body at_end (c, g) = Some (c', g')"
  shows "ctx_text c' \<and> gateway_text g'"
proof -
  define c1 where "c1 = (if at_end then c\<lparr>response_complete := True,
      body_end_ns := (if body_end_ns c = None then Some at else body_end_ns c)\<rparr> else c)"
  have c1: "ctx_text c1" using c by (simp add: c1_def)
  note def = response_body_filter_def prod.case c1_def [symmetric]
  consider (ws) b where "upgraded" "body = Some b" | (plain) "\<not> upgraded \<or> body = None" by (cases body) auto
  then show ?thesis
  proof cases
    case (ws b)
    obtain payloads q where p: "ws_push b (ws_server_parser c1) = (payloads, q)" by fastforce
    from f ws p have "ws_server_frames env rq at lock payloads (c1\<lparr>ws_server_parser := q\<rparr>, g) = Some (c', g')"
      by (simp add: def Let_def ws_server_chunk_def)
    from ws_server_frames_text [OF e rq _ g this] c1 show ?thesis by simp
  next
    case plain
    with f have "g' = g" "c' = c1 \<or> c' = capture_response at body g c1" by (auto simp: def Let_def split: if_splits)
    with c1 g show ?thesis by (auto simp: capture_response_def Let_def split: option.split)
  qed
qed

lemma client_chunk_text:
  assumes "env_text env" "ctx_text c"
  shows "ctx_text (request_body_filter env upgraded body g c)"
proof -
  have "ws_text (fold (apply_client_frame (env_parse env)) ps t)" if "ws_text t" for ps t
    using that by (induction ps arbitrary: t) (simp_all add: client_frame_text [OF env_codec [OF assms(1)]])
  with assms(2) show ?thesis
    by (auto simp: request_body_filter_def ws_client_chunk_def capture_request_def ws_text_update ctx_text_def
        tag_text_def split: option.split prod.split)
qed

section \<open>Every hook\<close>

lemma hook_step_text:
  assumes e: "env_text env" and rq: "rq_text rq" and h: "hook_text h"
    and c: "ctx_text (stage_ctx st)" and g: "gateway_text g"
    and f: "hook_step env rq h st g = Some (st', g')"
  shows "ctx_text (stage_ctx st') \<and> gateway_text g'"
proof (cases "(env, rq, h, st, g)" rule: hook_step.cases)
  case (1 env1 rq1 query ws io c1 g1)
  with f have r: "request_filter env rq query ws io c1 g = Some (st', g')" by simp
  from request_filter_effect [OF r] obtain gs where "g' = g\<lparr>gw_gauges := gs\<rparr>" by blast
  with request_filter_text [OF _ _ r] 1 c h g show ?thesis by (simp add: hook_text_def gateway_text_def)
next
  case (2 env1 rq1 up body c1 g1)
  with f c g client_chunk_text [OF e] show ?thesis by auto
next
  case (3 env1 rq1 now sc ctype c1 g1)
  with f obtain c2 where r: "upstream_response_filter now sc ctype g c1 = (c2, g')" "st' = Pumped c2"
    by (auto split: prod.splits)
  obtain c3 gs where m: "mark_upstream_head now c1 (gw_gauges g) = (c3, gs)" by fastforce
  from r m mark_head_text [OF m] 3 c g show ?thesis by (auto simp: upstream_response_filter_def gateway_text_def)
next
  case (4 env1 rq1 at lock up body fin c1 g1)
  with f obtain c2 where "response_body_filter env rq at lock up body fin (c1, g) = Some (c2, g')" "st' = Pumped c2"
    by auto
  with response_body_text [OF e rq _ g this(1)] 4 c show ?thesis by auto
next
  case (5 env1 rq1 ev d p g1)
  with f obtain p' where p: "pump_step (env_parse env) (env_render env) d p ev = Some p'" "st' = Relaying d p'" "g' = g"
    by (auto split: if_splits)
  from pump_step_text [OF env_codec [OF e] _ _ p(1)] 5 c h g p show ?thesis by (simp add: hook_text_def)
next
  case (6 env1 rq1 wall d p g1)
  with f c g show ?thesis by (auto simp: relay_end_text split: if_splits)
qed (use f in auto)

end
