(* ===== verification/System_Text.thy ===== *)
theory System_Text
  imports Turn_Text
begin

text \<open>
  The type of text for the whole process: whatever bytes clients and upstreams send, in whatever
  interleaving, every string of every record in the trace store is valid UTF-8.
\<close>

section \<open>The state\<close>

definition cfg_text :: "config \<Rightarrow> bool" where
  "cfg_text cfg \<longleftrightarrow> valid_utf8 (tr_tag (c_trace cfg))"

definition sys_text :: "system \<Rightarrow> bool" where
  "sys_text s \<longleftrightarrow> cfg_text (sn_cfg (inner (sy_store s))) \<and> pred_option gateway_text (sy_gateway s)
     \<and> (\<forall>i cn. sy_conns s i = Some cn \<longrightarrow> rq_text (cn_request cn) \<and> ctx_text (conn_ctx cn))"

text \<open>The strings an event brings in: header names, texts of errors, the trace tag of a new
  configuration. Bodies, chunks, frames and header values are any bytes.\<close>

definition sys_event_text :: "sys_event \<Rightarrow> bool" where
  "sys_event_text ev \<longleftrightarrow> (case ev of
      Accept i rq now \<Rightarrow> rq_text rq
    | Hook i h \<Rightarrow> hook_text h
    | Logging i clk e \<Rightarrow> pred_option (\<lambda>e. valid_utf8 (se_text e)) e
    | Sighup outcome now_ms el \<Rightarrow> (case outcome of Inr l \<Rightarrow> cfg_text (ld_config l) | Inl _ \<Rightarrow> True)
    | Batcher ev \<Rightarrow> True)"

lemma new_ctx_text: "cfg_text (sn_cfg sn) \<Longrightarrow> ctx_text (new_ctx sn now)"
  by (simp add: new_ctx_def Let_def ctx_text_def tag_text_def cfg_text_def empty_turn_text)

lemma hot_apply_text:
  assumes "hot_apply b64 cfg g = Some g'" "gateway_text g"
  shows "gateway_text g'"
proof -
  have "st_states (gw_stitcher g') = st_states (gw_stitcher g)"
    using assms(1) by (auto simp: hot_apply_def Let_def set_limits_def)
  with assms(2) hot_apply_frame [OF assms(1)] show ?thesis by (simp add: gateway_text_def stitcher_text_def)
qed

lemma sighup_snapshot:
  "fst (sighup (\<lambda>_. outcome) now_ms el (cs, w)) = cs' \<Longrightarrow>
     sn_cfg (inner cs') = (case outcome of Inr l \<Rightarrow> ld_config l | Inl _ \<Rightarrow> sn_cfg (inner cs))"
  by (auto simp: sighup_def reload_def Let_def split: sum.split prod.split)

lemma sys_text_step:
  assumes e: "env_text env" and ok: "sys_ok b64 cfg0 ts n s" and t: "sys_text s" and ev: "sys_event_text ev"
    and st: "sys_step env b64 s ev = Some s'"
  shows "sys_text s'"
proof (cases ev)
  case (Accept i rq now)
  with st obtain g where "sy_gateway s = Some g" "sy_conns s i = None"
    "s' = s\<lparr>sy_gateway := Some (g\<lparr>gw_gauges := enter_request (gw_gauges g)\<rparr>),
       sy_conns := (sy_conns s)(i \<mapsto> \<lparr>cn_request = rq, cn_stage = Accepted (new_ctx (inner (sy_store s)) now)\<rparr>)\<rparr>"
    by (blast elim: accept_step)
  with t ev Accept show ?thesis
    by (simp add: sys_text_def sys_event_text_def new_ctx_text gateway_text_def)
next
  case (Hook i h)
  with st obtain g cn stg g' where g: "sy_gateway s = Some g" "sy_conns s i = Some cn"
    "hook_step env (cn_request cn) h (cn_stage cn) g = Some (stg, g')"
    "s' = s\<lparr>sy_gateway := Some g', sy_conns := (sy_conns s)(i \<mapsto> cn\<lparr>cn_stage := stg\<rparr>)\<rparr>"
    by (blast elim: hook_sys_step)
  from t g(1,2) have "rq_text (cn_request cn)" "ctx_text (conn_ctx cn)" "gateway_text g"
    by (auto simp: sys_text_def)
  moreover from this have "ctx_text (stage_ctx stg) \<and> gateway_text g'"
    using ev Hook by (intro hook_step_text [OF e _ _ _ _ g(3)]) (simp_all add: sys_event_text_def)
  ultimately show ?thesis using t g(4) by (simp add: sys_text_def)
next
  case (Logging i clk er)
  with st obtain g cn c g' where g: "sy_gateway s = Some g" "sy_conns s i = Some cn"
    "logging env (cn_request cn) clk er (conn_ctx cn) g = Some (c, g')"
    "s' = s\<lparr>sy_gateway := Some g', sy_conns := (sy_conns s)(i := None)\<rparr>"
    by (blast elim: logging_sys_step)
  from t g(1,2) have "rq_text (cn_request cn)" "ctx_text (conn_ctx cn)" "gateway_text g"
    by (auto simp: sys_text_def)
  moreover have "stitcher_ok (gw_stitcher g)" using ok g(1) by (simp add: sys_ok_def)
  ultimately have "gateway_text g'"
    using ev Logging by (intro logging_text [OF e _ _ _ _ _ g(3)]) (simp_all add: sys_event_text_def)
  then show ?thesis using t g(4) by (simp add: sys_text_def)
next
  case (Sighup outcome now_ms el)
  from sighup_sys_step [OF st [unfolded Sighup]]
  have c: "sy_conns s' = sy_conns s"
    and p: "(sy_store s', sy_gateway s') = sighup (\<lambda>_. outcome) now_ms el (sy_store s, sy_gateway s)" by blast+
  have po: "process_ok b64 cfg0 ts (sy_store s, sy_gateway s)" using ok by (simp add: sys_ok_def)
  have "fst (sighup (\<lambda>_. outcome) now_ms el (sy_store s, sy_gateway s)) = sy_store s'" by (metis p fst_conv)
  from sighup_snapshot [OF this] t ev Sighup have "cfg_text (sn_cfg (inner (sy_store s')))"
    by (auto simp: sys_text_def sys_event_text_def split: sum.splits)
  moreover have "pred_option gateway_text (sy_gateway s')"
  proof (cases "sy_gateway s'")
    case (Some g')
    show ?thesis
    proof (cases "sy_gateway s")
      case None
      with sighup_dead [of b64 cfg0 ts "sy_store s" "\<lambda>_. outcome" now_ms el] po p Some show ?thesis
        by (metis option.distinct(1) snd_conv)
    next
      case (Some g)
      then have g: "gateway_text g" using t by (simp add: sys_text_def)
      from sighup_gateway [of b64 cfg0 ts "sy_store s" g outcome now_ms el "sy_store s'" g'] po p Some \<open>sy_gateway s' = Some g'\<close>
      have "g' = g \<or> (\<exists>l. outcome = Inr l \<and> hot_apply b64 (ld_config l) g = Some g')" by simp
      with g hot_apply_text \<open>sy_gateway s' = Some g'\<close> show ?thesis by auto
    qed
  qed simp
  ultimately show ?thesis using t c by (simp add: sys_text_def)
next
  case (Batcher bev)
  with st obtain g ex where "sy_gateway s = Some g" "s' = s\<lparr>sy_gateway := Some (g\<lparr>gw_exporter := ex\<rparr>)\<rparr>"
    by (blast elim: batcher_sys_step)
  with t show ?thesis by (simp add: sys_text_def gateway_text_def)
qed

lemma sys_text_run:
  "env_text env \<Longrightarrow> sys_ok b64 cfg0 ts n s \<Longrightarrow> sys_text s \<Longrightarrow> list_all sys_event_text es \<Longrightarrow>
     run (sys_step env b64) s es = Some s' \<Longrightarrow> n + accepted es < 2 ^ 64 \<Longrightarrow> sys_text s'"
proof (induction es arbitrary: s n)
  case (Cons e es)
  from Cons.prems(5) obtain u where u: "sys_step env b64 s e = Some u" "run (sys_step env b64) u es = Some s'"
    by (auto split: Option.bind_splits)
  have "sys_ok b64 cfg0 ts (n + accepts e) u"
    using Cons.prems(6) by (intro sys_ok_step [OF Cons.prems(2) u(1)]) simp
  moreover have "sys_text u" using Cons.prems(4) by (intro sys_text_step [OF Cons.prems(1-3) _ u(1)]) simp
  ultimately show ?case using Cons.IH [OF Cons.prems(1) _ _ _ u(2)] Cons.prems(4,6) by (simp add: add.assoc)
qed simp

lemma boot_text:
  assumes "run_process b64 slt now built ts cs = Some p" "cfg_text (sn_cfg (inner cs))"
  shows "sys_text (boot p)"
proof -
  from assms(1) obtain g where g: "build_gateway b64 slt now ts (sn_cfg (inner cs)) = Some g" "snd p = Some g"
    "sn_cfg (inner (fst p)) = sn_cfg (inner cs)"
    by (auto simp: run_process_def set_on_reload_def split: if_splits)
  then have "st_states (gw_stitcher g) = []" "deque (gw_store g) = []"
    by (auto simp: build_gateway_def with_limits_def with_caps_def)
  with g(2,3) assms(2) show ?thesis by (simp add: sys_text_def boot_def gateway_text_def stitcher_text_def)
qed

text \<open>C9 All text is text. Given a JSON library that yields and prints Rust strings, header names and
  visible header values that are strings, and a trace tag that is one, every string of every record
  in the trace store is valid UTF-8 at every moment of the process: bodies, chunks and frames may hold
  any bytes, be cut anywhere by the network, by the drain window or by the capture cap, and be
  truncated, trimmed, joined or stitched on the way. A slice taken inside a character, which would
  panic in the source, would show here as a string that is not valid.\<close>

theorem stored_records_text:
  assumes "env_text env" and "run_process b64 slt now built ts cs = Some p"
    and "cfg_text (sn_cfg (inner cs))" and "list_all sys_event_text es"
    and "run (sys_step env b64) (boot p) es = Some s" and "accepted es < 2 ^ 64"
    and "sy_gateway s = Some g" and "r \<in> set (deque (gw_store g))"
  shows "record_text r"
proof -
  have "sys_text s"
    using sys_text_run [OF assms(1) boot_ok [OF assms(2)] boot_text [OF assms(2,3)] assms(4,5)] assms(6) by simp
  with assms(7,8) show ?thesis by (simp add: sys_text_def gateway_text_def)
qed

text \<open>A request whose body is the byte \<open>0xFF\<close>, and whose connection then fails: its record holds the
  replacement character.\<close>

definition strict_env :: env where
  "strict_env = demo_env\<lparr>env_parse := (\<lambda>s. if valid_utf8 s then Some (JString s) else None),
     env_to_str := (\<lambda>b. if list_all is_ascii b then Some b else None)\<rparr>"

definition spoiled_events :: "sys_event list" where
  "spoiled_events =
     [Accept 0 demo_request 5,
      Hook 0 (Request_filter None True \<lparr>io_upload = [], io_sent = Connect_failed [], io_head_error = None,
        io_written = False, io_head_request = False, io_at = 0\<rparr>),
      Hook 0 (Request_body False (Some [CHR 0xFF])),
      Logging 0 demo_clock (Some \<lparr>se_text = ''boom'', se_downstream = False\<rparr>)]"

lemma strict_env_text: "env_text strict_env"
  by (auto simp: env_text_def text_codec_def strict_env_def demo_env_def intro: valid_ascii)

lemma gather_raw:
  "gather env rq clk d cc he c g = Some (p, req, g') \<Longrightarrow> tp_raw_request p = bound (gw_cap g) (req_buf c)"
  by (auto simp: gather_def Let_def split: prod.splits dest!: settle_session_cases)

lemma spoiled_record:
  assumes tr: "\<not> gw_trace_off g" and st: "stitcher_ok (gw_stitcher g)" and cap: "gw_cap g = capture_new 1000"
    and c: "req_buf c = [CHR 0xFF]" "resp_buf c = []" "resp_content_type c = []" "response_complete c = False"
  obtains c' g' r where "logging strict_env demo_request demo_clock (Some \<lparr>se_text = ''boom'', se_downstream = False\<rparr>) c g
      = Some (c', g')" "r \<in> set (deque (gw_store g'))" "raw_request r = replacement"
proof -
  have t: "turn_of strict_env demo_request c = Some \<lparr>pm_descriptor = anthropic_descriptor (\<lambda>_. []), loose = False\<rparr>"
    using demo_turn by (simp add: turn_of_def strict_env_def demo_env_def)
  define m where "m = \<lparr>pm_descriptor = anthropic_descriptor (\<lambda>_. []), loose = False\<rparr>"
  let ?e = "Some \<lparr>se_text = ''boom'', se_downstream = False\<rparr>" and ?G = "released demo_clock m c g"
  have "\<not> contains_sub ''boom'' ''during HTTP idle state''" by code_simp
  then have v: "session_verdict ?e c = (client_dead c, Some ''proxy_error: boom'')"
    by (simp add: session_verdict_def classify_session_error_def)
  have "stitcher_ok (gw_stitcher ?G)" using st by simp
  from gather_returns [OF this] obtain p req u where g: "gather strict_env demo_request demo_clock (pm_descriptor m) (client_dead c)
      (Some ''proxy_error: boom'') c ?G = Some (p, req, u)"
    by blast
  have bad: "env_parse strict_env b = (if valid_utf8 b then Some (JString b) else None)" for b
    by (simp add: strict_env_def)
  have "\<not> valid_utf8 [CHR 0xFF]" by code_simp
  with gather_frame [OF g] c bad have p: "req = None" "tp_http_error p \<noteq> None" by (simp_all add: parse_body_def)
  have "tp_raw_request p = bound (capture_new 1000) [CHR 0xFF]"
    using gather_raw [OF g] cap by (simp add: c)
  moreover have "bound (capture_new 1000) [CHR 0xFF] = replacement" by code_simp
  ultimately have raw: "tp_raw_request p = replacement" by simp
  let ?r = "minimal_record p (c\<lparr>rt_end_ns := lc_end demo_clock\<rparr>)"
  obtain w where w: "push_record (lc_store_lock demo_clock) ?r u = Some w" using push_record_returns by blast
  have "\<not> looks_like_sse []" by code_simp
  then have "finish_turn strict_env demo_clock (pm_descriptor m) p req c u = Some (c\<lparr>rt_end_ns := lc_end demo_clock\<rparr>, w)"
    using p w by (simp add: finish_turn_def unpack_nonstreaming_def c Let_def)
  with g v tr have "record_turn strict_env demo_request demo_clock (pm_descriptor m) ?e c ?G =
      Some (c\<lparr>rt_end_ns := lc_end demo_clock\<rparr>, w)" by (simp add: record_turn_def)
  then have l: "logging strict_env demo_request demo_clock ?e c g = Some (c\<lparr>rt_end_ns := lc_end demo_clock\<rparr>, w)"
    using t by (simp add: logging_turn m_def)
  from w obtain s where "push (fst (lc_store_lock demo_clock)) (snd (lc_store_lock demo_clock)) ?r (gw_store u) = Some s"
    "gw_store w = s" by (auto simp: push_record_def)
  then obtain k where "deque (gw_store w) = drop k (deque (gw_store u)) @ [?r]" by (metis push_window)
  then have "?r \<in> set (deque (gw_store w))" by simp
  moreover have "raw_request ?r = replacement" using raw by (simp add: minimal_record_def)
  ultimately show ?thesis by (rule that [OF l])
qed

lemma spoiled_run:
  obtains p s g r where "run_process (\<lambda>_. []) [] 0 True True demo_store = Some p"
    "run (sys_step strict_env (\<lambda>_. [])) (boot p) spoiled_events = Some s" "sy_gateway s = Some g"
    "r \<in> set (deque (gw_store g))" "raw_request r = replacement"
proof -
  obtain g0 where g0: "run_process (\<lambda>_. []) [] 0 True True demo_store =
      Some (set_on_reload (\<lambda>cfg w. Option.bind w (hot_apply (\<lambda>_. []) cfg)) demo_store, Some g0)"
    "\<not> gw_trace_off g0" "stitcher_ok (gw_stitcher g0)" "gw_cap g0 = capture_new 1000"
    by (auto simp: run_process_def build_gateway_def start_def build_target_def demo_store_def from_config_def
        config_store_new_def set_on_reload_def sample_config_def trim_Nil with_limits_ok usize_max_def)
  let ?step = "sys_step strict_env (\<lambda>_. [])"
  let ?cs = "set_on_reload (\<lambda>cfg w. Option.bind w (hot_apply (\<lambda>_. []) cfg)) demo_store"
  define g1 where "g1 = g0\<lparr>gw_gauges := enter_request (gw_gauges g0)\<rparr>"
  define c0 where "c0 = new_ctx (inner ?cs) 5"
  define conns where "conns = (\<lambda>st. (\<lambda>_. None)(0 \<mapsto> \<lparr>cn_request = demo_request, cn_stage = st\<rparr>) :: nat \<Rightarrow> conn option)"
  have 1: "?step (boot (?cs, Some g0)) (Accept 0 demo_request 5) =
      Some \<lparr>sy_store = ?cs, sy_gateway = Some g1, sy_conns = conns (Accepted c0)\<rparr>"
    by (simp add: sys_step.simps boot_def accept_request_def g1_def c0_def conns_def)
  have "request_route (env_render strict_env) (sn_cfg (inner ?cs)) ''/v1/messages'' None True = Pump"
    by (simp add: request_route_def)
  then have 2: "?step \<lparr>sy_store = ?cs, sy_gateway = Some g1, sy_conns = conns (Accepted c0)\<rparr> (spoiled_events ! 1) =
      Some \<lparr>sy_store = ?cs, sy_gateway = Some g1, sy_conns = conns (Pumped c0)\<rparr>"
    by (simp add: sys_step.simps spoiled_events_def conns_def request_filter_def demo_request_def c0_def new_ctx_def Let_def)
  define c1 where "c1 = c0\<lparr>req_buf := [CHR 0xFF]\<rparr>"
  have 3: "?step \<lparr>sy_store = ?cs, sy_gateway = Some g1, sy_conns = conns (Pumped c0)\<rparr> (spoiled_events ! 2) =
      Some \<lparr>sy_store = ?cs, sy_gateway = Some g1, sy_conns = conns (Pumped c1)\<rparr>"
    using g0(2) by (simp add: sys_step.simps spoiled_events_def conns_def request_body_filter_def capture_request_def
        g1_def c1_def c0_def new_ctx_def Let_def)
  have c1: "req_buf c1 = [CHR 0xFF]" "resp_buf c1 = []" "resp_content_type c1 = []" "response_complete c1 = False"
    by (simp_all add: c1_def c0_def new_ctx_def Let_def)
  have "\<not> gw_trace_off g1" "stitcher_ok (gw_stitcher g1)" "gw_cap g1 = capture_new 1000"
    using g0 by (simp_all add: g1_def)
  from spoiled_record [OF this c1] obtain c' g' r where
    l: "logging strict_env demo_request demo_clock (Some \<lparr>se_text = ''boom'', se_downstream = False\<rparr>) c1 g1 = Some (c', g')"
    and r: "r \<in> set (deque (gw_store g'))" "raw_request r = replacement" by blast
  have 4: "?step \<lparr>sy_store = ?cs, sy_gateway = Some g1, sy_conns = conns (Pumped c1)\<rparr> (spoiled_events ! 3) =
      Some \<lparr>sy_store = ?cs, sy_gateway = Some g', sy_conns = (conns (Pumped c1))(0 := None)\<rparr>"
    using l by (simp add: sys_step.simps spoiled_events_def conns_def)
  have sp: "spoiled_events = [Accept 0 demo_request 5, spoiled_events ! 1, spoiled_events ! 2, spoiled_events ! 3]"
    by (simp add: spoiled_events_def)
  have "run ?step (boot (?cs, Some g0)) spoiled_events =
      Some \<lparr>sy_store = ?cs, sy_gateway = Some g', sy_conns = (conns (Pumped c1))(0 := None)\<rparr>"
    by (subst sp) (simp only: 1 2 3 4 run.simps Option.bind.bind_lunit)
  from that [OF g0(1) this _ r] show ?thesis by simp
qed

theorem stored_records_text_witness:
  "\<exists>p s g r. run_process (\<lambda>_. []) [] 0 True True demo_store = Some p
     \<and> run (sys_step strict_env (\<lambda>_. [])) (boot p) spoiled_events = Some s \<and> sy_gateway s = Some g
     \<and> r \<in> set (deque (gw_store g)) \<and> raw_request r = replacement \<and> record_text r"
proof -
  obtain p s g r where r: "run_process (\<lambda>_. []) [] 0 True True demo_store = Some p"
    "run (sys_step strict_env (\<lambda>_. [])) (boot p) spoiled_events = Some s" "sy_gateway s = Some g"
    "r \<in> set (deque (gw_store g))" "raw_request r = replacement" by (rule spoiled_run)
  have lit: "valid_utf8 ''line:atg''" "valid_utf8 ''user-agent''" "valid_utf8 ''boom''" by code_simp+
  have "cfg_text (sn_cfg (inner demo_store))"
    by (simp add: cfg_text_def demo_store_def from_config_def config_store_new_def sample_config_def lit)
  moreover have "list_all sys_event_text spoiled_events"
    by (simp add: spoiled_events_def sys_event_text_def rq_text_def demo_request_def hook_text_def io_text_def lit)
  moreover have "accepted spoiled_events < 2 ^ 64" by (simp add: spoiled_events_def)
  ultimately have "record_text r"
    using stored_records_text [OF strict_env_text r(1) _ _ r(2) _ r(3,4)] by blast
  with r show ?thesis by blast
qed

end
