(* ===== verification/Ws_Turns.thy ===== *)
theory Ws_Turns
  imports System_Laws
begin

text \<open>
  A Realtime turn through the hooks of the pump: client and server bytes of an upgraded connection in
  any chunks, from the frames on the wire to the one record in the window and the exporter.
\<close>

section \<open>Frames on the wire\<close>

type_synonym wire_frame = "nat \<times> bytes option \<times> bytes"  \<comment> \<open>opcode, masking key, payload\<close>

definition wire :: "wire_frame list \<Rightarrow> bytes" where
  "wire fs = concat (map (\<lambda>(opc, key, p). ws_frame opc key p) fs)"

definition wire_texts :: "wire_frame list \<Rightarrow> bytes list" where
  "wire_texts fs = map (\<lambda>(opc, key, p). p) (filter (\<lambda>(opc, key, p). opc = 1) fs)"

definition wire_ok :: "nat \<Rightarrow> wire_frame list \<Rightarrow> bool" where
  "wire_ok cap fs \<longleftrightarrow> list_all (\<lambda>(opc, key, p). opc < 16 \<and> key_ok key \<and> length p + 14 < 2 ^ 64
     \<and> (0 < cap \<longrightarrow> length p \<le> cap)) fs"

text \<open>A frame that the parser takes without a cap is taken with any cap its payload keeps.\<close>

lemma ws_next_cap:
  assumes "ws_next 0 b = Item (opc, p) r" "0 < cap \<longrightarrow> length p \<le> cap"
  shows "ws_next cap b = Item (opc, p) r"
proof -
  from assms(1) obtain n hdr where h: "\<not> length b < 2" "ws_header b = Some (n, hdr)"
    by (auto simp: ws_next_def Let_def split: if_splits option.splits)
  let ?ml = "if 128 \<le> code (b ! 1) then 4 else 0 :: nat"
  from assms(1) h have i: "\<not> 2 ^ 64 \<le> hdr + ?ml + n" "\<not> length b < hdr + ?ml + n"
    by (auto simp: ws_next_def Let_def split: if_splits)
  with assms(1) h have "length p = n"
    by (auto simp: ws_next_def Let_def split: if_splits)
  with assms h i show ?thesis by (auto simp: ws_next_def Let_def)
qed

lemma wire_Cons: "wire ((opc, key, p) # fs) = ws_frame opc key p @ wire fs"
  by (simp add: wire_def)

lemma wire_next: "wire_ok cap ((opc, key, p) # fs) \<Longrightarrow> ws_next cap (wire ((opc, key, p) # fs)) = Item (opc, p) (wire fs)"
  unfolding wire_Cons by (rule ws_next_cap [OF ws_next_frame]) (simp_all add: wire_ok_def)

lemma wire_nothing: "ws_next cap (wire []) = Wait"
  by (simp add: wire_def ws_next_def)

lemma wire_drain: "wire_ok cap fs \<Longrightarrow> ws_drain cap (wire fs) = (map (\<lambda>(opc, key, p). (opc, p)) fs, [])"
proof (induction fs)
  case (Cons f fs)
  obtain opc key p where f: "f = (opc, key, p)" by (cases f)
  with Cons.prems have "wire_ok cap fs" by (simp add: wire_ok_def)
  with Cons.IH wire_next [OF Cons.prems [unfolded f]] f show ?case by (subst ws_drain.simps) simp
qed (simp add: ws_drain.simps wire_nothing wire_def ws_next_def)

lemma wire_accepted: "wire_ok cap fs \<Longrightarrow> ws_accepts cap (wire fs)"
proof (induction fs)
  case (Cons f fs)
  obtain opc key p where f: "f = (opc, key, p)" by (cases f)
  with Cons.prems have "wire_ok cap fs" by (simp add: wire_ok_def)
  with Cons.IH wire_next [OF Cons.prems [unfolded f]] f show ?case by (subst ws_accepts.simps) simp
qed (simp add: ws_accepts.simps wire_nothing)

text \<open>What a fresh parser reads off the wire, in whatever chunks.\<close>

lemma wire_pushed:
  assumes "wire_ok cap fs" "concat chunks = wire fs"
  shows "push_all chunks (with_max_payload masked cap) = (wire_texts fs, with_max_payload masked cap)"
proof -
  have "text_payloads (map (\<lambda>(opc, key, p). (opc, p)) fs) = wire_texts fs"
    unfolding text_payloads_def wire_texts_def by (induction fs) auto
  moreover have "ws_accepts cap (concat chunks)" using wire_accepted assms by simp
  then have "push_all chunks (with_max_payload masked cap) = ws_push (wire fs) (with_max_payload masked cap)"
    using ws_chunking assms(2) by metis
  ultimately show ?thesis
    by (simp add: ws_push_def with_max_payload_def wire_drain [OF assms(1)])
qed

lemma push_all_Nil: "push_all [] p = ([], p)"
  by (simp add: push_all_def)

lemma push_all_Cons:
  "push_all (b # bs) p = (fst (ws_push b p) @ fst (push_all bs (snd (ws_push b p))),
     snd (push_all bs (snd (ws_push b p))))"
proof -
  have "foldl (\<lambda>(out, p) c. (out @ fst (ws_push c p), snd (ws_push c p))) (o0 @ o1, q) bs =
     (let (out, r) = foldl (\<lambda>(out, p) c. (out @ fst (ws_push c p), snd (ws_push c p))) (o1, q) bs
      in (o0 @ out, r))" for o0 o1 q
    by (induction bs arbitrary: o1 q) simp_all
  from this [of "fst (ws_push b p)" "[]" "snd (ws_push b p)"] show ?thesis
    by (simp add: push_all_def split_beta)
qed

section \<open>The hooks\<close>

definition client_bytes :: "env \<Rightarrow> gateway \<Rightarrow> bytes list \<Rightarrow> ctx \<Rightarrow> ctx" where
  "client_bytes env g chunks c = fold (\<lambda>b. request_body_filter env True (Some b) g) chunks c"

fun server_bytes ::
  "env \<Rightarrow> request \<Rightarrow> (u64 \<times> (u64 \<times> u64) \<times> bytes) list \<Rightarrow> ctx \<times> gateway \<Rightarrow> (ctx \<times> gateway) option" where
  "server_bytes env rq [] cg = Some cg"
| "server_bytes env rq ((at, lock, b) # es) cg =
     Option.bind (response_body_filter env rq at lock True (Some b) False cg) (server_bytes env rq es)"

lemma client_bytes_run:
  "client_bytes env g chunks c = c\<lparr>ws_client_parser := snd (push_all chunks (ws_client_parser c)),
     ws_turn_state := fold (apply_client_frame (env_parse env)) (fst (push_all chunks (ws_client_parser c)))
       (ws_turn_state c)\<rparr>"
proof (induction chunks arbitrary: c)
  case Nil
  then show ?case by (simp add: client_bytes_def push_all_Nil)
next
  case (Cons b bs)
  have "client_bytes env g (b # bs) c = client_bytes env g bs (ws_client_chunk env b c)"
    by (simp add: client_bytes_def request_body_filter_def)
  then show ?case
    by (simp add: Cons.IH push_all_Cons ws_client_chunk_def split_beta Let_def)
qed

definition chunks_of :: "(u64 \<times> (u64 \<times> u64) \<times> bytes) list \<Rightarrow> bytes list" where
  "chunks_of es = map (\<lambda>(at, lock, b). b) es"

lemma chunks_of_simps [simp]: "chunks_of [] = []" "chunks_of ((at, lock, b) # es) = b # chunks_of es"
  by (simp_all add: chunks_of_def)

lemma server_chunk:
  "response_body_filter env rq at lock True (Some b) False (c, g) =
     ws_server_frames env rq at lock (fst (ws_push b (ws_server_parser c)))
       (c\<lparr>ws_server_parser := snd (ws_push b (ws_server_parser c))\<rparr>, g)"
  by (simp add: response_body_filter_def ws_server_chunk_def split_beta Let_def)

text \<open>What the frames of a connection leave alone.\<close>

definition same_conn :: "ctx \<Rightarrow> ctx \<Rightarrow> bool" where
  "same_conn c c' \<longleftrightarrow> snap c' = snap c \<and> rt_start_ns c' = rt_start_ns c
     \<and> ws_client_parser c' = ws_client_parser c"

text \<open>A frame that is not the end marker leaves no record.\<close>

lemma quiet_frame:
  assumes "live_type (env_parse env) b \<noteq> Some ''response.done''"
  obtains c' where "ws_server_frame env rq at lock b (c, g) = Some (c', g)" "same_conn c c'"
    "ws_server_parser c' = ws_server_parser c"
    "ws_turn_state c' = snd (apply_server_frame (env_parse env) b (ws_turn_state c))"
  using server_frame_step [OF assms]
  by (simp add: ws_server_frame_def Let_def same_conn_def)

lemma quiet_frames:
  assumes "\<forall>b \<in> set bs. live_type (env_parse env) b \<noteq> Some ''response.done''"
  shows "\<exists>c'. ws_server_frames env rq at lock (bs @ later) (c, g) = ws_server_frames env rq at lock later (c', g)
     \<and> same_conn c c' \<and> ws_server_parser c' = ws_server_parser c
     \<and> ws_turn_state c' = run_server (env_parse env) bs (ws_turn_state c)"
  using assms
proof (induction bs arbitrary: c)
  case Nil
  then show ?case by (auto simp: same_conn_def run_server_def)
next
  case (Cons b bs)
  from Cons.prems have "live_type (env_parse env) b \<noteq> Some ''response.done''" by simp
  then obtain c1 where 1: "ws_server_frame env rq at lock b (c, g) = Some (c1, g)" "same_conn c c1"
    "ws_server_parser c1 = ws_server_parser c"
    "ws_turn_state c1 = snd (apply_server_frame (env_parse env) b (ws_turn_state c))"
    by (rule quiet_frame)
  from Cons.IH [of c1] Cons.prems obtain c' where
    "ws_server_frames env rq at lock (bs @ later) (c1, g) = ws_server_frames env rq at lock later (c', g)"
    "same_conn c1 c'" "ws_server_parser c' = ws_server_parser c1"
    "ws_turn_state c' = run_server (env_parse env) bs (ws_turn_state c1)" by auto
  with 1 show ?case by (intro exI [of _ c']) (simp add: same_conn_def run_server_def)
qed

text \<open>The record as the frame assembler gives it, with the stamps of the connection.\<close>

definition stamped :: "env \<Rightarrow> request \<Rightarrow> ctx \<Rightarrow> turn_record \<Rightarrow> turn_record \<Rightarrow> bool" where
  "stamped env rq c r0 r \<longleftrightarrow> (\<exists>at first. r = r0\<lparr>start_ns := rt_start_ns c, end_ns := at, completion_start_ns := first,
     trace_tag := tr_tag (c_trace (sn_cfg (snap c))), hdr_evidence := fst (collect_hdr_evidence (env_to_str env) (rq_headers rq))\<rparr>)"

lemma stamped_cong: "same_conn c c' \<Longrightarrow> stamped env rq c' r0 r = stamped env rq c r0 r"
  by (simp add: stamped_def same_conn_def)

lemma final_frame:
  assumes "apply_server_frame (env_parse env) b (ws_turn_state c) = (Some r0, t)"
  obtains c' g' r where "ws_server_frame env rq at lock b (c, g) = Some (c', g')" "recorded r g g'"
    "stamped env rq c r0 r" "turns_total g' = turns_total g" "same_conn c c'"
    "ws_server_parser c' = ws_server_parser c" "ws_turn_state c' = t"
proof -
  define c1 where "c1 = (if ws_active (ws_turn_state c) \<and> first_output_ns c = None
      then c\<lparr>first_output_ns := Some at\<rparr> else c)"
  obtain ev n where h: "collect_hdr_evidence (env_to_str env) (rq_headers rq) = (ev, n)" by fastforce
  define r where "r = r0\<lparr>start_ns := rt_start_ns c, end_ns := at, completion_start_ns := first_output_ns c1,
      trace_tag := tr_tag (c_trace (sn_cfg (snap c))), hdr_evidence := ev\<rparr>"
  have c1: "ws_turn_state c1 = ws_turn_state c" "rt_start_ns c1 = rt_start_ns c" "snap c1 = snap c"
    "same_conn c c1" "ws_server_parser c1 = ws_server_parser c" by (simp_all add: c1_def same_conn_def)
  obtain g' where p: "push_record lock r (count_hdr_dropped n g) = Some g'" using push_record_returns by blast
  show ?thesis
  proof (rule that)
    show "ws_server_frame env rq at lock b (c, g) =
        Some (c1\<lparr>ws_turn_state := t, rt_end_ns := at, first_output_ns := None\<rparr>, g')"
      using p assms h c1 by (simp add: ws_server_frame_def c1_def [symmetric] Let_def r_def)
    show "recorded r g g'" "turns_total g' = turns_total g" using push_record_recorded [OF p, of g] by simp_all
    show "stamped env rq c r0 r"
      unfolding stamped_def r_def h fst_conv by blast
  qed (use c1 in \<open>simp_all add: same_conn_def\<close>)
qed

lemma server_quiet:
  assumes "\<forall>b \<in> set (fst (push_all (chunks_of es) (ws_server_parser c))).
      live_type (env_parse env) b \<noteq> Some ''response.done''"
  shows "\<exists>c'. server_bytes env rq es (c, g) = Some (c', g) \<and> same_conn c c'
     \<and> ws_server_parser c' = snd (push_all (chunks_of es) (ws_server_parser c))
     \<and> ws_turn_state c' = run_server (env_parse env) (fst (push_all (chunks_of es) (ws_server_parser c)))
         (ws_turn_state c)"
  using assms
proof (induction es arbitrary: c)
  case Nil
  then show ?case by (simp add: push_all_Nil same_conn_def run_server_def)
next
  case (Cons e es)
  obtain at lock b where e: "e = (at, lock, b)" by (metis surj_pair)
  obtain ps q where p: "ws_push b (ws_server_parser c) = (ps, q)" by fastforce
  have pa: "push_all (chunks_of (e # es)) (ws_server_parser c) =
      (ps @ fst (push_all (chunks_of es) q), snd (push_all (chunks_of es) q))"
    by (simp add: push_all_Cons e p)
  have quiet: "\<forall>b \<in> set ps. live_type (env_parse env) b \<noteq> Some ''response.done''"
    using Cons.prems by (simp only: pa fst_conv) simp
  from quiet_frames [OF this, of rq at lock "[]" "c\<lparr>ws_server_parser := q\<rparr>" g] obtain c1 where
    1: "ws_server_frames env rq at lock ps (c\<lparr>ws_server_parser := q\<rparr>, g) = Some (c1, g)" "same_conn c c1"
    "ws_server_parser c1 = q" "ws_turn_state c1 = run_server (env_parse env) ps (ws_turn_state c)"
    by (auto simp: same_conn_def)
  from Cons.IH [of c1] Cons.prems obtain c' where
    "server_bytes env rq es (c1, g) = Some (c', g)" "same_conn c1 c'"
    "ws_server_parser c' = snd (push_all (chunks_of es) q)"
    "ws_turn_state c' = run_server (env_parse env) (fst (push_all (chunks_of es) q)) (ws_turn_state c1)"
    by (simp only: pa fst_conv 1(3)) auto
  with 1 show ?case
    by (intro exI [of _ c']) (simp add: e server_chunk p push_all_Cons same_conn_def run_server_def)
qed

lemma server_final:
  assumes "fst (push_all (chunks_of es) (ws_server_parser c)) = ps @ [fin]"
    and "\<forall>b \<in> set ps. live_type (env_parse env) b \<noteq> Some ''response.done''"
    and "apply_server_frame (env_parse env) fin (run_server (env_parse env) ps (ws_turn_state c)) = (Some r0, empty_turn)"
  shows "\<exists>c' g' r. server_bytes env rq es (c, g) = Some (c', g') \<and> recorded r g g' \<and> stamped env rq c r0 r
     \<and> turns_total g' = turns_total g \<and> same_conn c c' \<and> ws_turn_state c' = empty_turn
     \<and> ws_server_parser c' = snd (push_all (chunks_of es) (ws_server_parser c))"
  using assms
proof (induction es arbitrary: c ps)
  case Nil
  then show ?case by (simp add: push_all_Nil)
next
  case (Cons e es)
  obtain at lock b where e: "e = (at, lock, b)" by (metis surj_pair)
  obtain xs q where p: "ws_push b (ws_server_parser c) = (xs, q)" by fastforce
  let ?rest = "push_all (chunks_of es) q"
  have pa: "push_all (chunks_of (e # es)) (ws_server_parser c) = (xs @ fst ?rest, snd ?rest)"
    by (simp add: push_all_Cons e p)
  have split: "xs @ fst ?rest = ps @ [fin]" using Cons.prems(1) by (simp only: pa fst_conv)
  have chunk: "server_bytes env rq (e # es) (c, g) =
      Option.bind (ws_server_frames env rq at lock xs (c\<lparr>ws_server_parser := q\<rparr>, g)) (server_bytes env rq es)"
    by (simp add: e server_chunk p)
  show ?case
  proof (cases "fst ?rest = []")
    case True
    with split have xs: "xs = ps @ [fin]" by simp
    from quiet_frames [OF Cons.prems(2), of rq at lock "[fin]" "c\<lparr>ws_server_parser := q\<rparr>" g] obtain c1 where
      1: "ws_server_frames env rq at lock xs (c\<lparr>ws_server_parser := q\<rparr>, g) = ws_server_frames env rq at lock [fin] (c1, g)"
      "same_conn c c1" "ws_server_parser c1 = q" "ws_turn_state c1 = run_server (env_parse env) ps (ws_turn_state c)"
      by (auto simp: same_conn_def xs)
    from Cons.prems(3) 1(4) have "apply_server_frame (env_parse env) fin (ws_turn_state c1) = (Some r0, empty_turn)" by simp
    then obtain c2 g2 r where 2: "ws_server_frame env rq at lock fin (c1, g) = Some (c2, g2)" "recorded r g g2"
      "stamped env rq c1 r0 r" "turns_total g2 = turns_total g" "same_conn c1 c2" "ws_server_parser c2 = ws_server_parser c1"
      "ws_turn_state c2 = empty_turn" by (rule final_frame)
    from server_quiet [of es c2 env rq g2] True 2(6) 1(3) obtain c' where
      3: "server_bytes env rq es (c2, g2) = Some (c', g2)" "same_conn c2 c'" "ws_server_parser c' = snd ?rest"
      "ws_turn_state c' = empty_turn" by (auto simp: run_server_def 2(7))
    have "server_bytes env rq (e # es) (c, g) = Some (c', g2)" using 1(1) 2(1) 3(1) by (simp add: chunk)
    moreover have "stamped env rq c r0 r" using 2(3) stamped_cong [OF 1(2)] by blast
    moreover have "same_conn c c'" using 1(2) 2(5) 3(2) by (simp add: same_conn_def)
    ultimately show ?thesis using 2(2,4) 3(3,4) by (simp only: pa snd_conv) blast
  next
    case False
    then obtain ys y where "fst ?rest = ys @ [y]" by (metis rev_exhaust)
    with split have y: "fst ?rest = ys @ [fin]" "ps = xs @ ys" by simp_all
    have "\<forall>b \<in> set xs. live_type (env_parse env) b \<noteq> Some ''response.done''" using Cons.prems(2) y(2) by simp
    from quiet_frames [OF this, of rq at lock "[]" "c\<lparr>ws_server_parser := q\<rparr>" g] obtain c1 where
      1: "ws_server_frames env rq at lock xs (c\<lparr>ws_server_parser := q\<rparr>, g) = Some (c1, g)" "same_conn c c1"
      "ws_server_parser c1 = q" "ws_turn_state c1 = run_server (env_parse env) xs (ws_turn_state c)"
      by (auto simp: same_conn_def)
    have "apply_server_frame (env_parse env) fin (run_server (env_parse env) ys (ws_turn_state c1)) = (Some r0, empty_turn)"
      using Cons.prems(3) y(2) 1(4) by (simp add: run_server_def)
    with Cons.IH [of c1 ys] y Cons.prems(2) 1(3) obtain c' g' r where
      "server_bytes env rq es (c1, g) = Some (c', g')" "recorded r g g'" "stamped env rq c1 r0 r"
      "turns_total g' = turns_total g" "same_conn c1 c'" "ws_turn_state c' = empty_turn"
      "ws_server_parser c' = snd ?rest" by auto
    with 1 stamped_cong [OF 1(2)] show ?thesis
      by (intro exI [of _ c'] exI [of _ g'] exI [of _ r]) (simp add: chunk pa same_conn_def)
  qed
qed

text \<open>C10 A Realtime turn end to end: on an upgraded connection whose parsers hold nothing back, a client
  message \<open>response.create\<close> and the server's frames up to \<open>response.done\<close>, framed with any opcodes,
  masks and allowed lengths, interspersed with control frames and cut into any chunks in each
  direction, leave exactly one record in window and exporter: it has the transcript and the function
  calls of exactly these frames in order, both sides verbatim, the usage of its own end frame, and the
  configuration's trace tag. The connection is ready for the next turn, and the turn counter has not
  moved.\<close>

theorem live_turn_filed:
  assumes "ws_client_parser c = with_max_payload True cap" "ws_server_parser c = with_max_payload False cap"
    and "ws_reach (env_parse env) (ws_turn_state c)"
    and "wire_ok cap ups" "concat chunks = wire ups" "wire_texts ups = [opening]"
    and "wire_ok cap downs" "concat (chunks_of es) = wire downs" "wire_texts downs = ps @ [fin]"
    and "env_parse env opening = Some v0" "str_eq (jat v0 ''type'') ''response.create''"
    and "\<forall>p \<in> set ps. live_type (env_parse env) p \<noteq> Some ''response.done''"
    and "env_parse env fin = Some v" "as_str (jat v ''type'') = Some ''response.done''"
  shows "\<exists>c' g' r. server_bytes env rq es (client_bytes env g chunks c, g) = Some (c', g') \<and> recorded r g g'
     \<and> final_output r = concat (map (live_delta (env_parse env)) ps)
     \<and> tool_calls r = concat (map (live_tool (env_parse env)) ps)
     \<and> raw_request r = from_utf8_lossy opening
     \<and> raw_response r = concat (map raw_line (ps @ [fin]))
     \<and> usage r = (let u = resolve_path v [''response'', ''usage'']
                  in if is_null u then None else Some (usage_from_obj live_descriptor u))
     \<and> trace_tag r = tr_tag (c_trace (sn_cfg (snap c)))
     \<and> ws_turn_state c' = empty_turn \<and> ws_client_parser c' = with_max_payload True cap
     \<and> ws_server_parser c' = with_max_payload False cap \<and> turns_total g' = turns_total g"
proof -
  define c1 where "c1 = client_bytes env g chunks c"
  have c1: "ws_turn_state c1 = apply_client_frame (env_parse env) opening (ws_turn_state c)"
    "ws_client_parser c1 = with_max_payload True cap" "ws_server_parser c1 = with_max_payload False cap"
    "snap c1 = snap c"
    by (simp_all add: c1_def client_bytes_run assms(1,2,6) wire_pushed [OF assms(4,5)])
  from ws_turn_record [OF assms(3,10-14)] obtain r0 where
    a: "apply_server_frame (env_parse env) fin (run_server (env_parse env) ps (ws_turn_state c1)) = (Some r0, empty_turn)"
    and r0: "final_output r0 = concat (map (live_delta (env_parse env)) ps)"
      "tool_calls r0 = concat (map (live_tool (env_parse env)) ps)" "raw_request r0 = from_utf8_lossy opening"
      "raw_response r0 = concat (map raw_line (ps @ [fin]))"
      "usage r0 = (let u = resolve_path v [''response'', ''usage'']
                  in if is_null u then None else Some (usage_from_obj live_descriptor u))"
    unfolding c1 by blast
  have "push_all (chunks_of es) (ws_server_parser c1) = (ps @ [fin], with_max_payload False cap)"
    using wire_pushed [OF assms(7,8), of False] by (simp add: c1(3) assms(9))
  then have p: "fst (push_all (chunks_of es) (ws_server_parser c1)) = ps @ [fin]"
    "snd (push_all (chunks_of es) (ws_server_parser c1)) = with_max_payload False cap" by simp_all
  from server_final [OF p(1) assms(12) a, of rq g] obtain c' g' r where
    s: "server_bytes env rq es (c1, g) = Some (c', g')" "recorded r g g'" "stamped env rq c1 r0 r"
      "turns_total g' = turns_total g" "same_conn c1 c'" "ws_turn_state c' = empty_turn"
      "ws_server_parser c' = with_max_payload False cap" unfolding p(2) by blast
  from s(3) r0 have "final_output r = concat (map (live_delta (env_parse env)) ps)"
      "tool_calls r = concat (map (live_tool (env_parse env)) ps)" "raw_request r = from_utf8_lossy opening"
      "raw_response r = concat (map raw_line (ps @ [fin]))"
      "usage r = (let u = resolve_path v [''response'', ''usage'']
                  in if is_null u then None else Some (usage_from_obj live_descriptor u))"
      "trace_tag r = tr_tag (c_trace (sn_cfg (snap c1)))"
    by (auto simp: stamped_def)
  moreover have "ws_client_parser c' = with_max_payload True cap" using s(5) c1(2) by (simp add: same_conn_def)
  ultimately show ?thesis
    using s(1,2,4,6,7) c1(4) unfolding c1_def [symmetric] by (intro exI [of _ c'] exI [of _ g'] exI [of _ r]) simp
qed

text \<open>A masked \<open>response.create\<close>; a transcript delta, a ping and the end marker, cut inside a header.\<close>

definition live_parse :: "string \<Rightarrow> json option" where
  "live_parse s =
     (if s = ''C'' then Some (JObject [(''type'', JString ''response.create'')])
      else if s = ''D'' then Some (JObject [(''delta'', JString ''hi''),
                                            (''type'', JString ''response.audio_transcript.delta'')])
      else if s = ''F'' then Some (JObject [(''type'', JString ''response.done'')])
      else None)"

lemma live_turn_filed_witness:
  "\<exists>c' g' r. server_bytes (demo_env\<lparr>env_parse := live_parse\<rparr>) demo_request
        [(5, (0, 0), take 3 (wire [(1, None, ''D''), (9, None, []), (1, None, ''F'')])),
         (6, (0, 0), drop 3 (wire [(1, None, ''D''), (9, None, []), (1, None, ''F'')]))]
        (client_bytes (demo_env\<lparr>env_parse := live_parse\<rparr>) demo_gateway [wire [(1, Some ''wxyz'', ''C'')]]
           (new_ctx drain_snapshot 0), demo_gateway) = Some (c', g')
     \<and> recorded r demo_gateway g' \<and> final_output r = ''hi'' \<and> raw_request r = ''C''"
proof -
  let ?env = "demo_env\<lparr>env_parse := live_parse\<rparr>" and ?downs = "[(1, None, ''D''), (9, None, []), (1, None, ''F'')] :: wire_frame list"
  let ?c = "new_ctx drain_snapshot 0" and ?ups = "[(1, Some ''wxyz'', ''C'')] :: wire_frame list"
  let ?es = "[(5, (0, 0), take 3 (wire ?downs)), (6, (0, 0), drop 3 (wire ?downs))] :: (u64 \<times> (u64 \<times> u64) \<times> bytes) list"
  have c: "ws_client_parser ?c = with_max_payload True 0" "ws_server_parser ?c = with_max_payload False 0"
    "ws_turn_state ?c = empty_turn"
    by (simp_all add: new_ctx_def drain_snapshot_def sample_config_def Let_def)
  have reach: "ws_reach (env_parse ?env) (ws_turn_state ?c)" unfolding c by (rule ws_start)
  have w: "wire_ok 0 ?ups" "wire_ok 0 ?downs" by (simp_all add: wire_ok_def key_ok_def)
  have t: "wire_texts ?ups = [''C'']" "wire_texts ?downs = [''D''] @ [''F'']" by (simp_all add: wire_texts_def)
  have ch: "concat [wire ?ups] = wire ?ups" "concat (chunks_of ?es) = wire ?downs" by simp_all
  have p: "env_parse ?env ''C'' = Some (JObject [(''type'', JString ''response.create'')])"
    "env_parse ?env ''F'' = Some (JObject [(''type'', JString ''response.done'')])"
    by (simp_all add: live_parse_def)
  have ty: "str_eq (jat (JObject [(''type'', JString ''response.create'')]) ''type'') ''response.create''"
    "as_str (jat (JObject [(''type'', JString ''response.done'')]) ''type'') = Some ''response.done''"
    "\<forall>p \<in> set [''D'']. live_type (env_parse ?env) p \<noteq> Some ''response.done''"
    by (simp_all add: jat_def live_type_def live_parse_def)
  have o: "concat (map (live_delta (env_parse ?env)) [''D'']) = ''hi''"
    by (simp add: live_delta_def live_type_def live_parse_def jat_def)
  have r: "from_utf8_lossy ''C'' = ''C''" by (rule from_utf8_lossy_ascii) (simp add: is_ascii_def code_def)
  from live_turn_filed [OF c(1,2) reach w(1) ch(1) t(1) w(2) ch(2) t(2) p(1) ty(1,3) p(2) ty(2),
      of demo_request demo_gateway, unfolded o r] show ?thesis by blast
qed

end
