(* ===== verification/Failures.thy ===== *)
theory Failures
  imports System_Props Control
begin

text \<open>
  What becomes of a failed exchange (\<open>fail_to_connect\<close>, \<open>fail_to_proxy\<close> of \<open>src/lib.rs\<close>): the line for
  the operator, the error response for the client, and how the two agree with the record that
  \<open>logging\<close> files. Debug texts of errors and of the peer are parameters.
\<close>

section \<open>Definitions\<close>

text \<open>The line that \<open>fail_to_connect\<close> writes; it hands the error back unchanged.\<close>

definition fail_to_connect :: "string \<Rightarrow> string \<Rightarrow> string \<Rightarrow> string" where
  "fail_to_connect path peer err =
     ''GATEWAY fail_to_connect: path='' @ path @ '' peer='' @ peer @ '' error='' @ err"

definition failure_line :: "session_error_class \<Rightarrow> string \<Rightarrow> string \<Rightarrow> string" where
  "failure_line cls path err =
     (case cls of
        IdleNoise \<Rightarrow> ''ATG: idle teardown after response (path='' @ path @ '') '' @ em_dash @ '' not a failure''
      | ClientCancelled \<Rightarrow> ''ATG: client cancelled mid-turn (path='' @ path @ '')''
      | ProxyError \<Rightarrow> ''GATEWAY fail_to_proxy: path='' @ path @ '' error='' @ err)"

record fail_reply =
  fr_error_code :: nat
  fr_can_reuse_downstream :: bool

text \<open>The line, the status sent to the client if any, the value returned to the pump.\<close>

definition fail_to_proxy ::
  "string \<Rightarrow> string \<Rightarrow> error_type \<Rightarrow> error_source \<Rightarrow> ctx \<Rightarrow> string \<times> nat option \<times> fail_reply" where
  "fail_to_proxy path err et es c =
     (let downstream_sourced = (es = FromDownstream);
          line = failure_line (classify_session_error err downstream_sourced (resp_status c) (response_complete c))
                   path err;
          code = fail_code et es
      in (line, if 0 < code then Some code else None,
          \<lparr>fr_error_code = code, fr_can_reuse_downstream = False\<rparr>))"

section \<open>Laws\<close>

lemma failure_line_apart:
  "failure_line cls path err = failure_line cls' path err' \<Longrightarrow> cls = cls'"
  by (cases cls; cases cls') (simp_all add: failure_line_def)

lemma verdict_of_class:
  "session_verdict (Some \<lparr>se_text = err, se_downstream = ds\<rparr>) c =
     (case classify_session_error err ds (resp_status c) (response_complete c) of
        IdleNoise \<Rightarrow> (client_dead c, None)
      | ClientCancelled \<Rightarrow> (True, None)
      | ProxyError \<Rightarrow> (client_dead c, Some (''proxy_error: '' @ err)))"
  by (simp add: session_verdict_def cong: session_error_class.case_cong)



text \<open>With capture off, an upload that the client aborts does leave a record, of a cancelled turn: a
  comment of \<open>relay\<close> says that \<open>logging\<close> records nothing.\<close>

theorem aborted_upload_recorded:
  assumes "read_upload us c = Some (c1, False)" and "gw_trace_off g" and "turn_of env rq c1 = Some m"
    and "logging env rq clk None c1 g = Some (c2, g')"
  shows "\<exists>r. recorded r g g' \<and> cancelled r \<and> turns_total g' = turns_total g + 1"
proof -
  from assms(1) have dead: "client_dead c1" by (induction us c rule: read_upload.induct) auto
  have rt: "record_turn env rq clk (pm_descriptor m) None c1 (released clk m c1 g) = Some (c2, g')"
    using assms(3,4) by (simp add: logging_turn)
  from record_turn_record [OF rt] assms(2) have t: "turns_total g' = turns_total g + 1"
    "\<exists>r. recorded r g g' \<and> states_turn clk (pm_descriptor m) (session_verdict None c1) c1 r"
    by (auto simp: recorded_def)
  have "fst (session_verdict None c1)" using dead by (simp add: session_verdict_def split: option.split)
  with t show ?thesis by (auto simp: states_turn_def)
qed

end
