(* ===== verification/Sections.thy ===== *)
theory Sections
  imports System_Laws
begin

text \<open>
  The hooks of \<open>src/lib.rs\<close> cut where another thread may come between. A hook is a program over the
  shared components: its locals are in its continuation, and each of its shared accesses is one
  section: an atomic counter, the request gauges, the critical section of the stitcher, a read of
  the capture cap, the critical section of the window, the queue of the exporter. Run without
  interruption a program is the hook of \<open>Gateway\<close>.

  \<open>trace_off\<close> is fixed when the process starts, so it is an argument and not a section.
\<close>

section \<open>Programs\<close>

datatype counter =
    Failed_frames | Turns_total | Loose_path_matches | Turns_with_session | Turns_with_harness
  | Hdr_evidence_dropped

fun fetch_add :: "counter \<Rightarrow> u64 \<Rightarrow> gateway \<Rightarrow> gateway" where
  "fetch_add Failed_frames n g = g\<lparr>failed_frames := failed_frames g + n\<rparr>"
| "fetch_add Turns_total n g = g\<lparr>turns_total := turns_total g + n\<rparr>"
| "fetch_add Loose_path_matches n g = g\<lparr>loose_path_matches := loose_path_matches g + n\<rparr>"
| "fetch_add Turns_with_session n g = g\<lparr>turns_with_session := turns_with_session g + n\<rparr>"
| "fetch_add Turns_with_harness n g = g\<lparr>turns_with_harness := turns_with_harness g + n\<rparr>"
| "fetch_add Hdr_evidence_dropped n g = g\<lparr>hdr_evidence_dropped := hdr_evidence_dropped g + n\<rparr>"

text \<open>The arguments of \<open>PrefixStitcher::assign\<close>: scope, messages, \<open>now\<close>, waited, held.\<close>

record stitch_call =
  sc_scope :: string
  sc_messages :: "json list"
  sc_now :: nat
  sc_lock :: "u64 \<times> u64"

datatype prog =
    Return ctx
  | Release u64 bool ctx prog                       \<comment> \<open>\<open>exit_request\<close>\<close>
  | Add counter u64 prog
  | Assign stitch_call "string \<times> bool \<Rightarrow> prog"
  | Read_cap "capture_cap \<Rightarrow> prog"
  | Keep "u64 \<times> u64" turn_record prog               \<comment> \<open>\<open>TraceStore::push\<close>\<close>
  | Offer turn_record prog                          \<comment> \<open>\<open>Exporter::submit\<close>\<close>

definition assign_call :: "env \<Rightarrow> stitch_call \<Rightarrow> stitcher \<Rightarrow> ((string \<times> bool) \<times> stitcher) option" where
  "assign_call env a st =
     assign_session (env_sha env) (env_render env) (sc_scope a) (sc_messages a) (sc_now a)
       (fst (sc_lock a)) (snd (sc_lock a)) st"

text \<open>One section. \<open>None\<close>: the program has returned, or an eviction does not end.\<close>

fun section_step :: "env \<Rightarrow> prog \<Rightarrow> gateway \<Rightarrow> (prog \<times> gateway) option" where
  "section_step env (Return c) g = None"
| "section_step env (Release now identified c p) g =
     Some (p, g\<lparr>gw_gauges := exit_request now identified c (gw_gauges g)\<rparr>)"
| "section_step env (Add n k p) g = Some (p, fetch_add n k g)"
| "section_step env (Assign a k) g =
     map_option (\<lambda>(ans, st). (k ans, g\<lparr>gw_stitcher := st\<rparr>)) (assign_call env a (gw_stitcher g))"
| "section_step env (Read_cap k) g = Some (k (gw_cap g), g)"
| "section_step env (Keep lock r p) g =
     map_option (\<lambda>s. (p, g\<lparr>gw_store := s\<rparr>)) (push (fst lock) (snd lock) r (gw_store g))"
| "section_step env (Offer r p) g = Some (p, g\<lparr>gw_exporter := submit r (gw_exporter g)\<rparr>)"

fun_cases section_stepE: "section_step env p g = Some (p', g')"

text \<open>All sections of a program, nothing in between.\<close>

primrec run_alone :: "env \<Rightarrow> prog \<Rightarrow> gateway \<Rightarrow> (ctx \<times> gateway) option" where
  "run_alone env (Return c) = (\<lambda>g. Some (c, g))"
| "run_alone env (Release now identified c p) =
     (\<lambda>g. run_alone env p (g\<lparr>gw_gauges := exit_request now identified c (gw_gauges g)\<rparr>))"
| "run_alone env (Add n k p) = (\<lambda>g. run_alone env p (fetch_add n k g))"
| "run_alone env (Assign a k) =
     (\<lambda>g. Option.bind (assign_call env a (gw_stitcher g))
        (\<lambda>(ans, st). run_alone env (k ans) (g\<lparr>gw_stitcher := st\<rparr>)))"
| "run_alone env (Read_cap k) = (\<lambda>g. run_alone env (k (gw_cap g)) g)"
| "run_alone env (Keep lock r p) =
     (\<lambda>g. Option.bind (push (fst lock) (snd lock) r (gw_store g))
        (\<lambda>s. run_alone env p (g\<lparr>gw_store := s\<rparr>)))"
| "run_alone env (Offer r p) =
     (\<lambda>g. run_alone env p (g\<lparr>gw_exporter := submit r (gw_exporter g)\<rparr>))"

section \<open>The hooks as programs\<close>

definition add_if :: "bool \<Rightarrow> counter \<Rightarrow> u64 \<Rightarrow> prog \<Rightarrow> prog" where
  "add_if b n k p = (if b then Add n k p else p)"

definition push_prog :: "u64 \<times> u64 \<Rightarrow> turn_record \<Rightarrow> ctx \<Rightarrow> prog" where
  "push_prog lock r c = Keep lock r (Offer r (Return c))"

definition settle_prog ::
  "env \<Rightarrow> request \<Rightarrow> log_clock \<Rightarrow> turn_facts option \<Rightarrow> (turn_session \<Rightarrow> prog) \<Rightarrow> prog" where
  "settle_prog env rq clk tf k =
     (let ts = stated_session tf in
      if ts_id ts = [] \<and> may_stitch tf
      then (case Option.bind tf tf_messages of
              Some messages \<Rightarrow>
                Assign \<lparr>sc_scope = unwrap_or [] (header_get env rq ''authorization''),
                    sc_messages = messages, sc_now = lc_stitch clk, sc_lock = lc_stitch_lock clk\<rparr>
                  (\<lambda>(synthetic, is_bp). k \<lparr>ts_id = synthetic, ts_source = ''stitcher'',
                     ts_breakpoint = is_bp, ts_synthetic = (synthetic \<noteq> [])\<rparr>)
            | None \<Rightarrow> k ts)
      else k ts)"

definition gather_prog ::
  "env \<Rightarrow> request \<Rightarrow> log_clock \<Rightarrow> descriptor \<Rightarrow> bool \<Rightarrow> string option \<Rightarrow> ctx \<Rightarrow>
     (turn_parts \<Rightarrow> json option \<Rightarrow> prog) \<Rightarrow> prog" where
  "gather_prog env rq clk d was_cancelled http_error c k =
     (let proto = d_name d;
          get = header_get env rq;
          req = parse_body (env_parse env) (req_buf c);
          ua = get ''user-agent'';
          hfacts = identify (env_parse env) proto req ua get;
          client = unwrap_or [] (map_option (\<lambda>u. truncate_header_value u HDR_VALUE_CAP) ua);
          (evidence, n) = collect_hdr_evidence (env_to_str env) (rq_headers rq);
          fp = request_api_key_fp (env_sha env) proto get (salt (c_api_key (sn_cfg (snap c))));
          tf = Option.bind req (\<lambda>r. turn_facts_of (env_parse env) (env_render env) proto r get hfacts);
          enriched = unwrap_or [] (map_option (enrich (env_parse env) hfacts) req)
      in add_if (0 < n) Hdr_evidence_dropped (ucast n)
        (Add Turns_total 1
        (add_if (hf_identity hfacts \<noteq> None) Turns_with_harness 1
        (settle_prog env rq clk tf (\<lambda>ts.
           add_if (ts_id ts \<noteq> [] \<and> \<not> ts_synthetic ts) Turns_with_session 1
           (Read_cap (\<lambda>request_cap. Read_cap (\<lambda>response_cap.
              k \<lparr>tp_proto = proto, tp_facts = tf, tp_harness = hfacts, tp_client_ua = client,
                 tp_evidence = evidence, tp_fp = fp, tp_enrich = enriched, tp_session = ts,
                 tp_raw_request = bound request_cap (req_buf c),
                 tp_raw_response = captured_response response_cap c,
                 tp_cancelled = was_cancelled, tp_http_error = http_error\<rparr> req))))))))"

definition finish_prog ::
  "env \<Rightarrow> log_clock \<Rightarrow> descriptor \<Rightarrow> turn_parts \<Rightarrow> json option \<Rightarrow> ctx \<Rightarrow> prog" where
  "finish_prog env clk d p req c =
     (if looks_like_sse (resp_content_type c) then
        (let (content, c) = stream_content env d c;
             (_, _, _, _, frame_errors) = content;
             c' = c\<lparr>rt_end_ns := lc_end clk\<rparr>
         in add_if (0 < frame_errors) Failed_frames (ucast frame_errors)
              (push_prog (lc_store_lock clk) (stream_record p content c') c'))
      else
        (let c' = c\<lparr>rt_end_ns := lc_end clk\<rparr> in
         case unpack_nonstreaming (env_parse env) (env_render env) (d_name d) req (resp_buf c) of
           Some r \<Rightarrow> push_prog (lc_store_lock clk) (rest_record p r c') c'
         | None \<Rightarrow>
             if tp_http_error p \<noteq> None \<or> (relay_done c \<and> tp_cancelled p)
             then push_prog (lc_store_lock clk) (minimal_record p c') c'
             else Return c))"

definition record_prog ::
  "env \<Rightarrow> bool \<Rightarrow> request \<Rightarrow> log_clock \<Rightarrow> descriptor \<Rightarrow> session_error option \<Rightarrow> ctx \<Rightarrow> prog" where
  "record_prog env trace_off rq clk d e c =
     (let (was_cancelled, http_error) = session_verdict e c in
      if trace_off
      then (let c = c\<lparr>rt_end_ns := lc_end clk\<rparr>
            in Add Turns_total 1
                 (push_prog (lc_store_lock clk) (shell_record (d_name d) was_cancelled http_error c) c))
      else gather_prog env rq clk d was_cancelled http_error c
             (\<lambda>p req. finish_prog env clk d p req c))"

definition logging_prog ::
  "env \<Rightarrow> bool \<Rightarrow> request \<Rightarrow> log_clock \<Rightarrow> session_error option \<Rightarrow> ctx \<Rightarrow> prog" where
  "logging_prog env trace_off rq clk e c =
     (let matched = detect_path_fail_open (env_render env) (rq_path rq)
      in Release (lc_exit clk) (matched \<noteq> None) c
        (case matched of
           None \<Rightarrow> Return c
         | Some m \<Rightarrow>
             (let record_allowed = (loose m \<longrightarrow> 200 \<le> resp_status c \<and> resp_status c < 300)
              in add_if (loose m) Loose_path_matches 1
                (if loose m \<and> \<not> record_allowed then Return c
                 else record_prog env trace_off rq clk (pm_descriptor m) e c))))"

text \<open>A server frame of an upgraded connection.\<close>

definition ws_frame_prog :: "env \<Rightarrow> request \<Rightarrow> u64 \<Rightarrow> u64 \<times> u64 \<Rightarrow> bytes \<Rightarrow> ctx \<Rightarrow> prog" where
  "ws_frame_prog env rq at lock payload c =
     (let c = (if ws_active (ws_turn_state c) \<and> first_output_ns c = None
               then c\<lparr>first_output_ns := Some at\<rparr> else c);
          (rec, t) = apply_server_frame (env_parse env) payload (ws_turn_state c);
          c = c\<lparr>ws_turn_state := t\<rparr>
      in case rec of
           None \<Rightarrow> Return c
         | Some r \<Rightarrow>
             let c = c\<lparr>rt_end_ns := at\<rparr>;
                 (evidence, n) = collect_hdr_evidence (env_to_str env) (rq_headers rq);
                 r = r\<lparr>start_ns := rt_start_ns c, end_ns := rt_end_ns c,
                       completion_start_ns := first_output_ns c,
                       trace_tag := tr_tag (c_trace (sn_cfg (snap c))),
                       hdr_evidence := evidence\<rparr>;
                 c = c\<lparr>first_output_ns := None\<rparr>
             in add_if (0 < n) Hdr_evidence_dropped (ucast n) (push_prog lock r c))"

section \<open>Uninterrupted, a program is the hook\<close>

lemma run_add_if [simp]:
  "run_alone env (add_if b n k p) g = run_alone env p (if b then fetch_add n k g else g)"
  by (simp add: add_if_def)

lemma run_push_prog [simp]:
  "run_alone env (push_prog lock r c) g = map_option (Pair c) (push_record lock r g)"
  by (cases "push (fst lock) (snd lock) r (gw_store g)") (simp_all add: push_prog_def push_record_def)

lemma run_settle_prog:
  "run_alone env (settle_prog env rq clk tf k) g =
     Option.bind (settle_session env rq clk tf g) (\<lambda>(ts, g). run_alone env (k ts) g)"
  by (auto simp: settle_prog_def settle_session_def assign_call_def Let_def
      split: option.split Option.bind_splits prod.split)

lemma counts_as_adds:
  "count_turn hf (count_hdr_dropped n g) =
     (let g = fetch_add Turns_total 1 (if 0 < n then fetch_add Hdr_evidence_dropped (ucast n) g else g)
      in if hf_identity hf \<noteq> None then fetch_add Turns_with_harness 1 g else g)"
  "count_session ts g =
     (if ts_id ts \<noteq> [] \<and> \<not> ts_synthetic ts then fetch_add Turns_with_session 1 g else g)"
  by (simp_all add: count_turn_def count_hdr_dropped_def count_session_def Let_def)

lemma bind_map_pair:
  "Option.bind (map_option (\<lambda>(a, b). f a b) x) h = Option.bind x (\<lambda>(a, b). h (f a b))"
  by (cases x) (simp_all split: prod.split)

lemma run_gather_prog:
  "run_alone env (gather_prog env rq clk d cc he c k) g =
     Option.bind (gather env rq clk d cc he c g) (\<lambda>(p, req, g). run_alone env (k p req) g)"
proof -
  obtain ev n where h: "collect_hdr_evidence (env_to_str env) (rq_headers rq) = (ev, n)" by fastforce
  have cap: "gw_cap (snd tg) = gw_cap g'" if "settle_session env rq clk tf g' = Some tg" for tf tg g'
    using settle_session_cases [of env rq clk tf g' "fst tg" "snd tg"] that by auto
  have frame: "gw_cap (fetch_add x m u) = gw_cap u" for x m u by (cases x) simp_all
  show ?thesis
    unfolding gather_prog_def gather_def Let_def h prod.case counts_as_adds run_add_if
      run_alone.simps run_settle_prog bind_map_pair
    by (rule Option.bind_cong) (auto simp: frame Let_def dest!: cap)
qed

lemma run_finish_prog:
  "run_alone env (finish_prog env clk d p req c) g = finish_turn env clk d p req c g"
  by (auto simp: finish_prog_def finish_turn_def Let_def count_frames_def split: prod.split option.split)

lemma run_record_prog:
  assumes "off = gw_trace_off g"
  shows "run_alone env (record_prog env off rq clk d e c) g = record_turn env rq clk d e c g"
  unfolding assms
  by (cases "session_verdict e c")
    (simp add: record_prog_def record_turn_def run_gather_prog run_finish_prog Let_def split_def)

lemma run_logging_prog:
  "run_alone env (logging_prog env (gw_trace_off g) rq clk e c) g = logging env rq clk e c g"
  by (simp add: logging_prog_def logging_def Let_def run_record_prog split: option.split)

lemma run_ws_frame_prog:
  "run_alone env (ws_frame_prog env rq at lock payload c) g = ws_server_frame env rq at lock payload (c, g)"
  by (auto simp: ws_frame_prog_def ws_server_frame_def count_hdr_dropped_def Let_def
      split: prod.split option.split)

end
