(* ===== verification/Overlap.thy ===== *)
theory Overlap
  imports Sections System_Props
begin

text \<open>
  Hooks that overlap. Any number of programs of \<open>Sections\<close> run on threads of their own; the scheduler
  picks which takes its next section, and the batcher steps in between. A program does two kinds of
  things: it takes at most one answer from the stitcher, and it does deeds that nobody reads back.
  So the order in which the programs held the stitcher's lock explains the whole run: the hooks,
  one after the other in that order, give the same sessions, counters and records; the window and
  the queue hold these records each in an order of its own.
\<close>

section \<open>Threads\<close>

text \<open>A hook that may record a turn, with its arguments.\<close>

datatype job =
    Log_job request log_clock "session_error option" ctx
  | Frame_job request u64 "u64 \<times> u64" bytes ctx

fun job_prog :: "env \<Rightarrow> bool \<Rightarrow> job \<Rightarrow> prog" where
  "job_prog env off (Log_job rq clk e c) = logging_prog env off rq clk e c"
| "job_prog env off (Frame_job rq at lock payload c) = ws_frame_prog env rq at lock payload c"

fun job_hook :: "env \<Rightarrow> job \<Rightarrow> gateway \<Rightarrow> (ctx \<times> gateway) option" where
  "job_hook env (Log_job rq clk e c) g = logging env rq clk e c g"
| "job_hook env (Frame_job rq at lock payload c) g = ws_server_frame env rq at lock payload (c, g)"

lemma run_job_prog: "run_alone env (job_prog env (gw_trace_off g) j) g = job_hook env j g"
  by (cases j) (simp_all add: run_logging_prog run_ws_frame_prog)

record overlap =
  ov_gateway :: gateway
  ov_progs :: "prog list"

datatype ov_event = Section nat | Pool "turn_record event"

fun overlap_step :: "env \<Rightarrow> (bytes \<Rightarrow> string) \<Rightarrow> overlap \<Rightarrow> ov_event \<Rightarrow> overlap option" where
  "overlap_step env b64 s (Section i) =
     (if i < length (ov_progs s)
      then map_option (\<lambda>(p, g). \<lparr>ov_gateway = g, ov_progs = (ov_progs s)[i := p]\<rparr>)
             (section_step env (ov_progs s ! i) (ov_gateway s))
      else None)"
| "overlap_step env b64 s (Pool ev) =
     (if batcher_event ev
      then map_option (\<lambda>ex. s\<lparr>ov_gateway := (ov_gateway s)\<lparr>gw_exporter := ex\<rparr>\<rparr>)
             (pool_step b64 (gw_exporter (ov_gateway s)) ev)
      else None)"

definition launch :: "env \<Rightarrow> job list \<Rightarrow> gateway \<Rightarrow> overlap" where
  "launch env jobs g = \<lparr>ov_gateway = g, ov_progs = map (job_prog env (gw_trace_off g)) jobs\<rparr>"

fun returned :: "prog \<Rightarrow> bool" where
  "returned (Return c) = True"
| "returned _ = False"

lemma returned_iff: "returned p \<longleftrightarrow> (\<exists>c. p = Return c)"
  by (cases p) auto

text \<open>The hooks one after the other.\<close>

fun serve :: "env \<Rightarrow> job list \<Rightarrow> gateway \<Rightarrow> (ctx list \<times> gateway) option" where
  "serve env [] g = Some ([], g)"
| "serve env (j # js) g =
     Option.bind (job_hook env j g) (\<lambda>(c, g). map_option (\<lambda>(cs, g). (c # cs, g)) (serve env js g))"

section \<open>Deeds\<close>

datatype deed =
    Released u64 bool ctx
  | Added counter u64
  | Kept "u64 \<times> u64" turn_record
  | Offered turn_record

text \<open>What a program will have done and returned, by the stitcher it finds.\<close>

primrec outcome :: "env \<Rightarrow> capture_cap \<Rightarrow> prog \<Rightarrow> stitcher \<Rightarrow> (deed list \<times> ctx \<times> stitcher) option" where
  "outcome env cap (Return c) = (\<lambda>st. Some ([], c, st))"
| "outcome env cap (Release now b c p) = (\<lambda>st. map_option (apfst (Cons (Released now b c))) (outcome env cap p st))"
| "outcome env cap (Add n k p) = (\<lambda>st. map_option (apfst (Cons (Added n k))) (outcome env cap p st))"
| "outcome env cap (Assign a k) =
     (\<lambda>st. Option.bind (assign_call env a st) (\<lambda>(ans, st). outcome env cap (k ans) st))"
| "outcome env cap (Read_cap k) = (\<lambda>st. outcome env cap (k cap) st)"
| "outcome env cap (Keep lock r p) = (\<lambda>st. map_option (apfst (Cons (Kept lock r))) (outcome env cap p st))"
| "outcome env cap (Offer r p) = (\<lambda>st. map_option (apfst (Cons (Offered r))) (outcome env cap p st))"

primrec settled :: "prog \<Rightarrow> bool" where
  "settled (Return c) = True"
| "settled (Release now b c p) = settled p"
| "settled (Add n k p) = settled p"
| "settled (Assign a k) = False"
| "settled (Read_cap k) = (\<forall>cap. settled (k cap))"
| "settled (Keep lock r p) = settled p"
| "settled (Offer r p) = settled p"

primrec stitches_once :: "prog \<Rightarrow> bool" where
  "stitches_once (Return c) = True"
| "stitches_once (Release now b c p) = stitches_once p"
| "stitches_once (Add n k p) = stitches_once p"
| "stitches_once (Assign a k) = (\<forall>ans. settled (k ans))"
| "stitches_once (Read_cap k) = (\<forall>cap. stitches_once (k cap))"
| "stitches_once (Keep lock r p) = stitches_once p"
| "stitches_once (Offer r p) = stitches_once p"

text \<open>A program keeps at most one record, and offers the one it has kept next.\<close>

datatype filing = Not_filed | Owing turn_record | Filed

fun owing :: "filing \<Rightarrow> turn_record option" where
  "owing (Owing r) = Some r"
| "owing _ = None"

primrec files_once :: "prog \<Rightarrow> filing \<Rightarrow> bool" where
  "files_once (Return c) = (\<lambda>q. owing q = None)"
| "files_once (Release now b c p) = (\<lambda>q. owing q = None \<and> files_once p q)"
| "files_once (Add n k p) = (\<lambda>q. owing q = None \<and> files_once p q)"
| "files_once (Assign a k) = (\<lambda>q. owing q = None \<and> (\<forall>ans. files_once (k ans) q))"
| "files_once (Read_cap k) = (\<lambda>q. owing q = None \<and> (\<forall>cap. files_once (k cap) q))"
| "files_once (Keep lock r p) = (\<lambda>q. q = Not_filed \<and> files_once p (Owing r))"
| "files_once (Offer r p) = (\<lambda>q. q = Owing r \<and> files_once p Filed)"

lemma settled_add_if [simp]:
  "settled (add_if b n k p) = settled p" "stitches_once (add_if b n k p) = stitches_once p"
  "files_once (add_if b n k p) Not_filed = files_once p Not_filed"
  by (simp_all add: add_if_def)

lemma settled_once: "settled p \<Longrightarrow> stitches_once p"
  by (induction p) auto

lemma push_prog_shape [simp]: "settled (push_prog lock r c)" "files_once (push_prog lock r c) Not_filed"
  by (simp_all add: push_prog_def)

lemma finish_prog_shape: "settled (finish_prog env clk d p req c)" "files_once (finish_prog env clk d p req c) Not_filed"
  by (simp_all add: finish_prog_def Let_def split: prod.split option.split)

lemma settle_prog_shape:
  "(\<And>ts. settled (k ts)) \<Longrightarrow> stitches_once (settle_prog env rq clk tf k)"
  "(\<And>ts. files_once (k ts) Not_filed) \<Longrightarrow> files_once (settle_prog env rq clk tf k) Not_filed"
  by (auto simp: settle_prog_def Let_def settled_once split: option.split)

lemma gather_prog_shape:
  "(\<And>p req. settled (k p req)) \<Longrightarrow> stitches_once (gather_prog env rq clk d cc he c k)"
  "(\<And>p req. files_once (k p req) Not_filed) \<Longrightarrow> files_once (gather_prog env rq clk d cc he c k) Not_filed"
  unfolding gather_prog_def Let_def
  by (auto intro!: settle_prog_shape split: prod.split)

lemma job_prog_shape: "stitches_once (job_prog env off j)" "files_once (job_prog env off j) Not_filed"
  by (cases j; simp add: logging_prog_def record_prog_def ws_frame_prog_def Let_def settled_once
      finish_prog_shape gather_prog_shape split: prod.split option.split)+

lemma outcome_settled:
  "settled p \<Longrightarrow> \<exists>ds c. \<forall>st. outcome env cap p st = Some (ds, c, st)"
proof (induction p)
  case (Release now b c p)
  then obtain ds c' where "\<forall>st. outcome env cap p st = Some (ds, c', st)" by auto
  then show ?case by simp
next
  case (Add n k p)
  then obtain ds c' where "\<forall>st. outcome env cap p st = Some (ds, c', st)" by auto
  then show ?case by simp
next
  case (Read_cap k)
  then show ?case by simp
next
  case (Keep lock r p)
  then obtain ds c' where "\<forall>st. outcome env cap p st = Some (ds, c', st)" by auto
  then show ?case by simp
next
  case (Offer r p)
  then obtain ds c' where "\<forall>st. outcome env cap p st = Some (ds, c', st)" by auto
  then show ?case by simp
qed simp_all


section \<open>What deeds do to the components\<close>

fun count_deed :: "deed \<Rightarrow> gateway \<Rightarrow> gateway" where
  "count_deed (Released now b c) g = g\<lparr>gw_gauges := exit_request now b c (gw_gauges g)\<rparr>"
| "count_deed (Added n k) g = fetch_add n k g"
| "count_deed _ g = g"

definition kept :: "deed list \<Rightarrow> ((u64 \<times> u64) \<times> turn_record) list" where
  "kept = List.map_filter (\<lambda>d. case d of Kept lock r \<Rightarrow> Some (lock, r) | _ \<Rightarrow> None)"

definition offered :: "deed list \<Rightarrow> turn_record list" where
  "offered = List.map_filter (\<lambda>d. case d of Offered r \<Rightarrow> Some r | _ \<Rightarrow> None)"

definition keep_record :: "store \<Rightarrow> (u64 \<times> u64) \<times> turn_record \<Rightarrow> store option" where
  "keep_record s = (\<lambda>(lock, r). push (fst lock) (snd lock) r s)"

text \<open>The counters and gauges; what no deed changes.\<close>

definition tally :: "gateway \<Rightarrow> gauges \<times> u64 list" where
  "tally g = (gw_gauges g, [failed_frames g, turns_total g, loose_path_matches g, turns_with_session g,
     turns_with_harness g, hdr_evidence_dropped g])"

definition constants :: "gateway \<Rightarrow> bool \<times> string \<times> capture_cap \<times> nat" where
  "constants g = (gw_trace_off g, gw_listen g, gw_cap g, gw_worker_threads g)"

definition performed :: "deed list \<Rightarrow> gateway \<Rightarrow> gateway \<Rightarrow> bool" where
  "performed ds g g' \<longleftrightarrow> tally g' = tally (fold count_deed ds g)
     \<and> run keep_record (gw_store g) (kept ds) = Some (gw_store g') \<and> constants g' = constants g"

lemma kept_simps [simp]:
  "kept [] = []" "kept (Kept lock r # ds) = (lock, r) # kept ds" "kept (Released now b c # ds) = kept ds"
  "kept (Added n k # ds) = kept ds" "kept (Offered r # ds) = kept ds"
  "kept (ds @ ds') = kept ds @ kept ds'"
  by (simp_all add: kept_def List.map_filter_def)

lemma offered_simps [simp]:
  "offered [] = []" "offered (Kept lock r # ds) = offered ds" "offered (Released now b c # ds) = offered ds"
  "offered (Added n k # ds) = offered ds" "offered (Offered r # ds) = r # offered ds"
  "offered (ds @ ds') = offered ds @ offered ds'"
  by (simp_all add: offered_def List.map_filter_def)

lemma mset_map_filter: "mset (List.map_filter f xs) = image_mset (the \<circ> f) {#x \<in># mset xs. f x \<noteq> None#}"
  by (simp add: List.map_filter_def mset_filter)

lemma kept_mset: "mset ds = mset ds' \<Longrightarrow> mset (kept ds) = mset (kept ds')"
  by (simp add: kept_def mset_map_filter)

lemma offered_mset: "mset ds = mset ds' \<Longrightarrow> mset (offered ds) = mset (offered ds')"
  by (simp add: offered_def mset_map_filter)

lemma tally_count_cong: "tally g = tally h \<Longrightarrow> tally (count_deed d g) = tally (count_deed d h)"
proof (cases d)
  case (Added n k)
  then show "tally g = tally h \<Longrightarrow> tally (count_deed d g) = tally (count_deed d h)"
    by (cases n) (auto simp: tally_def)
qed (auto simp: tally_def)

lemma tally_fold_cong: "tally g = tally h \<Longrightarrow> tally (fold count_deed ds g) = tally (fold count_deed ds h)"
proof (induction ds arbitrary: g h)
  case (Cons d ds)
  from Cons.IH [OF tally_count_cong [OF Cons.prems]] show ?case by simp
qed simp

lemma performed_Nil [simp]: "performed [] g g"
  by (simp add: performed_def)

lemma performed_trans:
  assumes "performed ds g u" "performed ds' u g'"
  shows "performed (ds @ ds') g g'"
proof -
  have "tally (fold count_deed ds' u) = tally (fold count_deed ds' (fold count_deed ds g))"
    by (rule tally_fold_cong) (use assms(1) in \<open>simp add: performed_def\<close>)
  with assms show ?thesis by (simp add: performed_def run_append)
qed

text \<open>Counting is commutative: the gauges fall by one or saturate, the histograms and counters are
  sums.\<close>

lemma observe_commute: "observe a (observe b h) = observe b (observe a h)"
proof -
  have up: "xs[i := 1 + xs ! i, j := 1 + xs[i := 1 + xs ! i] ! j] =
      xs[j := 1 + xs ! j, i := 1 + xs[j := 1 + xs ! j] ! i]"
    if "i < length xs" "j < length xs" for xs :: "u64 list" and i j
    using that by (cases "i = j") (simp_all add: list_update_swap)
  show ?thesis
    by (auto simp: observe_def Let_def add.commute add.left_commute intro!: histogram.equality up split: option.split)
qed

definition observe_opt :: "u64 option \<Rightarrow> histogram \<Rightarrow> histogram" where
  "observe_opt ns h = (case ns of Some n \<Rightarrow> observe n h | None \<Rightarrow> h)"

lemma observe_opt_commute: "observe_opt a (observe_opt b h) = observe_opt b (observe_opt a h)"
  by (simp add: observe_opt_def observe_commute split: option.split)

lemma exit_shape:
  "\<exists>o1 o2 o3 o4. \<forall>g. exit_request now b c g = g\<lparr>g_inflight := sat_sub_u64 (g_inflight g) 1,
     g_awaiting := (if upstream_head_ns c = None then sat_sub_u64 (g_awaiting g) 1 else g_awaiting g),
     stage_wait_upstream := observe_opt o1 (stage_wait_upstream g),
     stage_time_to_first_byte := observe_opt o2 (stage_time_to_first_byte g),
     stage_delivery := observe_opt o3 (stage_delivery g),
     stage_finalize := observe_opt o4 (stage_finalize g)\<rparr>"
  by (rule exI [of _ "if b then map_option (\<lambda>h. sat_sub_u64 h (rt_start_ns c)) (upstream_head_ns c) else None"],
      rule exI [of _ "if b then map_option (\<lambda>f. sat_sub_u64 f (rt_start_ns c)) (first_output_ns c) else None"],
      rule exI [of _ "if b then Option.bind (upstream_head_ns c) (\<lambda>h. map_option (\<lambda>e. sat_sub_u64 e h) (body_end_ns c)) else None"],
      rule exI [of _ "if b then map_option (\<lambda>e. sat_sub_u64 now e) (body_end_ns c) else None"])
    (auto simp: exit_request_def observe_opt_def Let_def split: option.split)

lemma exit_commute:
  "exit_request n b c (exit_request m b' c' g) = exit_request m b' c' (exit_request n b c g)"
proof -
  have sub: "sat_sub_u64 (sat_sub_u64 x 1) 1 = sat_sub_u64 (sat_sub_u64 x 1) 1" for x ..
  obtain o1 o2 o3 o4 p1 p2 p3 p4 where
    "\<forall>g. exit_request n b c g = g\<lparr>g_inflight := sat_sub_u64 (g_inflight g) 1,
     g_awaiting := (if upstream_head_ns c = None then sat_sub_u64 (g_awaiting g) 1 else g_awaiting g),
     stage_wait_upstream := observe_opt o1 (stage_wait_upstream g),
     stage_time_to_first_byte := observe_opt o2 (stage_time_to_first_byte g),
     stage_delivery := observe_opt o3 (stage_delivery g),
     stage_finalize := observe_opt o4 (stage_finalize g)\<rparr>"
    "\<forall>g. exit_request m b' c' g = g\<lparr>g_inflight := sat_sub_u64 (g_inflight g) 1,
     g_awaiting := (if upstream_head_ns c' = None then sat_sub_u64 (g_awaiting g) 1 else g_awaiting g),
     stage_wait_upstream := observe_opt p1 (stage_wait_upstream g),
     stage_time_to_first_byte := observe_opt p2 (stage_time_to_first_byte g),
     stage_delivery := observe_opt p3 (stage_delivery g),
     stage_finalize := observe_opt p4 (stage_finalize g)\<rparr>"
    using exit_shape [of n b c] exit_shape [of m b' c'] by blast
  then show ?thesis
    by (simp add: observe_opt_commute [of o1] observe_opt_commute [of o2] observe_opt_commute [of o3]
        observe_opt_commute [of o4])
qed

lemma fetch_add_commute: "fetch_add n k (fetch_add m l g) = fetch_add m l (fetch_add n k g)"
  by (cases n; cases m; simp add: add.commute add.left_commute)

lemma fetch_add_gauges:
  "fetch_add n k (g\<lparr>gw_gauges := gs\<rparr>) = (fetch_add n k g)\<lparr>gw_gauges := gs\<rparr>"
  "gw_gauges (fetch_add n k g) = gw_gauges g"
  by (cases n; simp)+

lemma count_commute: "count_deed d \<circ> count_deed d' = count_deed d' \<circ> count_deed d"
proof
  fix g
  show "(count_deed d \<circ> count_deed d') g = (count_deed d' \<circ> count_deed d) g"
  proof (cases d)
    case (Released n b c)
    then show ?thesis
      by (cases d') (simp_all add: fetch_add_gauges exit_commute [of n b c])
  next
    case (Added n k)
    then show ?thesis
      by (cases d') (simp_all add: fetch_add_gauges fetch_add_commute [of n k])
  qed simp_all
qed

lemma fold_count_permuted: "mset ds = mset ds' \<Longrightarrow> fold count_deed ds = fold count_deed ds'"
  by (rule fold_multiset_equiv) (rule count_commute)


section \<open>One section\<close>

text \<open>What the deeds of a program amount to.\<close>

fun filed_state :: "deed list \<Rightarrow> filing \<Rightarrow> bool" where
  "filed_state ds Not_filed \<longleftrightarrow> kept ds = [] \<and> offered ds = []"
| "filed_state ds (Owing r) \<longleftrightarrow> map snd (kept ds) = [r] \<and> offered ds = []"
| "filed_state ds Filed \<longleftrightarrow> length (offered ds) = 1 \<and> map snd (kept ds) = offered ds"

definition on_file :: "prog \<Rightarrow> deed list \<Rightarrow> bool" where
  "on_file p ds \<longleftrightarrow> (\<exists>q. files_once p q \<and> filed_state ds q)"

lemma performed_section:
  "performed [Released now b c] g (g\<lparr>gw_gauges := exit_request now b c (gw_gauges g)\<rparr>)"
  "performed [Added n k] g (fetch_add n k g)"
  "push (fst lock) (snd lock) r (gw_store g) = Some s \<Longrightarrow> performed [Kept lock r] g (g\<lparr>gw_store := s\<rparr>)"
  "performed [Offered r] g (g\<lparr>gw_exporter := x\<rparr>)"
  by (simp_all add: performed_def constants_def tally_def keep_record_def) (cases n; simp)+

lemma fetch_add_frame [simp]:
  "gw_stitcher (fetch_add n k g) = gw_stitcher g" "gw_store (fetch_add n k g) = gw_store g"
  "gw_exporter (fetch_add n k g) = gw_exporter g" "gw_cap (fetch_add n k g) = gw_cap g"
  "gw_trace_off (fetch_add n k g) = gw_trace_off g"
  by (cases n; simp)+

lemma owing_filed:
  "filed_state (ds @ [Released now b c]) q = filed_state ds q" "filed_state (ds @ [Added n k]) q = filed_state ds q"
  by (cases q; simp)+

text \<open>A section either takes the answer of the stitcher or does at most one deed.\<close>

lemma section_cases:
  assumes "section_step env p g = Some (p', g')"
  obtains (deed) ds where "gw_stitcher g' = gw_stitcher g" "performed ds g g'"
      "gw_exporter g' = fold submit (offered ds) (gw_exporter g)"
      "\<And>st. outcome env (gw_cap g) p st = map_option (apfst (append ds)) (outcome env (gw_cap g) p' st)"
      "settled p \<Longrightarrow> settled p'" "stitches_once p \<Longrightarrow> stitches_once p'"
      "\<And>es. on_file p es \<Longrightarrow> on_file p' (es @ ds)"
  | (answer) a k ans where "p = Assign a k" "p' = k ans"
      "assign_call env a (gw_stitcher g) = Some (ans, gw_stitcher g')"
      "g' = g\<lparr>gw_stitcher := gw_stitcher g'\<rparr>"
proof (cases p)
  case (Return c)
  with assms show ?thesis by simp
next
  case (Release now b c q)
  with assms show ?thesis
    by (intro deed [of "[Released now b c]"])
      (auto simp: performed_section on_file_def apfst_def map_prod_def owing_filed)
next
  case (Add n k q)
  with assms show ?thesis
    by (intro deed [of "[Added n k]"])
      (auto simp: performed_section on_file_def apfst_def map_prod_def owing_filed)
next
  case (Assign a k)
  with assms obtain ans st where "assign_call env a (gw_stitcher g) = Some (ans, st)"
    "p' = k ans" "g' = g\<lparr>gw_stitcher := st\<rparr>" by auto
  with Assign show ?thesis by (intro answer) auto
next
  case (Read_cap k)
  with assms show ?thesis
    by (intro deed [of "[]"]) (auto simp: on_file_def apfst_def map_prod_def option.map_id)
next
  case (Keep lock r q)
  with assms obtain s where s: "push (fst lock) (snd lock) r (gw_store g) = Some s"
    "p' = q" "g' = g\<lparr>gw_store := s\<rparr>" by auto
  have onf: "on_file q (es @ [Kept lock r])" if "on_file (Keep lock r q) es" for es
    unfolding on_file_def by (rule exI [of _ "Owing r"]) (use that in \<open>auto simp: on_file_def\<close>)
  from Keep s onf show ?thesis
    by (intro deed [of "[Kept lock r]"]) (auto simp: performed_section apfst_def map_prod_def)
next
  case (Offer r q)
  have onf: "on_file q (es @ [Offered r])" if "on_file (Offer r q) es" for es
    unfolding on_file_def by (rule exI [of _ Filed]) (use that in \<open>auto simp: on_file_def\<close>)
  from Offer onf assms show ?thesis
    by (intro deed [of "[Offered r]"]) (auto simp: performed_section apfst_def map_prod_def)
qed

lemma performed_Cons:
  assumes "performed [d] g u" "gw_exporter u = fold submit (offered [d]) (gw_exporter g)"
    and "performed ds u g'" "gw_exporter g' = fold submit (offered ds) (gw_exporter u)"
  shows "performed (d # ds) g g' \<and> gw_exporter g' = fold submit (offered (d # ds)) (gw_exporter g)"
proof -
  have "offered (d # ds) = offered [d] @ offered ds" using offered_simps(6) [of "[d]" ds] by simp
  with performed_trans [OF assms(1,3)] assms(2,4) show ?thesis by simp
qed

text \<open>What a program does alone is its outcome.\<close>

lemma run_alone_outcome:
  "outcome env (gw_cap g) p (gw_stitcher g) = Some (ds, c, st) \<Longrightarrow>
     \<exists>g'. run_alone env p g = Some (c, g') \<and> gw_stitcher g' = st \<and> performed ds g g'
       \<and> gw_exporter g' = fold submit (offered ds) (gw_exporter g)"
proof (induction p arbitrary: g ds)
  case (Return x)
  then show ?case by simp
next
  case (Release now b x p)
  then obtain es where es: "ds = Released now b x # es" "outcome env (gw_cap g) p (gw_stitcher g) = Some (es, c, st)"
    by auto
  from Release.IH [of "g\<lparr>gw_gauges := exit_request now b x (gw_gauges g)\<rparr>" es] es(2)
    performed_Cons [OF performed_section(1)] es(1) show ?case by fastforce
next
  case (Add n k p)
  then obtain es where es: "ds = Added n k # es" "outcome env (gw_cap g) p (gw_stitcher g) = Some (es, c, st)"
    by auto
  from Add.IH [of "fetch_add n k g" es] es(2) performed_Cons [OF performed_section(2)] es(1)
  show ?case by fastforce
next
  case (Assign a k)
  then obtain ans st' where a: "assign_call env a (gw_stitcher g) = Some (ans, st')"
    "outcome env (gw_cap g) (k ans) st' = Some (ds, c, st)" by (auto split: Option.bind_splits)
  have fr: "performed ds (g\<lparr>gw_stitcher := st'\<rparr>) g' = performed ds g g'" for g'
    using tally_fold_cong [of "g\<lparr>gw_stitcher := st'\<rparr>" g ds]
    by (simp add: performed_def constants_def tally_def)
  from Assign.IH [of "k ans" "g\<lparr>gw_stitcher := st'\<rparr>" ds] a fr show ?case by simp
next
  case (Read_cap k)
  then show ?case by simp
next
  case (Keep lock r p)
  obtain s where s: "push (fst lock) (snd lock) r (gw_store g) = Some s" by (rule push_returns)
  from Keep.prems obtain es where es: "ds = Kept lock r # es"
    "outcome env (gw_cap g) p (gw_stitcher g) = Some (es, c, st)" by auto
  from Keep.IH [of "g\<lparr>gw_store := s\<rparr>" es] es(2) performed_Cons [OF performed_section(3) [OF s]] es(1) s
  show ?case by fastforce
next
  case (Offer r p)
  then obtain es where es: "ds = Offered r # es" "outcome env (gw_cap g) p (gw_stitcher g) = Some (es, c, st)"
    by auto
  from Offer.IH [of "g\<lparr>gw_exporter := submit r (gw_exporter g)\<rparr>" es] es(2)
    performed_Cons [OF performed_section(4)] es(1) show ?case by fastforce
qed


section \<open>What explains a run\<close>

definition mine :: "nat \<Rightarrow> (nat \<times> deed) list \<Rightarrow> deed list" where
  "mine i hist = map snd (filter (\<lambda>h. fst h = i) hist)"

text \<open>The outcomes of the programs of \<open>order\<close>, each from the stitcher the one before has left.\<close>

fun chain ::
  "env \<Rightarrow> capture_cap \<Rightarrow> prog list \<Rightarrow> nat list \<Rightarrow> stitcher \<Rightarrow> ((deed list \<times> ctx) list \<times> stitcher) option" where
  "chain env cap ps [] st = Some ([], st)"
| "chain env cap ps (i # is) st =
     Option.bind (outcome env cap (ps ! i) st)
       (\<lambda>(ds, c, st). map_option (apfst (Cons (ds, c))) (chain env cap ps is st))"

text \<open>\<open>order\<close>: the threads that have held the stitcher's lock; \<open>out\<close>: what each of them will have done
  in the end; \<open>hist\<close>: the deeds so far; \<open>evs\<close>: the history of the exporter.\<close>

definition committed :: "env \<Rightarrow> capture_cap \<Rightarrow> prog \<Rightarrow> deed list \<Rightarrow> deed list \<times> ctx \<Rightarrow> bool" where
  "committed env cap p done_so_far out \<longleftrightarrow> settled p
     \<and> (\<exists>ds. fst out = done_so_far @ ds \<and> (\<forall>st. outcome env cap p st = Some (ds, snd out, st)))"

definition pending :: "env \<Rightarrow> capture_cap \<Rightarrow> prog \<Rightarrow> deed list \<Rightarrow> prog \<Rightarrow> bool" where
  "pending env cap p0 done_so_far p \<longleftrightarrow> stitches_once p
     \<and> (\<forall>st. outcome env cap p0 st = map_option (apfst (append done_so_far)) (outcome env cap p st))"

definition accounted ::
  "env \<Rightarrow> capture_cap \<Rightarrow> prog list \<Rightarrow> nat list \<Rightarrow> (nat \<Rightarrow> deed list \<times> ctx) \<Rightarrow> (nat \<times> deed) list \<Rightarrow>
     prog list \<Rightarrow> bool" where
  "accounted env cap ps order out hist ts \<longleftrightarrow>
     (\<forall>i<length ps. if i \<in> set order then committed env cap (ts ! i) (mine i hist) (out i)
        else pending env cap (ps ! i) (mine i hist) (ts ! i))
     \<and> (\<forall>i<length ps. on_file (ts ! i) (mine i hist))"

definition explained ::
  "env \<Rightarrow> (bytes \<Rightarrow> string) \<Rightarrow> prog list \<Rightarrow> gateway \<Rightarrow> nat list \<Rightarrow> (nat \<Rightarrow> deed list \<times> ctx) \<Rightarrow>
     (nat \<times> deed) list \<Rightarrow> turn_record event list \<Rightarrow> overlap \<Rightarrow> bool" where
  "explained env b64 ps g0 order out hist evs s \<longleftrightarrow>
     length (ov_progs s) = length ps \<and> distinct order \<and> set order \<subseteq> {..<length ps}
   \<and> fst ` set hist \<subseteq> {..<length ps}
   \<and> chain env (gw_cap g0) ps order (gw_stitcher g0) = Some (map out order, gw_stitcher (ov_gateway s))
   \<and> accounted env (gw_cap g0) ps order out hist (ov_progs s)
   \<and> performed (map snd hist) g0 (ov_gateway s)
   \<and> run (pool_step b64) (gw_exporter g0) evs = Some (gw_exporter (ov_gateway s))
   \<and> submitted evs = offered (map snd hist) \<and> \<not> senders_gone (gw_exporter (ov_gateway s))"

lemma mine_append [simp]: "mine i [] = []" "mine i (h @ h') = mine i h @ mine i h'"
  "mine i (map (Pair j) ds) = (if i = j then ds else [])"
  by (simp_all add: mine_def filter_map comp_def)

lemma chain_append:
  "chain env cap ps (is @ js) st =
     Option.bind (chain env cap ps is st) (\<lambda>(os, st). map_option (apfst (append os)) (chain env cap ps js st))"
proof (induction "is" arbitrary: st)
  case Nil
  then show ?case by (simp add: option.map_id apfst_def map_prod_def)
next
  case (Cons i "is")
  show ?case
    by (cases "outcome env cap (ps ! i) st")
      (auto simp: Cons.IH option.map_comp comp_def apfst_def map_prod_def split_def split: Option.bind_splits)
qed

lemma fold_submit_senders: "senders_gone (fold submit rs x) = senders_gone x"
  by (induction rs arbitrary: x) (simp_all add: submit_def)

lemma run_submits:
  "\<not> senders_gone x \<Longrightarrow> run (pool_step b64) x (map Submit rs) = Some (fold submit rs x)"
proof (induction rs arbitrary: x)
  case (Cons r rs)
  have "\<not> senders_gone (submit r x)" using Cons.prems fold_submit_senders [of "[r]" x] by simp
  with Cons show ?case by simp
qed simp

lemma submitted_submits [simp]: "submitted (map Submit rs) = rs"
  by (induction rs) simp_all

lemma launch_explained:
  assumes "\<not> senders_gone (gw_exporter g)"
  shows "explained env b64 (ov_progs (launch env jobs g)) g [] out [] [] (launch env jobs g)"
proof -
  have "on_file (job_prog env off j) []" for off j
    unfolding on_file_def by (rule exI [of _ Not_filed]) (simp add: job_prog_shape)
  with assms show ?thesis
    by (auto simp: explained_def accounted_def launch_def pending_def job_prog_shape option.map_id
        apfst_def map_prod_def)
qed

lemma accounted_deeds:
  assumes acc: "accounted env cap ps order out hist ts" and i: "i < length ts" "i < length ps"
    and oc: "\<And>st. outcome env cap (ts ! i) st = map_option (apfst (append ds)) (outcome env cap p' st)"
    and shape: "settled (ts ! i) \<Longrightarrow> settled p'" "stitches_once (ts ! i) \<Longrightarrow> stitches_once p'"
    and onf: "on_file (ts ! i) (mine i hist) \<Longrightarrow> on_file p' (mine i hist @ ds)"
  shows "accounted env cap ps order out (hist @ map (Pair i) ds) (ts[i := p'])"
  unfolding accounted_def
proof (intro conjI allI impI)
  fix j
  assume j: "j < length ps"
  show "if j \<in> set order
      then committed env cap (ts[i := p'] ! j) (mine j (hist @ map (Pair i) ds)) (out j)
      else pending env cap (ps ! j) (mine j (hist @ map (Pair i) ds)) (ts[i := p'] ! j)"
  proof (cases "j = i")
    case False
    with acc j show ?thesis by (simp add: accounted_def)
  next
    case ji: True
    show ?thesis
    proof (cases "j \<in> set order")
      case True
      with acc j ji have "committed env cap (ts ! i) (mine i hist) (out i)" by (simp add: accounted_def)
      then obtain es where es: "settled (ts ! i)" "fst (out i) = mine i hist @ es"
        "\<forall>st. outcome env cap (ts ! i) st = Some (es, snd (out i), st)"
        by (auto simp: committed_def)
      from outcome_settled [OF shape(1) [OF es(1)]] obtain fs c where
        fs: "\<forall>st. outcome env cap p' st = Some (fs, c, st)" by blast
      with oc es(3) have "es = ds @ fs" "c = snd (out i)" by auto
      with es(2) fs shape(1) [OF es(1)] ji i True show ?thesis by (auto simp: committed_def)
    next
      case False
      with acc j ji have "pending env cap (ps ! i) (mine i hist) (ts ! i)" by (simp add: accounted_def)
      with oc shape(2) ji i False show ?thesis
        by (simp add: pending_def option.map_comp comp_def apfst_def map_prod_def split_def)
    qed
  qed
next
  fix j
  assume "j < length ps"
  with acc i onf show "on_file (ts[i := p'] ! j) (mine j (hist @ map (Pair i) ds))"
    by (auto simp: accounted_def nth_list_update)
qed

lemma accounted_answer:
  assumes acc: "accounted env cap ps order out hist ts" and i: "i < length ts" "i \<notin> set order"
    and c: "committed env cap p' (mine i hist) o'" "on_file p' (mine i hist)"
  shows "accounted env cap ps (order @ [i]) (out(i := o')) hist (ts[i := p'])"
  using assms by (auto simp: accounted_def nth_list_update)

lemma explained_section:
  assumes e: "explained env b64 ps g0 order out hist evs s"
    and st: "overlap_step env b64 s (Section i) = Some s'"
  shows "\<exists>order' out' hist' evs'. explained env b64 ps g0 order' out' hist' evs' s'"
proof -
  let ?g = "ov_gateway s" and ?g' = "ov_gateway s'"
  from st obtain p' where i: "i < length (ov_progs s)"
    and sec: "section_step env (ov_progs s ! i) ?g = Some (p', ?g')"
    and s': "ov_progs s' = (ov_progs s)[i := p']"
    by (auto split: if_splits)
  have cap: "gw_cap ?g = gw_cap g0" using e by (auto simp: explained_def performed_def constants_def)
  have ip: "i < length ps" and acc: "accounted env (gw_cap g0) ps order out hist (ov_progs s)"
    using e i by (simp_all add: explained_def)
  show ?thesis
  proof (cases rule: section_cases [OF sec])
    case (1 ds)
    note at = accounted_deeds [OF acc i ip 1(4) [unfolded cap] 1(5-7), folded s']
    have "performed (map snd hist @ ds) g0 ?g'"
      by (rule performed_trans [OF _ 1(2)]) (use e in \<open>simp add: explained_def\<close>)
    with e 1(1,3) at s' ip
    have "explained env b64 ps g0 order out (hist @ map (Pair i) ds) (evs @ map Submit (offered ds)) s'"
      by (auto simp: explained_def run_append run_submits fold_submit_senders comp_def)
    then show ?thesis by blast
  next
    case (2 a k ans)
    have "i \<notin> set order"
      using acc ip 2(1) by (auto simp: accounted_def committed_def split: if_splits)
    with acc ip have "pending env (gw_cap g0) (ps ! i) (mine i hist) (Assign a k)"
      unfolding accounted_def 2(1) [symmetric] by (simp split: if_splits)
    moreover obtain x y where "ans = (x, y)" by fastforce
    ultimately have set: "settled p'" and oc: "\<And>st. outcome env (gw_cap g0) (ps ! i) st =
        map_option (apfst (append (mine i hist))) (outcome env (gw_cap g0) (Assign a k) st)"
      using 2(2) by (auto simp: pending_def)
    from outcome_settled [OF set] obtain ds c where
      p': "\<And>st. outcome env (gw_cap g0) p' st = Some (ds, c, st)" by blast
    let ?out = "out(i := (mine i hist @ ds, c))"
    have "outcome env (gw_cap g0) (ps ! i) (gw_stitcher ?g) = Some (mine i hist @ ds, c, gw_stitcher ?g')"
      using oc p' 2(2,3) by simp
    then have ch: "chain env (gw_cap g0) ps (order @ [i]) (gw_stitcher g0) =
        Some (map ?out (order @ [i]), gw_stitcher ?g')"
      using e \<open>i \<notin> set order\<close> by (simp add: explained_def chain_append)
    have "committed env (gw_cap g0) p' (mine i hist) (mine i hist @ ds, c)"
      using set p' by (simp add: committed_def)
    moreover from acc ip have "on_file (ov_progs s ! i) (mine i hist)" by (simp add: accounted_def)
    then have "on_file p' (mine i hist)" unfolding 2(1,2) on_file_def by (cases ans) auto
    ultimately have at: "accounted env (gw_cap g0) ps (order @ [i]) ?out hist (ov_progs s')"
      using accounted_answer [OF acc i \<open>i \<notin> set order\<close>] s' by simp
    have fr: "gw_exporter ?g' = gw_exporter ?g" "performed (map snd hist) g0 ?g'"
      using e by (subst 2(4), simp add: explained_def performed_def tally_def constants_def)+
    have "explained env b64 ps g0 (order @ [i]) ?out hist evs s'"
      using e ch at fr ip \<open>i \<notin> set order\<close> s' by (simp add: explained_def)
    then show ?thesis by blast
  qed
qed

lemma explained_step:
  assumes e: "explained env b64 ps g0 order out hist evs s"
    and st: "overlap_step env b64 s ev = Some s'"
  shows "\<exists>order' out' hist' evs'. explained env b64 ps g0 order' out' hist' evs' s'"
proof (cases ev)
  case (Section i)
  with explained_section [OF e] st show ?thesis by simp
next
  case (Pool pe)
  with st obtain x where x: "batcher_event pe" "pool_step b64 (gw_exporter (ov_gateway s)) pe = Some x"
    and s': "s' = s\<lparr>ov_gateway := (ov_gateway s)\<lparr>gw_exporter := x\<rparr>\<rparr>"
    by (auto split: if_splits)
  have "senders_gone x = senders_gone (gw_exporter (ov_gateway s))"
    using pool_step_handle [OF x(2,1)] by (simp add: handle_def)
  moreover have "performed ds g0 (g\<lparr>gw_exporter := x\<rparr>) = performed ds g0 g" for ds g
    by (simp add: performed_def tally_def constants_def)
  ultimately have "explained env b64 ps g0 order out hist (evs @ [pe]) s'"
    using e x s' submitted_batcher [OF x(1)] by (simp add: explained_def run_append)
  then show ?thesis by blast
qed

lemma explained_run:
  "explained env b64 ps g0 order out hist evs s \<Longrightarrow> run (overlap_step env b64) s es = Some s' \<Longrightarrow>
     \<exists>order' out' hist' evs'. explained env b64 ps g0 order' out' hist' evs' s'"
proof (induction es arbitrary: s order out hist evs)
  case (Cons e es)
  from Cons.prems(2) obtain u where u: "overlap_step env b64 s e = Some u" "run (overlap_step env b64) u es = Some s'"
    by (auto split: Option.bind_splits)
  from explained_step [OF Cons.prems(1) u(1)] Cons.IH [OF _ u(2)] show ?case by blast
next
  case Nil
  then have "s' = s" by simp
  with Nil.prems(1) show ?case by blast
qed

end
