(* ===== verification/Overlap_Props.thy ===== *)
theory Overlap_Props
  imports Overlap
begin

text \<open>
  Hooks that overlap amount to hooks that follow one another, and hand each record once to the window
  and once to the exporter.
\<close>

section \<open>The order of the stitcher's lock\<close>

lemma chain_serves:
  assumes "chain env (gw_cap g) (map (job_prog env (gw_trace_off g)) jobs) is (gw_stitcher g) = Some (os, st)"
    and "set is \<subseteq> {..<length jobs}"
  shows "\<exists>g'. serve env (map ((!) jobs) is) g = Some (map snd os, g') \<and> gw_stitcher g' = st
     \<and> performed (concat (map fst os)) g g' \<and> gw_exporter g' = fold submit (offered (concat (map fst os))) (gw_exporter g)"
  using assms
proof (induction "is" arbitrary: g os)
  case Nil
  then show ?case by auto
next
  case (Cons i "is")
  let ?ps = "map (job_prog env (gw_trace_off g)) jobs"
  from Cons.prems obtain ds c u os' where
    o: "outcome env (gw_cap g) (job_prog env (gw_trace_off g) (jobs ! i)) (gw_stitcher g) = Some (ds, c, u)"
    and ch: "chain env (gw_cap g) ?ps is u = Some (os', st)" and os: "os = (ds, c) # os'"
    by (auto split: Option.bind_splits)
  from run_alone_outcome [OF o] obtain h where
    h: "job_hook env (jobs ! i) g = Some (c, h)" "gw_stitcher h = u" "performed ds g h"
      "gw_exporter h = fold submit (offered ds) (gw_exporter g)"
    by (auto simp: run_job_prog)
  then have "gw_cap h = gw_cap g" "gw_trace_off h = gw_trace_off g"
    by (auto simp: performed_def constants_def)
  with Cons.IH [of h os'] ch h(2) Cons.prems(2) obtain g' where
    g': "serve env (map ((!) jobs) is) h = Some (map snd os', g')" "gw_stitcher g' = st"
      "performed (concat (map fst os')) h g'"
      "gw_exporter g' = fold submit (offered (concat (map fst os'))) (gw_exporter h)"
    by auto
  with performed_trans [OF h(3) g'(3)] h(1,4) os show ?case by simp
qed

lemma mine_mset:
  assumes "distinct is" "fst ` set hist \<subseteq> set is"
  shows "mset (concat (map (\<lambda>i. mine i hist) is)) = mset (map snd hist)"
  using assms(2)
proof (induction hist)
  case Nil
  then show ?case by (simp add: mine_def)
next
  case (Cons h hist)
  have *: "mset (concat (map (\<lambda>i. mine i (h # hist)) js)) =
      (if fst h \<in> set js then {#snd h#} else {#}) + mset (concat (map (\<lambda>i. mine i hist) js))"
    if "distinct js" for js
    using that by (induction js) (auto simp: mine_def)
  from Cons * [OF assms(1)] show ?case by simp
qed

text \<open>The threads that never took an answer come last; then every thread has its place.\<close>

lemma explained_end:
  assumes e: "explained env b64 ps g0 order out hist evs s" and fin: "list_all returned (ov_progs s)"
  obtains full cs where "mset full = mset [0..<length ps]" "map ((!) (ov_progs s)) full = map Return cs"
    "chain env (gw_cap g0) ps full (gw_stitcher g0) =
       Some (zip (map (\<lambda>i. mine i hist) full) cs, gw_stitcher (ov_gateway s))"
proof -
  have len: "length (ov_progs s) = length ps" using e by (simp add: explained_def)
  have "\<forall>i<length ps. \<exists>c. ov_progs s ! i = Return c"
    using fin len by (simp add: list_all_length returned_iff)
  then obtain ct where ct: "\<And>i. i < length ps \<Longrightarrow> ov_progs s ! i = Return (ct i)"
    by (metis (no_types))
  have acc: "accounted env (gw_cap g0) ps order out hist (ov_progs s)" using e by (simp add: explained_def)
  have in_order: "out i = (mine i hist, ct i)" if "i \<in> set order" "i < length ps" for i
  proof -
    from acc that have "committed env (gw_cap g0) (ov_progs s ! i) (mine i hist) (out i)"
      by (simp add: accounted_def)
    with ct [OF that(2)] show ?thesis by (auto simp: committed_def prod_eq_iff)
  qed
  have late: "outcome env (gw_cap g0) (ps ! i) st = Some (mine i hist, ct i, st)"
    if "i \<notin> set order" "i < length ps" for i st
  proof -
    from acc that have "pending env (gw_cap g0) (ps ! i) (mine i hist) (ov_progs s ! i)"
      by (simp add: accounted_def)
    with ct [OF that(2)] show ?thesis by (simp add: pending_def)
  qed
  have tail: "chain env (gw_cap g0) ps js st = Some (map (\<lambda>i. (mine i hist, ct i)) js, st)"
    if "\<forall>j\<in>set js. j \<notin> set order \<and> j < length ps" for js st
    using that by (induction js) (simp_all add: late)
  let ?rest = "filter (\<lambda>i. i \<notin> set order) [0..<length ps]"
  let ?full = "order @ ?rest"
  have d: "distinct order" "set order \<subseteq> {..<length ps}" using e by (simp_all add: explained_def)
  have m: "mset ?full = mset [0..<length ps]"
    using d by (intro set_eq_iff_mset_eq_distinct [THEN iffD1]) auto
  have "map out order = map (\<lambda>i. (mine i hist, ct i)) order"
    using in_order d(2) by (auto intro!: map_cong)
  with e have "chain env (gw_cap g0) ps order (gw_stitcher g0) =
      Some (map (\<lambda>i. (mine i hist, ct i)) order, gw_stitcher (ov_gateway s))"
    by (simp add: explained_def)
  then have ch: "chain env (gw_cap g0) ps ?full (gw_stitcher g0) =
      Some (map (\<lambda>i. (mine i hist, ct i)) ?full, gw_stitcher (ov_gateway s))"
    using tail [of ?rest] by (simp add: chain_append)
  have z: "map (\<lambda>i. (mine i hist, ct i)) js = zip (map (\<lambda>i. mine i hist) js) (map ct js)" for js
    by (induction js) simp_all
  have r: "map ((!) (ov_progs s)) ?full = map Return (map ct ?full)"
    using ct d(2) by auto
  show ?thesis by (rule that [OF m r]) (use ch z in simp)
qed

section \<open>The records\<close>

lemma outcome_filed:
  "files_once p q \<Longrightarrow> outcome env cap p st = Some (ds, c, st') \<Longrightarrow> filed_state es q \<Longrightarrow>
     \<exists>q'. owing q' = None \<and> filed_state (es @ ds) q'"
proof (induction p arbitrary: st ds es q)
  case (Return x)
  then show ?case by auto
next
  case (Release now b x p)
  then obtain fs where fs: "ds = Released now b x # fs" "outcome env cap p st = Some (fs, c, st')"
    "files_once p q" by auto
  from Release.IH [OF fs(3,2), of "es @ [Released now b x]"] Release.prems(3) fs(1) show ?case
    by (simp add: owing_filed)
next
  case (Add n k p)
  then obtain fs where fs: "ds = Added n k # fs" "outcome env cap p st = Some (fs, c, st')"
    "files_once p q" by auto
  from Add.IH [OF fs(3,2), of "es @ [Added n k]"] Add.prems(3) fs(1) show ?case
    by (simp add: owing_filed)
next
  case (Assign a k)
  then obtain ans u where "outcome env cap (k ans) u = Some (ds, c, st')" "files_once (k ans) q"
    by (auto split: Option.bind_splits)
  with Assign.IH [of "k ans"] Assign.prems(3) show ?case by blast
next
  case (Read_cap k)
  with Read_cap.IH [of "k cap" q] show ?case by simp
next
  case (Keep lock r p)
  then obtain fs where fs: "ds = Kept lock r # fs" "outcome env cap p st = Some (fs, c, st')"
    "files_once p (Owing r)" by auto
  from Keep.IH [OF fs(3,2), of "es @ [Kept lock r]"] Keep.prems(1,3) fs(1) show ?case by auto
next
  case (Offer r p)
  then obtain fs where fs: "ds = Offered r # fs" "outcome env cap p st = Some (fs, c, st')"
    "files_once p Filed" by auto
  from Offer.IH [OF fs(3,2), of "es @ [Offered r]"] Offer.prems(1,3) fs(1) show ?case by auto
qed

lemma keep_record_push [simp]: "keep_record s ((w, h), r) = push w h r s"
  by (simp add: keep_record_def)

text \<open>Kept and offered in the same order, the records are pushed.\<close>

lemma pushed_kept:
  "run keep_record (gw_store g) ks = Some (gw_store g') \<Longrightarrow>
     gw_exporter g' = fold submit (map snd ks) (gw_exporter g) \<Longrightarrow> pushed (map snd ks) g g'"
proof (induction ks arbitrary: g)
  case Nil
  then show ?case by (simp add: unrecorded_def)
next
  case (Cons k ks)
  obtain w h r where k: "k = ((w, h), r)" by (metis surj_pair)
  with Cons.prems(1) obtain s where s: "push w h r (gw_store g) = Some s" "run keep_record s ks = Some (gw_store g')"
    by (auto split: Option.bind_splits)
  let ?u = "g\<lparr>gw_store := s, gw_exporter := submit r (gw_exporter g)\<rparr>"
  have "recorded r g ?u" using s(1) by (auto simp: recorded_def)
  moreover have "pushed (map snd ks) ?u g'" using Cons.IH [of ?u] s(2) Cons.prems(2) k by simp
  ultimately show ?case using k by auto
qed

lemma kept_window:
  "run keep_record s ks = Some s' \<Longrightarrow> \<exists>k \<le> length (deque s @ map snd ks).
     deque s' = drop k (deque s @ map snd ks) \<and> store.dropped s' = store.dropped s + of_nat k"
proof (induction ks arbitrary: s)
  case Nil
  then show ?case by auto
next
  case (Cons k ks)
  obtain w h r where k: "k = ((w, h), r)" by (metis surj_pair)
  with Cons.prems obtain t where t: "push w h r s = Some t" "run keep_record t ks = Some s'"
    by (auto split: Option.bind_splits)
  from push_window [OF t(1)] obtain m where m: "m \<le> length (deque s)" "deque t = drop m (deque s) @ [r]"
    "store.dropped t = store.dropped s + of_nat m" by blast
  from Cons.IH [OF t(2)] obtain n where n: "n \<le> length (deque t @ map snd ks)"
    "deque s' = drop n (deque t @ map snd ks)" "store.dropped s' = store.dropped t + of_nat n" by blast
  have "deque t @ map snd ks = drop m (deque s @ map snd (k # ks))" using m(1,2) k by simp
  with m n show ?case
    by (intro exI [of _ "m + n"]) (auto simp: add.commute)
qed


text \<open>A hook that has returned has kept what it has offered.\<close>

lemma settled_account:
  "owing q = None \<Longrightarrow> filed_state ds q \<Longrightarrow> map snd (kept ds) = offered ds \<and> length (offered ds) \<le> 1"
  by (cases q) auto

lemma concat_account:
  "\<forall>ds\<in>set dss. map snd (kept ds) = offered ds \<and> length (offered ds) \<le> 1 \<Longrightarrow>
     map snd (kept (concat dss)) = offered (concat dss) \<and> length (offered (concat dss)) \<le> length dss"
  by (induction dss) auto

text \<open>C2 Overlapping hooks amount to hooks one after the other. Any number of \<open>logging\<close> hooks and WebSocket
  frames run on threads of their own, each shared access a step, with the batcher in between. When
  all have returned there is an order of them, the order in which they held the stitcher's lock,
  such that the atomic hooks run in this order return the same contexts, leave the same stitcher
  and the same counters, gauges and histograms, and push the same records; at most one each. Window and queue have
  received exactly these records, each in an order of its own: the window holds the last of them
  and has counted the others as dropped, the exporter is in a state it reaches when it is offered
  exactly these.\<close>

theorem overlapping_hooks_serialise:
  assumes run: "run (overlap_step env b64) (launch env jobs g) es = Some s"
    and fin: "list_all returned (ov_progs s)" and open_: "\<not> senders_gone (gw_exporter g)"
  shows "\<exists>order cs g' rs kept_rs offered_rs k evs. mset order = mset [0..<length jobs]
     \<and> serve env (map ((!) jobs) order) g = Some (cs, g')
     \<and> map ((!) (ov_progs s)) order = map Return cs
     \<and> gw_stitcher (ov_gateway s) = gw_stitcher g' \<and> tally (ov_gateway s) = tally g'
     \<and> pushed rs g g' \<and> length rs \<le> length jobs
     \<and> mset kept_rs = mset rs \<and> mset offered_rs = mset rs
     \<and> k \<le> length (deque (gw_store g) @ kept_rs)
     \<and> deque (gw_store (ov_gateway s)) = drop k (deque (gw_store g) @ kept_rs)
     \<and> store.dropped (gw_store (ov_gateway s)) = store.dropped (gw_store g) + of_nat k
     \<and> run (pool_step b64) (gw_exporter g) evs = Some (gw_exporter (ov_gateway s))
     \<and> submitted evs = offered_rs"
proof -
  let ?ps = "map (job_prog env (gw_trace_off g)) jobs"
  have ps: "ov_progs (launch env jobs g) = ?ps" by (simp add: launch_def)
  from explained_run [OF launch_explained [OF open_] run] obtain order out hist evs where
    e: "explained env b64 ?ps g order out hist evs s" unfolding ps by blast
  from explained_end [OF e fin] obtain full cs where full: "mset full = mset [0..<length jobs]"
    "map ((!) (ov_progs s)) full = map Return cs"
    "chain env (gw_cap g) ?ps full (gw_stitcher g) =
       Some (zip (map (\<lambda>i. mine i hist) full) cs, gw_stitcher (ov_gateway s))" by auto
  have sub: "set full = {..<length jobs}" "distinct full"
    using full(1) by (metis atLeast_upt set_mset_mset, metis distinct_upt mset_eq_imp_distinct_iff)
  have len: "length cs = length full" using full(2) by (metis length_map)
  let ?dss = "map (\<lambda>i. mine i hist) full"
  from chain_serves [OF full(3)] sub(1) len obtain g' where
    g': "serve env (map ((!) jobs) full) g = Some (cs, g')" "gw_stitcher g' = gw_stitcher (ov_gateway s)"
      "performed (concat ?dss) g g'" "gw_exporter g' = fold submit (offered (concat ?dss)) (gw_exporter g)"
    by auto
  have perm: "mset (concat ?dss) = mset (map snd hist)"
    by (rule mine_mset) (use e sub in \<open>auto simp: explained_def\<close>)
  have "tally (ov_gateway s) = tally (fold count_deed (concat ?dss) g)"
    using e fold_count_permuted [OF perm] by (simp add: explained_def performed_def)
  then have tally: "tally (ov_gateway s) = tally g'" using g'(3) by (simp add: performed_def)
  have acct: "map snd (kept (concat ?dss)) = offered (concat ?dss) \<and> length (offered (concat ?dss)) \<le> length ?dss"
  proof (rule concat_account, rule ballI)
    fix ds assume "ds \<in> set ?dss"
    then obtain i where i: "i < length jobs" "ds = mine i hist" using sub(1) by auto
    with fin e have "returned (ov_progs s ! i)" by (simp add: explained_def list_all_length)
    moreover have "on_file (ov_progs s ! i) ds" using e i by (simp add: explained_def accounted_def)
    ultimately obtain q where "owing q = None" "filed_state ds q"
      by (auto simp: on_file_def returned_iff)
    then show "map snd (kept ds) = offered ds \<and> length (offered ds) \<le> 1" by (rule settled_account)
  qed
  have pushed: "pushed (offered (concat ?dss)) g g'"
    using pushed_kept [of g "kept (concat ?dss)" g'] g'(3,4) acct by (simp add: performed_def)
  from e have "run keep_record (gw_store g) (kept (map snd hist)) = Some (gw_store (ov_gateway s))"
    by (simp add: explained_def performed_def)
  from kept_window [OF this] obtain k where k: "k \<le> length (deque (gw_store g) @ map snd (kept (map snd hist)))"
    "deque (gw_store (ov_gateway s)) = drop k (deque (gw_store g) @ map snd (kept (map snd hist)))"
    "store.dropped (gw_store (ov_gateway s)) = store.dropped (gw_store g) + of_nat k" by blast
  have "mset (map snd (kept (map snd hist))) = mset (offered (concat ?dss))"
    using kept_mset [OF perm] acct by (metis mset_map)
  moreover have "mset (offered (map snd hist)) = mset (offered (concat ?dss))"
    using offered_mset [OF perm] by simp
  moreover have "length (offered (concat ?dss)) \<le> length jobs"
    using acct full(1) by (metis length_map length_upt minus_nat.diff_0 mset_eq_length)
  moreover have "run (pool_step b64) (gw_exporter g) evs = Some (gw_exporter (ov_gateway s))"
    "submitted evs = offered (map snd hist)" using e by (simp_all add: explained_def)
  ultimately show ?thesis
    using full(1,2) g'(1,2) tally pushed k by metis
qed


text \<open>Two requests whose hooks overlap, with capture off: the first is kept first and offered last.\<close>

definition overlap_jobs :: "job list" where
  "overlap_jobs = [Log_job demo_request demo_clock None (new_ctx drain_snapshot 1),
     Log_job demo_request demo_clock None (new_ctx drain_snapshot 2)]"

definition overlap_gateway :: gateway where
  "overlap_gateway = demo_gateway\<lparr>gw_trace_off := True, gw_exporter := the (start demo_b64 ''http://h'' 2 1 0)\<rparr>"

definition overlap_schedule :: "ov_event list" where
  "overlap_schedule = [Section 0, Section 0, Section 0, Section 1, Section 1, Section 1, Section 1, Section 0]"

definition shell :: "u64 \<Rightarrow> turn_record" where
  "shell at = shell_record (d_name (anthropic_descriptor (\<lambda>_. []))) False None
     ((new_ctx drain_snapshot at)\<lparr>rt_end_ns := 9\<rparr>)"

lemma shell_prog:
  "logging_prog demo_env True demo_request demo_clock None (new_ctx drain_snapshot at) =
     Release 9 True (new_ctx drain_snapshot at) (Add Turns_total 1
       (push_prog (0, 0) (shell at) ((new_ctx drain_snapshot at)\<lparr>rt_end_ns := 9\<rparr>)))"
proof -
  have "detect_path (env_render demo_env) (rq_path demo_request) =
      Some \<lparr>pm_descriptor = anthropic_descriptor (\<lambda>_. []), loose = False\<rparr>"
    using demo_turn [of "new_ctx drain_snapshot at"] by (simp add: turn_of_def split: option.splits if_splits)
  moreover have "session_verdict None (new_ctx drain_snapshot at) = (False, None)"
    by (simp add: session_verdict_def new_ctx_def Let_def)
  ultimately show ?thesis
    by (simp add: logging_prog_def record_prog_def detect_path_fail_open_def add_if_def Let_def
        demo_clock_def shell_def)
qed

lemma push_roomy:
  "\<not> over_budget (estimate r) s \<Longrightarrow> push 0 0 r s =
     Some (s\<lparr>estimated_bytes := sat_add (estimated_bytes s) (estimate r), deque := deque s @ [r]\<rparr>)"
  by (simp add: push_def Let_def while_option_unfold)

lemma overlap_demo:
  "\<exists>s. run (overlap_step demo_env demo_b64) (launch demo_env overlap_jobs overlap_gateway) overlap_schedule = Some s
     \<and> list_all returned (ov_progs s) \<and> deque (gw_store (ov_gateway s)) = [shell 1, shell 2]
     \<and> tx_queue (gw_exporter (ov_gateway s)) = [shell 2, shell 1]"
proof -
  have e: "estimate (shell at) = 0" for at
    by (simp add: estimate_def shell_def shell_record_def default_turn_def)
  show ?thesis
    by (simp add: launch_def overlap_jobs_def overlap_gateway_def overlap_schedule_def shell_prog push_prog_def
        demo_gateway_def push_roomy over_budget_def with_caps_def e sat_add_def start_def demo_build
        submit_def QUEUE_CAPACITY_def)
qed


text \<open>The window then shows the turns in the one order, the export queue in the other.\<close>

theorem overlapping_hooks_serialise_witness:
  "\<exists>s order cs g'. run (overlap_step demo_env demo_b64) (launch demo_env overlap_jobs overlap_gateway) overlap_schedule = Some s
     \<and> mset order = mset [0..<2] \<and> serve demo_env (map ((!) overlap_jobs) order) overlap_gateway = Some (cs, g')
     \<and> tally (ov_gateway s) = tally g'
     \<and> deque (gw_store (ov_gateway s)) = [shell 1, shell 2]
     \<and> tx_queue (gw_exporter (ov_gateway s)) = [shell 2, shell 1]"
proof -
  obtain s where s: "run (overlap_step demo_env demo_b64) (launch demo_env overlap_jobs overlap_gateway) overlap_schedule = Some s"
    "list_all returned (ov_progs s)" "deque (gw_store (ov_gateway s)) = [shell 1, shell 2]"
    "tx_queue (gw_exporter (ov_gateway s)) = [shell 2, shell 1]" using overlap_demo by blast
  have "\<not> senders_gone (gw_exporter overlap_gateway)"
    by (simp add: overlap_gateway_def start_def demo_build)
  from overlapping_hooks_serialise [OF s(1,2) this] obtain order cs g' where
    "mset order = mset [0..<length overlap_jobs]"
    "serve demo_env (map ((!) overlap_jobs) order) overlap_gateway = Some (cs, g')"
    "tally (ov_gateway s) = tally g'" by blast
  moreover have "length overlap_jobs = 2" by (simp add: overlap_jobs_def)
  ultimately have "mset order = mset [0..<2]" by simp
  with \<open>serve _ _ _ = _\<close> \<open>tally _ = _\<close> s show ?thesis by blast
qed

section \<open>At any moment\<close>

text \<open>The record a hook has kept and not yet offered.\<close>

definition in_between :: "prog \<Rightarrow> turn_record option" where
  "in_between p = (case p of Offer r q \<Rightarrow> Some r | _ \<Rightarrow> None)"

lemma files_once_owing: "files_once p q \<Longrightarrow> owing q = in_between p"
  by (cases p) (auto simp: in_between_def)

lemma on_file_account:
  assumes "on_file p ds"
  shows "map snd (kept ds) = offered ds @ (case in_between p of Some r \<Rightarrow> [r] | None \<Rightarrow> [])
    \<and> length (kept ds) \<le> 1"
proof -
  from assms obtain q where q: "files_once p q" "filed_state ds q" by (auto simp: on_file_def)
  have "length (kept ds) = length (map snd (kept ds))" by simp
  with files_once_owing [OF q(1), symmetric] q(2) show ?thesis by (cases q) auto
qed

lemma threads_account:
  "\<forall>i\<in>set is. on_file (ts ! i) (mine i hist) \<Longrightarrow>
     mset (map snd (kept (concat (map (\<lambda>i. mine i hist) is)))) =
       mset (offered (concat (map (\<lambda>i. mine i hist) is))) + mset (List.map_filter in_between (map ((!) ts) is))
     \<and> length (kept (concat (map (\<lambda>i. mine i hist) is))) \<le> length is"
proof (induction "is")
  case Nil
  then show ?case by (simp add: List.map_filter_def)
next
  case (Cons i "is")
  from Cons.prems have "on_file (ts ! i) (mine i hist)" by simp
  from on_file_account [OF this] Cons show ?case
    by (auto simp: List.map_filter_def split: option.splits)
qed

text \<open>C3 At every moment of a run of overlapping hooks, window and exporter have been handed the same
  records, but for those of the hooks that stand between the two, which the window has; a hook
  hands over at most one.\<close>

theorem overlap_records_accounted:
  assumes run: "run (overlap_step env b64) (launch env jobs g) es = Some s"
    and open_: "\<not> senders_gone (gw_exporter g)"
  shows "\<exists>rs evs k. k \<le> length (deque (gw_store g) @ rs)
     \<and> deque (gw_store (ov_gateway s)) = drop k (deque (gw_store g) @ rs)
     \<and> store.dropped (gw_store (ov_gateway s)) = store.dropped (gw_store g) + of_nat k
     \<and> run (pool_step b64) (gw_exporter g) evs = Some (gw_exporter (ov_gateway s))
     \<and> mset rs = mset (submitted evs) + mset (List.map_filter in_between (ov_progs s))
     \<and> length rs \<le> length jobs"
proof -
  let ?ps = "map (job_prog env (gw_trace_off g)) jobs"
  have ps: "ov_progs (launch env jobs g) = ?ps" by (simp add: launch_def)
  from explained_run [OF launch_explained [OF open_] run] obtain order out hist evs where
    e: "explained env b64 ?ps g order out hist evs s" unfolding ps by blast
  let ?is = "[0..<length jobs]" and ?ks = "kept (map snd hist)"
  have len: "length (ov_progs s) = length jobs" using e by (simp add: explained_def)
  have perm: "mset (concat (map (\<lambda>i. mine i hist) ?is)) = mset (map snd hist)"
    by (rule mine_mset) (use e in \<open>auto simp: explained_def lessThan_atLeast0\<close>)
  have "\<forall>i\<in>set ?is. on_file (ov_progs s ! i) (mine i hist)"
    using e by (simp add: explained_def accounted_def)
  from threads_account [OF this] len have acct:
    "mset (map snd (kept (concat (map (\<lambda>i. mine i hist) ?is)))) =
       mset (offered (concat (map (\<lambda>i. mine i hist) ?is))) + mset (List.map_filter in_between (ov_progs s))"
    "length (kept (concat (map (\<lambda>i. mine i hist) ?is))) \<le> length jobs"
    using map_nth [of "ov_progs s"] by auto
  have ks: "mset (map snd ?ks) = mset (offered (map snd hist)) + mset (List.map_filter in_between (ov_progs s))"
    using acct(1) offered_mset [OF perm] kept_mset [OF perm] by (metis mset_map)
  have "length (map snd ?ks) \<le> length jobs"
    using acct(2) kept_mset [OF perm] by (metis length_map mset_eq_length)
  moreover from e have "run keep_record (gw_store g) ?ks = Some (gw_store (ov_gateway s))"
    by (simp add: explained_def performed_def)
  note kept_window [OF this]
  moreover have "run (pool_step b64) (gw_exporter g) evs = Some (gw_exporter (ov_gateway s))"
    "submitted evs = offered (map snd hist)" using e by (simp_all add: explained_def)
  ultimately show ?thesis using ks by metis
qed


theorem overlap_records_accounted_witness:
  "\<exists>s rs evs. run (overlap_step demo_env demo_b64) (launch demo_env overlap_jobs overlap_gateway)
       (take 7 overlap_schedule) = Some s
     \<and> List.map_filter in_between (ov_progs s) = [shell 1]
     \<and> mset rs = mset (submitted evs) + {#shell 1#} \<and> length rs \<le> 2"
proof -
  have e: "estimate (shell at) = 0" for at
    by (simp add: estimate_def shell_def shell_record_def default_turn_def)
  have "\<exists>s. run (overlap_step demo_env demo_b64) (launch demo_env overlap_jobs overlap_gateway)
       (take 7 overlap_schedule) = Some s \<and> List.map_filter in_between (ov_progs s) = [shell 1]"
    by (simp add: launch_def overlap_jobs_def overlap_gateway_def overlap_schedule_def shell_prog push_prog_def
        demo_gateway_def push_roomy over_budget_def with_caps_def e sat_add_def start_def demo_build
        submit_def QUEUE_CAPACITY_def in_between_def List.map_filter_def)
  then obtain s where s: "run (overlap_step demo_env demo_b64) (launch demo_env overlap_jobs overlap_gateway)
       (take 7 overlap_schedule) = Some s" "List.map_filter in_between (ov_progs s) = [shell 1]" by blast
  have "\<not> senders_gone (gw_exporter overlap_gateway)"
    by (simp add: overlap_gateway_def start_def demo_build)
  from overlap_records_accounted [OF s(1) this] s(2) obtain rs evs where
    "mset rs = mset (submitted evs) + mset [shell 1]" "length rs \<le> length overlap_jobs" by metis
  then have "mset rs = mset (submitted evs) + {#shell 1#} \<and> length rs \<le> 2" by (simp add: overlap_jobs_def)
  with s show ?thesis by blast
qed

section \<open>No hook blocks another\<close>

definition can_return :: "env \<Rightarrow> (bytes \<Rightarrow> string) \<Rightarrow> nat \<Rightarrow> gateway \<Rightarrow> prog list \<Rightarrow> bool" where
  "can_return env b64 i g ts \<longleftrightarrow>
     (\<exists>n g' c. run (overlap_step env b64) \<lparr>ov_gateway = g, ov_progs = ts\<rparr> (replicate n (Section i)) =
        Some \<lparr>ov_gateway = g', ov_progs = ts[i := Return c]\<rparr> \<and> stitcher_ok (gw_stitcher g'))"

lemma can_return_step:
  assumes "section_step env (ts ! i) g = Some (p', g1)" "i < length ts" "can_return env b64 i g1 (ts[i := p'])"
  shows "can_return env b64 i g ts"
proof -
  from assms(3) obtain n g' c where "run (overlap_step env b64) \<lparr>ov_gateway = g1, ov_progs = ts[i := p']\<rparr>
      (replicate n (Section i)) = Some \<lparr>ov_gateway = g', ov_progs = ts[i := Return c]\<rparr>"
    "stitcher_ok (gw_stitcher g')" by (auto simp: can_return_def)
  with assms(1,2) have "run (overlap_step env b64) \<lparr>ov_gateway = g, ov_progs = ts\<rparr>
      (replicate (Suc n) (Section i)) = Some \<lparr>ov_gateway = g', ov_progs = ts[i := Return c]\<rparr>" by simp
  with \<open>stitcher_ok _\<close> show ?thesis unfolding can_return_def by blast
qed

lemma prog_can_return:
  "stitcher_ok (gw_stitcher g) \<Longrightarrow> i < length ts \<Longrightarrow> ts ! i = p \<Longrightarrow> can_return env b64 i g ts"
proof (induction p arbitrary: g ts)
  case (Return c)
  then have "ts[i := Return c] = ts" by (metis list_update_id)
  with Return show ?case
    unfolding can_return_def by (intro exI [of _ 0] exI [of _ g] exI [of _ c]) simp
next
  case (Assign a k)
  obtain ans st where a: "assign_call env a (gw_stitcher g) = Some (ans, st)" "stitcher_ok st"
    unfolding assign_call_def by (rule assign_session_spec [OF Assign.prems(1)])
  have "can_return env b64 i (g\<lparr>gw_stitcher := st\<rparr>) (ts[i := k ans])"
    by (rule Assign.IH [of "k ans"]) (use Assign.prems a in simp_all)
  with Assign.prems a show ?case by (intro can_return_step [of env ts i g "k ans"]) auto
next
  case (Keep lock r p)
  obtain s where "push (fst lock) (snd lock) r (gw_store g) = Some s" by (rule push_returns)
  with Keep show ?case by (intro can_return_step [of env ts i g p]) auto
next
  case (Release now b c p)
  then show ?case by (intro can_return_step [of env ts i g p]) auto
next
  case (Add n k p)
  then show ?case by (intro can_return_step [of env ts i g p]) auto
next
  case (Read_cap k)
  have "can_return env b64 i g (ts[i := k (gw_cap g)])"
    by (rule Read_cap.IH [of "k (gw_cap g)"]) (use Read_cap.prems in simp_all)
  with Read_cap.prems show ?case by (intro can_return_step [of env ts i g "k (gw_cap g)"]) auto
next
  case (Offer r p)
  then show ?case by (intro can_return_step [of env ts i g p]) auto
qed

text \<open>However hooks overlap, those still at work can all return: whoever holds a lock gives it back,
  and no eviction runs on.\<close>

lemma overlap_can_finish:
  assumes "stitcher_ok (gw_stitcher (ov_gateway s))"
  shows "\<exists>es s'. run (overlap_step env b64) s es = Some s' \<and> list_all returned (ov_progs s')"
proof -
  have "\<exists>es s'. run (overlap_step env b64) s es = Some s' \<and> length (ov_progs s') = length (ov_progs s)
      \<and> list_all returned (take m (ov_progs s')) \<and> stitcher_ok (gw_stitcher (ov_gateway s'))"
    if "m \<le> length (ov_progs s)" for m
    using that
  proof (induction m)
    case 0
    with assms show ?case by (intro exI [of _ "[]"]) simp
  next
    case (Suc m)
    then obtain es u where u: "run (overlap_step env b64) s es = Some u" "length (ov_progs u) = length (ov_progs s)"
      "list_all returned (take m (ov_progs u))" "stitcher_ok (gw_stitcher (ov_gateway u))" by auto
    have "can_return env b64 m (ov_gateway u) (ov_progs u)"
      by (rule prog_can_return [OF u(4) _ refl]) (use u(2) Suc.prems in simp)
    moreover have "\<lparr>ov_gateway = ov_gateway u, ov_progs = ov_progs u\<rparr> = u" by simp
    ultimately obtain n g' c where
      n: "run (overlap_step env b64) u (replicate n (Section m)) =
          Some \<lparr>ov_gateway = g', ov_progs = (ov_progs u)[m := Return c]\<rparr>" "stitcher_ok (gw_stitcher g')"
      by (auto simp: can_return_def)
    have "take (Suc m) ((ov_progs u)[m := Return c]) = take m (ov_progs u) @ [Return c]"
      using u(2) Suc.prems by (simp add: take_Suc_conv_app_nth)
    with u n show ?case
      by (intro exI [of _ "es @ replicate n (Section m)"]) (simp add: run_append)
  qed
  from this [of "length (ov_progs s)"] show ?thesis by (metis order_refl take_all)
qed

end
