(* ===== verification/Reload_Sections.thy ===== *)
theory Reload_Sections
  imports Sections
begin

text \<open>
  A reload cut where another thread may come between (\<open>ConfigStore::reload\<close>, \<open>HotApply::apply\<close>,
  \<open>Exporter::apply_target\<close>): the write of the snapshot and every store to a component is a section of
  its own. The reload service runs one reload after the other; the sections of requests and the
  batcher come in between. What other callers of \<open>reload\<close> can do to each other is shown at the end.
\<close>

section \<open>The sections of a reload\<close>

datatype reload_pc =
    Idle
  | Loading "config_error + loaded" nat      \<comment> \<open>what the file holds, the clock\<close>
  | Swapping snapshot
  | Seeding_cap config
  | Seeding_window config
  | Seeding_capacity config
  | Seeding_ttl config
  | Seeding_target config
  | Seeding_enabled config bool
  | Seeding_width config
  | Seeding_delta config u64
  | Hook_panicked config

definition next_snapshot :: "nat \<Rightarrow> loaded \<Rightarrow> 'w config_store \<Rightarrow> snapshot" where
  "next_snapshot now_ms l cs =
     \<lparr>sn_cfg = ld_config l, sn_sha256 = ld_sha256 l,
      sn_generation = sat_add_u64 (sn_generation (inner cs)) 1, sn_loaded_at_ms = now_ms,
      sn_path = ld_path l,
      sn_restart_required = snd (diff (sn_cfg (inner cs)) (ld_config l) (structural cs))\<rparr>"

text \<open>The new target with its client: the write section of \<open>apply_target\<close>.\<close>

definition swap_target :: "flush_target option \<Rightarrow> 'r exporter \<Rightarrow> 'r exporter" where
  "swap_target new x =
     (if target_changed (target x) new then x\<lparr>target := new, client := client x + 1\<rparr> else x)"

fun reload_section ::
  "(bytes \<Rightarrow> string) \<Rightarrow> reload_pc \<Rightarrow> 'w config_store \<times> gateway \<Rightarrow> (reload_pc \<times> 'w config_store \<times> gateway) option" where
  "reload_section b64 Idle (cs, g) = None"
| "reload_section b64 (Loading outcome now_ms) (cs, g) =
     (case outcome of
        Inl err \<Rightarrow> Some (Idle, cs\<lparr>reload_failures := reload_failures cs + 1\<rparr>, g)
      | Inr l \<Rightarrow> Some (Swapping (next_snapshot now_ms l cs), cs, g))"
| "reload_section b64 (Swapping sn) (cs, g) =
     Some (if on_reload cs = None then Idle else Seeding_cap (sn_cfg sn), cs\<lparr>inner := sn\<rparr>, g)"
| "reload_section b64 (Seeding_cap cfg) (cs, g) =
     Some (Seeding_window cfg, cs,
       g\<lparr>gw_cap := set_max (min (unat (capture_max_bytes (c_capture cfg))) usize_max) (gw_cap g)\<rparr>)"
| "reload_section b64 (Seeding_window cfg) (cs, g) =
     Some (Seeding_capacity cfg, cs,
       g\<lparr>gw_store := set_caps (store_max_records (c_store cfg)) (store_max_bytes (c_store cfg)) (gw_store g)\<rparr>)"
| "reload_section b64 (Seeding_capacity cfg) (cs, g) =
     Some (Seeding_ttl cfg, cs,
       g\<lparr>gw_stitcher := (gw_stitcher g)\<lparr>st_capacity := at_least_1 (stitch_capacity (c_stitch cfg))\<rparr>\<rparr>)"
| "reload_section b64 (Seeding_ttl cfg) (cs, g) =
     Some (Seeding_target cfg, cs,
       g\<lparr>gw_stitcher := (gw_stitcher g)\<lparr>st_ttl_ms := at_least_1 (stitch_ttl_ms (c_stitch cfg))\<rparr>\<rparr>)"
| "reload_section b64 (Seeding_target cfg) (cs, g) =
     (case build_target b64 (otlp_endpoint (c_export cfg)) of
        None \<Rightarrow> Some (Hook_panicked cfg, cs, g)
      | Some new \<Rightarrow>
          let x = swap_target new (gw_exporter g)
          in Some (Seeding_enabled cfg (target x \<noteq> None), cs, g\<lparr>gw_exporter := x\<rparr>))"
| "reload_section b64 (Seeding_enabled cfg b) (cs, g) =
     Some (Seeding_width cfg, cs, g\<lparr>gw_exporter := (gw_exporter g)\<lparr>enabled := b\<rparr>\<rparr>)"
| "reload_section b64 (Seeding_width cfg) (cs, g) =
     (let new_width = max (max_inflight (c_export cfg)) 1; old_width = width (gw_exporter g)
      in Some (Seeding_delta cfg (new_width - old_width), cs,
           g\<lparr>gw_exporter := (gw_exporter g)\<lparr>width := new_width\<rparr>\<rparr>))"
| "reload_section b64 (Seeding_delta cfg delta) (cs, g) =
     Some (Idle, cs, g\<lparr>gw_exporter := (gw_exporter g)\<lparr>sema_delta := sema_delta (gw_exporter g) + delta\<rparr>\<rparr>)"
| "reload_section b64 (Hook_panicked cfg) (cs, g) = None"

text \<open>All sections with nothing in between; a reload has at most ten.\<close>

fun reload_sections ::
  "(bytes \<Rightarrow> string) \<Rightarrow> nat \<Rightarrow> reload_pc \<times> 'w config_store \<times> gateway \<Rightarrow> reload_pc \<times> 'w config_store \<times> gateway" where
  "reload_sections b64 0 s = s"
| "reload_sections b64 (Suc n) s =
     (case reload_section b64 (fst s) (snd s) of None \<Rightarrow> s | Some t \<Rightarrow> reload_sections b64 n t)"

lemma exporter_swaps:
  assumes "build_target b64 ep = Some new"
  shows "apply_target b64 ep n x =
    (let y = swap_target new x; b = (target y \<noteq> None); w = max n 1
     in Some (y\<lparr>enabled := b, width := w, sema_delta := sema_delta x + (w - width x)\<rparr>))"
  using assms by (simp add: apply_target_def swap_target_def Let_def)

text \<open>Uninterrupted, the sections are \<open>reload\<close> with the hook of \<open>Startup\<close>.\<close>

lemma reload_alone:
  assumes "on_reload cs = Some (\<lambda>cfg w. Option.bind w (hot_apply b64 cfg))"
    and "case outcome of Inr l \<Rightarrow> hot_apply b64 (ld_config l) g \<noteq> None | Inl err \<Rightarrow> True"
  shows "\<exists>g'. reload_sections b64 10 (Loading outcome now_ms, cs, g) = (Idle, fst (sighup (\<lambda>_. outcome) now_ms el (cs, Some g)), g')
    \<and> snd (sighup (\<lambda>_. outcome) now_ms el (cs, Some g)) = Some g'"
proof (cases outcome)
  case (Inl err)
  then show ?thesis by (simp add: eval_nat_numeral sighup_def reload_def Let_def)
next
  case (Inr l)
  let ?ep = "otlp_endpoint (c_export (ld_config l))"
  from assms(2) Inr obtain new where new: "build_target b64 ?ep = Some new"
    by (auto simp: hot_apply_def apply_target_def Let_def)
  have y: "sema_delta (swap_target new x) = sema_delta x" "width (swap_target new x) = width x"
    for x :: "turn_record exporter"
    by (simp_all add: swap_target_def)
  show ?thesis
    using assms(1) Inr new
    by (simp add: eval_nat_numeral sighup_def reload_def next_snapshot_def hot_apply_def exporter_swaps y
        set_limits_def Let_def split: prod.split)
qed


section \<open>Reloads among requests\<close>

text \<open>\<open>rl_pcs\<close>: the callers of \<open>reload\<close>. The running gateway has one, the reload service.\<close>

record reloading =
  rl_store :: "gateway option config_store"
  rl_gateway :: gateway
  rl_pcs :: "reload_pc list"

datatype reload_event =
    Hangup nat "config_error + loaded" nat
  | Next_section nat
  | Hook_section prog                       \<comment> \<open>a section of any request's hook\<close>
  | Pool_event "turn_record event"

fun reload_step :: "env \<Rightarrow> (bytes \<Rightarrow> string) \<Rightarrow> reloading \<Rightarrow> reload_event \<Rightarrow> reloading option" where
  "reload_step env b64 s (Hangup k outcome now_ms) =
     (if k < length (rl_pcs s) \<and> rl_pcs s ! k = Idle
      then Some (s\<lparr>rl_pcs := (rl_pcs s)[k := Loading outcome now_ms]\<rparr>) else None)"
| "reload_step env b64 s (Next_section k) =
     (if k < length (rl_pcs s)
      then map_option (\<lambda>(pc, cs, g). \<lparr>rl_store = cs, rl_gateway = g, rl_pcs = (rl_pcs s)[k := pc]\<rparr>)
             (reload_section b64 (rl_pcs s ! k) (rl_store s, rl_gateway s))
      else None)"
| "reload_step env b64 s (Hook_section p) =
     map_option (\<lambda>(_, g). s\<lparr>rl_gateway := g\<rparr>) (section_step env p (rl_gateway s))"
| "reload_step env b64 s (Pool_event ev) =
     (if batcher_event ev
      then map_option (\<lambda>x. s\<lparr>rl_gateway := (rl_gateway s)\<lparr>gw_exporter := x\<rparr>\<rparr>)
             (pool_step b64 (gw_exporter (rl_gateway s)) ev)
      else None)"

text \<open>Which hot values are those of a configuration, in the order the hook sets them.\<close>

definition held_values :: "(bytes \<Rightarrow> string) \<Rightarrow> config \<Rightarrow> gateway \<Rightarrow> bool list" where
  "held_values b64 cfg g =
     [max_bytes (gw_cap g) = max (unat (capture_max_bytes (c_capture cfg))) 1,
      max_records (gw_store g) = max (store_max_records (c_store cfg)) 1
        \<and> max_store_bytes (gw_store g) = max (store_max_bytes (c_store cfg)) 1,
      st_capacity (gw_stitcher g) = max (stitch_capacity (c_stitch cfg)) 1,
      st_ttl_ms (gw_stitcher g) = max (stitch_ttl_ms (c_stitch cfg)) 1,
      build_target b64 (otlp_endpoint (c_export cfg)) = Some (target (gw_exporter g)),
      build_target b64 (otlp_endpoint (c_export cfg)) \<noteq> None
        \<and> enabled (gw_exporter g) = (build_target b64 (otlp_endpoint (c_export cfg)) \<noteq> Some None),
      width (gw_exporter g) = max (max_inflight (c_export cfg)) 1]"

definition mixed :: "(bytes \<Rightarrow> string) \<Rightarrow> nat \<Rightarrow> config \<Rightarrow> config \<Rightarrow> gateway \<Rightarrow> bool" where
  "mixed b64 n old new g \<longleftrightarrow>
     list_all id (take n (held_values b64 new g)) \<and> list_all id (drop n (held_values b64 old g))"

text \<open>How many of the values a reload has set.\<close>

fun seeded :: "reload_pc \<Rightarrow> nat" where
  "seeded (Seeding_cap cfg) = 0"
| "seeded (Seeding_window cfg) = 1"
| "seeded (Seeding_capacity cfg) = 2"
| "seeded (Seeding_ttl cfg) = 3"
| "seeded (Seeding_target cfg) = 4"
| "seeded (Seeding_enabled cfg b) = 5"
| "seeded (Seeding_width cfg) = 6"
| "seeded (Hook_panicked cfg) = 4"
| "seeded _ = 7"

lemma all_held: "mixed b64 7 old cfg g \<longleftrightarrow> runs_config b64 cfg g"
  by (auto simp: mixed_def held_values_def runs_config_def)

lemma values_settings: "settings g' = settings g \<Longrightarrow> held_values b64 cfg g' = held_values b64 cfg g"
  by (simp add: settings_def held_values_def)

lemma fetch_add_settings: "settings (fetch_add n k g) = settings g"
  by (cases n) (simp_all add: settings_def)

lemma section_settings:
  assumes "section_step env p g = Some (p', g')"
  shows "settings g' = settings g"
  using assms
  by (elim section_stepE)
    (auto simp: settings_def fetch_add_settings [unfolded settings_def] push_settings assign_call_def
       eq_commute [of "Some (p', g')"] dest!: assign_session_settings)

lemma pool_settings:
  assumes "pool_step b64 (gw_exporter g) ev = Some x" "batcher_event ev"
  shows "settings (g\<lparr>gw_exporter := x\<rparr>) = settings g"
  using pool_step_handle [OF assms] by (simp add: settings_def handle_def)

text \<open>\<open>K\<close>: the configurations the file has held. The components hold the values of the current
  snapshot up to where the reload has got, and of one earlier configuration from there on.\<close>

fun pc_config :: "reload_pc \<Rightarrow> config option" where
  "pc_config (Loading (Inr l) now_ms) = Some (ld_config l)"
| "pc_config (Swapping sn) = Some (sn_cfg sn)"
| "pc_config _ = None"

fun seeding :: "reload_pc \<Rightarrow> config option" where
  "seeding (Seeding_cap cfg) = Some cfg"
| "seeding (Seeding_window cfg) = Some cfg"
| "seeding (Seeding_capacity cfg) = Some cfg"
| "seeding (Seeding_ttl cfg) = Some cfg"
| "seeding (Seeding_target cfg) = Some cfg"
| "seeding (Seeding_enabled cfg b) = Some cfg"
| "seeding (Seeding_width cfg) = Some cfg"
| "seeding (Seeding_delta cfg d) = Some cfg"
| "seeding (Hook_panicked cfg) = Some cfg"
| "seeding _ = None"

definition reload_ok :: "(bytes \<Rightarrow> string) \<Rightarrow> config set \<Rightarrow> reload_pc \<Rightarrow> 'w config_store \<Rightarrow> gateway \<Rightarrow> bool" where
  "reload_ok b64 K pc cs g \<longleftrightarrow> on_reload cs \<noteq> None \<and> sn_cfg (inner cs) \<in> K
     \<and> (\<exists>old\<in>K. mixed b64 (seeded pc) old (sn_cfg (inner cs)) g)
     \<and> set_option (pc_config pc) \<subseteq> K \<and> set_option (seeding pc) \<subseteq> {sn_cfg (inner cs)}
     \<and> (\<forall>cfg b. pc = Seeding_enabled cfg b \<longrightarrow> b = (target (gw_exporter g) \<noteq> None))"

lemma swapped_target: "target (swap_target new x) = new"
  by (auto simp: swap_target_def target_changed_def split: option.splits intro: flush_target.equality)

lemma swap_target_frame [simp]:
  "enabled (swap_target new x) = enabled x" "width (swap_target new x) = width x"
  by (simp_all add: swap_target_def)

text \<open>A section of the hook sets one more value.\<close>

lemma seeding_section:
  assumes "reload_section b64 pc (cs, g) = Some (pc', cs', g')" "seeding pc = Some cfg"
    and "mixed b64 (seeded pc) old cfg g"
    and "\<forall>c b. pc = Seeding_enabled c b \<longrightarrow> b = (target (gw_exporter g) \<noteq> None)"
  shows "cs' = cs \<and> mixed b64 (seeded pc') old cfg g' \<and> set_option (seeding pc') \<subseteq> {cfg} \<and> pc_config pc' = None
     \<and> (\<forall>c b. pc' = Seeding_enabled c b \<longrightarrow> b = (target (gw_exporter g') \<noteq> None))"
proof (cases pc)
  case (Seeding_target c)
  show ?thesis
  proof (cases "build_target b64 (otlp_endpoint (c_export cfg))")
    case None
    with Seeding_target assms show ?thesis by auto
  next
    case (Some new)
    with Seeding_target assms have r: "pc' = Seeding_enabled cfg (new \<noteq> None)" "cs' = cs"
      "g' = g\<lparr>gw_exporter := swap_target new (gw_exporter g)\<rparr>" by (auto simp: Let_def swapped_target)
    have "mixed b64 5 old cfg g'"
      using assms(3) Seeding_target Some by (simp add: r(3) mixed_def held_values_def swapped_target)
    with r show ?thesis by (simp add: swapped_target)
  qed
next
  case (Seeding_enabled c b)
  with assms have r: "pc' = Seeding_width cfg" "cs' = cs"
    "g' = g\<lparr>gw_exporter := (gw_exporter g)\<lparr>enabled := (target (gw_exporter g) \<noteq> None)\<rparr>\<rparr>" by auto
  have "mixed b64 6 old cfg g'"
    using assms(3) Seeding_enabled by (auto simp: r(3) mixed_def held_values_def)
  with r show ?thesis by simp
next
  case (Seeding_cap c)
  with assms have r: "pc' = Seeding_window cfg" "cs' = cs" "g' = g\<lparr>gw_cap := set_max (min (unat (capture_max_bytes (c_capture cfg))) usize_max) (gw_cap g)\<rparr>"
    by (auto simp: Let_def)
  have "mixed b64 1 old cfg g'"
    using assms(3) Seeding_cap by (auto simp: r(3) mixed_def held_values_def set_max_def max_bytes_def)
  with r show ?thesis by simp
next
  case (Seeding_window c)
  with assms have r: "pc' = Seeding_capacity cfg" "cs' = cs" "g' = g\<lparr>gw_store := set_caps (store_max_records (c_store cfg)) (store_max_bytes (c_store cfg)) (gw_store g)\<rparr>"
    by (auto simp: Let_def)
  have "mixed b64 2 old cfg g'"
    using assms(3) Seeding_window by (auto simp: r(3) mixed_def held_values_def set_caps_def u64_max_1)
  with r show ?thesis by simp
next
  case (Seeding_capacity c)
  with assms have r: "pc' = Seeding_ttl cfg" "cs' = cs" "g' = g\<lparr>gw_stitcher := (gw_stitcher g)\<lparr>st_capacity := at_least_1 (stitch_capacity (c_stitch cfg))\<rparr>\<rparr>"
    by (auto simp: Let_def)
  have "mixed b64 3 old cfg g'"
    using assms(3) Seeding_capacity by (auto simp: r(3) mixed_def held_values_def at_least_1_max)
  with r show ?thesis by simp
next
  case (Seeding_ttl c)
  with assms have r: "pc' = Seeding_target cfg" "cs' = cs" "g' = g\<lparr>gw_stitcher := (gw_stitcher g)\<lparr>st_ttl_ms := at_least_1 (stitch_ttl_ms (c_stitch cfg))\<rparr>\<rparr>"
    by (auto simp: Let_def)
  have "mixed b64 4 old cfg g'"
    using assms(3) Seeding_ttl by (auto simp: r(3) mixed_def held_values_def at_least_1_max)
  with r show ?thesis by simp
next
  case (Seeding_width c)
  with assms have r: "pc' = Seeding_delta cfg (max (max_inflight (c_export cfg)) 1 - width (gw_exporter g))" "cs' = cs" "g' = g\<lparr>gw_exporter := (gw_exporter g)\<lparr>width := max (max_inflight (c_export cfg)) 1\<rparr>\<rparr>"
    by (auto simp: Let_def)
  have "mixed b64 7 old cfg g'"
    using assms(3) Seeding_width by (auto simp: r(3) mixed_def held_values_def)
  with r show ?thesis by simp
next
  case (Seeding_delta c d)
  with assms have r: "pc' = Idle" "cs' = cs" "g' = g\<lparr>gw_exporter := (gw_exporter g)\<lparr>sema_delta := sema_delta (gw_exporter g) + d\<rparr>\<rparr>"
    by (auto simp: Let_def)
  have "mixed b64 7 old cfg g'"
    using assms(3) Seeding_delta by (auto simp: r(3) mixed_def held_values_def)
  with r show ?thesis by simp
qed (use assms in auto)

lemma reload_ok_section:
  assumes ok: "reload_ok b64 K pc cs g" and st: "reload_section b64 pc (cs, g) = Some (pc', cs', g')"
  shows "reload_ok b64 K pc' cs' g'"
proof (cases "seeding pc")
  case (Some cfg)
  with ok obtain old where "old \<in> K" "mixed b64 (seeded pc) old cfg g" "cfg = sn_cfg (inner cs)"
    by (auto simp: reload_ok_def)
  with seeding_section [OF st Some] ok show ?thesis by (auto simp: reload_ok_def)
next
  case None
  have start: "mixed b64 0 (sn_cfg (inner cs)) new g" if "mixed b64 7 old (sn_cfg (inner cs)) g" for old new
    using that by (simp add: mixed_def held_values_def)
  from None show ?thesis
  proof (cases pc)
    case (Loading outcome now_ms)
    with ok st show ?thesis by (cases outcome) (auto simp: reload_ok_def next_snapshot_def)
  next
    case (Swapping sn)
    with ok start [of _ "sn_cfg sn"] st show ?thesis by (fastforce simp: reload_ok_def)
  qed (use st in auto)
qed

lemma reload_ok_settings:
  assumes "reload_ok b64 K pc cs g" "settings g' = settings g"
  shows "reload_ok b64 K pc cs g'"
proof -
  have "target (gw_exporter g') = target (gw_exporter g)" using assms(2) by (simp add: settings_def)
  moreover have "mixed b64 n old new g' = mixed b64 n old new g" for n old new
    using values_settings [OF assms(2)] by (simp add: mixed_def)
  ultimately show ?thesis using assms(1) unfolding reload_ok_def by simp
qed

fun loads :: "reload_event \<Rightarrow> config set" where
  "loads (Hangup k (Inr l) now_ms) = {ld_config l}"
| "loads _ = {}"

lemma reload_ok_step:
  assumes st: "reload_step env b64 s e = Some s'" and one: "rl_pcs s = [pc]" and K: "loads e \<subseteq> K"
    and ok: "reload_ok b64 K pc (rl_store s) (rl_gateway s)"
  shows "\<exists>pc'. rl_pcs s' = [pc'] \<and> reload_ok b64 K pc' (rl_store s') (rl_gateway s')"
proof (cases e)
  case (Hangup k outcome now_ms)
  with st one have "pc = Idle" "s' = s\<lparr>rl_pcs := [Loading outcome now_ms]\<rparr>" by (auto split: if_splits)
  with ok K Hangup show ?thesis by (cases outcome) (auto simp: reload_ok_def)
next
  case (Next_section k)
  with st one reload_ok_section [OF ok] show ?thesis by (auto split: if_splits)
next
  case (Hook_section p)
  with st one reload_ok_settings [OF ok] section_settings show ?thesis by fastforce
next
  case (Pool_event ev)
  with st one reload_ok_settings [OF ok] pool_settings show ?thesis by (fastforce split: if_splits)
qed

lemma reload_ok_run:
  "run (reload_step env b64) s es = Some s' \<Longrightarrow> rl_pcs s = [pc] \<Longrightarrow> (\<Union>e\<in>set es. loads e) \<subseteq> K \<Longrightarrow>
     reload_ok b64 K pc (rl_store s) (rl_gateway s) \<Longrightarrow>
     \<exists>pc'. rl_pcs s' = [pc'] \<and> reload_ok b64 K pc' (rl_store s') (rl_gateway s')"
proof (induction es arbitrary: s pc)
  case (Cons e es)
  from Cons.prems(1) obtain u where u: "reload_step env b64 s e = Some u" "run (reload_step env b64) u es = Some s'"
    by (auto split: Option.bind_splits)
  from reload_ok_step [OF u(1) Cons.prems(2) _ Cons.prems(4)] Cons.prems(3) obtain pc1 where
    "rl_pcs u = [pc1]" "reload_ok b64 K pc1 (rl_store u) (rl_gateway u)" by auto
  with Cons.IH [OF u(2)] Cons.prems(3) show ?case by simp
qed auto

text \<open>C8 A reload is not atomic for the requests that run beside it, and it does not have to be: at every
  moment the components hold the values of the snapshot that new requests see, up to where the
  reload has got, and those of a configuration the file has held before from there on; between
  reloads they hold exactly the snapshot's. This needs that reloads do not overlap, as in the
  reload service.\<close>

theorem reload_settles:
  assumes "run (reload_step env b64) \<lparr>rl_store = cs, rl_gateway = g, rl_pcs = [Idle]\<rparr> es = Some s"
    and "runs_config b64 (sn_cfg (inner cs)) g" and "on_reload cs \<noteq> None"
  shows "\<exists>pc old. rl_pcs s = [pc]
     \<and> old \<in> insert (sn_cfg (inner cs)) (\<Union>e\<in>set es. loads e)
     \<and> mixed b64 (seeded pc) old (sn_cfg (inner (rl_store s))) (rl_gateway s)
     \<and> (pc = Idle \<longrightarrow> runs_config b64 (sn_cfg (inner (rl_store s))) (rl_gateway s))"
proof -
  let ?K = "insert (sn_cfg (inner cs)) (\<Union>e\<in>set es. loads e)"
  have "reload_ok b64 ?K Idle cs g"
    using assms(2,3) by (auto simp: reload_ok_def all_held)
  with reload_ok_run [OF assms(1), of Idle ?K] obtain pc where
    "rl_pcs s = [pc]" "reload_ok b64 ?K pc (rl_store s) (rl_gateway s)" by auto
  moreover from this obtain old where "old \<in> ?K" "mixed b64 (seeded pc) old (sn_cfg (inner (rl_store s))) (rl_gateway s)"
    by (auto simp: reload_ok_def)
  ultimately show ?thesis using all_held by (intro exI [of _ pc] exI [of _ old]) auto
qed


text \<open>A reload that changes the capture cap, up to the write of the snapshot: a request that starts now
  reads the new snapshot while the cap is still the old one.\<close>

definition cap_config :: "u64 \<Rightarrow> config" where
  "cap_config n = sample_config\<lparr>c_capture := \<lparr>capture_max_bytes = n\<rparr>\<rparr>"

definition cap_file :: "u64 \<Rightarrow> config_error + loaded" where
  "cap_file n = Inr \<lparr>ld_config = cap_config n, ld_sha256 = [], ld_path = ''f'', ld_len = 0\<rparr>"

definition hooked_store :: "gateway option config_store" where
  "hooked_store = set_on_reload (\<lambda>cfg w. Option.bind w (hot_apply (\<lambda>_. []) cfg)) demo_store"

definition reload_gateway :: gateway where
  "reload_gateway = the (build_gateway (\<lambda>_. []) [] 0 True sample_config)"

lemma reload_gateway_built: "build_gateway (\<lambda>_. []) [] 0 True sample_config = Some reload_gateway"
proof -
  have "build_gateway (\<lambda>_. []) [] 0 True sample_config \<noteq> None"
    by (simp add: build_gateway_def start_def build_target_def sample_config_def trim_Nil)
  then show ?thesis by (simp add: reload_gateway_def)
qed

lemma hooked_simps:
  "sn_cfg (inner hooked_store) = sample_config" "on_reload hooked_store \<noteq> None"
  "sn_generation (inner hooked_store) = 1"
  by (simp_all add: hooked_store_def set_on_reload_def demo_store_def from_config_def config_store_new_def)

lemma reload_midway:
  "\<exists>s. run (reload_step demo_env (\<lambda>_. [])) \<lparr>rl_store = hooked_store, rl_gateway = reload_gateway, rl_pcs = [Idle]\<rparr>
       [Hangup 0 (cap_file 7) 5, Next_section 0, Next_section 0] = Some s
     \<and> sn_cfg (inner (rl_store s)) = cap_config 7 \<and> rl_gateway s = reload_gateway
     \<and> rl_pcs s = [Seeding_cap (cap_config 7)]"
  using hooked_simps(2) by (simp add: cap_file_def next_snapshot_def)

theorem reload_settles_witness:
  "\<exists>s old. run (reload_step demo_env (\<lambda>_. [])) \<lparr>rl_store = hooked_store, rl_gateway = reload_gateway, rl_pcs = [Idle]\<rparr>
       [Hangup 0 (cap_file 7) 5, Next_section 0, Next_section 0] = Some s
     \<and> sn_cfg (inner (rl_store s)) = cap_config 7 \<and> max_bytes (gw_cap (rl_gateway s)) = 1000
     \<and> mixed (\<lambda>_. []) 0 old (cap_config 7) (rl_gateway s)"
proof -
  obtain s where s: "run (reload_step demo_env (\<lambda>_. [])) \<lparr>rl_store = hooked_store, rl_gateway = reload_gateway, rl_pcs = [Idle]\<rparr>
       [Hangup 0 (cap_file 7) 5, Next_section 0, Next_section 0] = Some s"
    "sn_cfg (inner (rl_store s)) = cap_config 7" "rl_gateway s = reload_gateway"
    "rl_pcs s = [Seeding_cap (cap_config 7)]" using reload_midway by blast
  have "runs_config (\<lambda>_. []) (sn_cfg (inner hooked_store)) reload_gateway"
    using build_runs [OF reload_gateway_built] hooked_simps(1) by simp
  from reload_settles [OF s(1) this hooked_simps(2)] s(2,4) obtain old where
    "mixed (\<lambda>_. []) 0 old (cap_config 7) (rl_gateway s)" by auto
  moreover have "max_bytes (gw_cap reload_gateway) = 1000"
    using build_runs [OF reload_gateway_built] by (simp add: runs_config_def sample_config_def)
  ultimately show ?thesis using s(1-3) by metis
qed

text \<open>The hook of one caller, with nothing in between.\<close>

lemma hook_alone:
  assumes "rl_pcs s ! k = Seeding_cap cfg" "k < length (rl_pcs s)"
    and "build_target b64 (otlp_endpoint (c_export cfg)) = Some new"
  shows "\<exists>g'. run (reload_step env b64) s (replicate 8 (Next_section k)) =
       Some \<lparr>rl_store = rl_store s, rl_gateway = g', rl_pcs = (rl_pcs s)[k := Idle]\<rparr>
     \<and> max_bytes (gw_cap g') = max (unat (capture_max_bytes (c_capture cfg))) 1"
  using assms by (simp add: numeral_eq_Suc Let_def set_max_def max_bytes_def)

text \<open>Two callers at once: each reads the same generation, and the one that swaps last may run its
  hook first. Both have returned \<open>Ok\<close>, the snapshot is the one's and the components the other's,
  and stay so until the next reload.\<close>

lemma overlapping_reloads_diverge:
  "\<exists>s. run (reload_step demo_env (\<lambda>_. [])) \<lparr>rl_store = hooked_store, rl_gateway = reload_gateway, rl_pcs = [Idle, Idle]\<rparr>
       ([Hangup 0 (cap_file 7) 5, Hangup 1 (cap_file 9) 5, Next_section 0, Next_section 1, Next_section 0, Next_section 1]
          @ replicate 8 (Next_section 1) @ replicate 8 (Next_section 0)) = Some s
     \<and> rl_pcs s = [Idle, Idle] \<and> sn_generation (inner (rl_store s)) = 2
     \<and> sn_cfg (inner (rl_store s)) = cap_config 9 \<and> max_bytes (gw_cap (rl_gateway s)) = 7"
proof -
  let ?step = "reload_step demo_env (\<lambda>_. [])"
  have t: "build_target (\<lambda>_. []) (otlp_endpoint (c_export (cap_config n))) = Some None" for n
    by (simp add: cap_config_def sample_config_def build_target_def trim_Nil)
  have "\<exists>u. run ?step \<lparr>rl_store = hooked_store, rl_gateway = reload_gateway, rl_pcs = [Idle, Idle]\<rparr>
       [Hangup 0 (cap_file 7) 5, Hangup 1 (cap_file 9) 5, Next_section 0, Next_section 1, Next_section 0, Next_section 1]
       = Some u \<and> rl_pcs u = [Seeding_cap (cap_config 7), Seeding_cap (cap_config 9)]
     \<and> sn_generation (inner (rl_store u)) = 2 \<and> sn_cfg (inner (rl_store u)) = cap_config 9"
    using hooked_simps by (simp add: cap_file_def next_snapshot_def sat_add_u64_def)
  then obtain u where u: "run ?step \<lparr>rl_store = hooked_store, rl_gateway = reload_gateway, rl_pcs = [Idle, Idle]\<rparr>
       [Hangup 0 (cap_file 7) 5, Hangup 1 (cap_file 9) 5, Next_section 0, Next_section 1, Next_section 0, Next_section 1]
       = Some u" "rl_pcs u = [Seeding_cap (cap_config 7), Seeding_cap (cap_config 9)]"
    "sn_generation (inner (rl_store u)) = 2" "sn_cfg (inner (rl_store u)) = cap_config 9" by blast
  from hook_alone [of u 1 "cap_config 9" "\<lambda>_. []" None demo_env] u(2) t obtain g1 where
    v: "run ?step u (replicate 8 (Next_section 1)) =
       Some \<lparr>rl_store = rl_store u, rl_gateway = g1, rl_pcs = [Seeding_cap (cap_config 7), Idle]\<rparr>" by auto
  from hook_alone [of "\<lparr>rl_store = rl_store u, rl_gateway = g1, rl_pcs = [Seeding_cap (cap_config 7), Idle]\<rparr>"
      0 "cap_config 7" "\<lambda>_. []" None demo_env] t obtain g2 where
    w: "run ?step \<lparr>rl_store = rl_store u, rl_gateway = g1, rl_pcs = [Seeding_cap (cap_config 7), Idle]\<rparr>
         (replicate 8 (Next_section 0)) = Some \<lparr>rl_store = rl_store u, rl_gateway = g2, rl_pcs = [Idle, Idle]\<rparr>"
    "max_bytes (gw_cap g2) = max (unat (capture_max_bytes (c_capture (cap_config 7)))) 1" by auto
  have "max_bytes (gw_cap g2) = 7" using w(2) by (simp add: cap_config_def)
  with u(3,4) show ?thesis unfolding run_append u(1) Option.bind.simps v w(1) by simp
qed

end
