(* ===== verification/Ranking.thy ===== *)
theory Ranking
  imports Harness
begin

text \<open>
  The ranking that \<open>Identifier\<close> in \<open>crates/atg-harness\<close> documents: class first, then strength, the
  strongest first, then table order; as a linear order, whose least element is the evidence that
  decides. The two passes of \<open>identify\<close> (the best strength of each harness, then the first harness
  of the top strength) find it.
\<close>

section \<open>The order\<close>

instantiation evidence_class :: linorder
begin

definition less_eq_evidence_class :: "evidence_class \<Rightarrow> evidence_class \<Rightarrow> bool" where
  "less_eq_evidence_class a b \<longleftrightarrow> a = Identity \<or> b = Shape"

definition less_evidence_class :: "evidence_class \<Rightarrow> evidence_class \<Rightarrow> bool" where
  "less_evidence_class a b \<longleftrightarrow> a = Identity \<and> b = Shape"

instance
proof
  fix x y z :: evidence_class
  show "x \<le> y \<or> y \<le> x" "x < y \<longleftrightarrow> x \<le> y \<and> \<not> y \<le> x" "x \<le> y \<Longrightarrow> y \<le> z \<Longrightarrow> x \<le> z"
    "x \<le> y \<Longrightarrow> y \<le> x \<Longrightarrow> x = y" "x \<le> x"
    by (cases x; cases y; cases z; simp add: less_eq_evidence_class_def less_evidence_class_def)+
qed

end

datatype rank = Rank (rk_class: evidence_class) (rk_strength: nat) (rk_position: nat)

instantiation rank :: linorder
begin

fun less_rank :: "rank \<Rightarrow> rank \<Rightarrow> bool" where
  "less_rank (Rank c s i) (Rank d t j) \<longleftrightarrow> c < d \<or> (c = d \<and> (t < s \<or> (s = t \<and> i < j)))"

definition less_eq_rank :: "rank \<Rightarrow> rank \<Rightarrow> bool" where
  "less_eq_rank a b \<longleftrightarrow> a < b \<or> a = b"

instance
proof
  fix x y z :: rank
  show "x \<le> x" by (simp add: less_eq_rank_def)
  show "x < y \<longleftrightarrow> x \<le> y \<and> \<not> y \<le> x" "x \<le> y \<Longrightarrow> y \<le> x \<Longrightarrow> x = y" "x \<le> y \<or> y \<le> x"
    by (cases x; cases y; force simp: less_eq_rank_def)+
  show "x \<le> y \<Longrightarrow> y \<le> z \<Longrightarrow> x \<le> z"
    by (cases x; cases y; cases z) (auto simp: less_eq_rank_def)
qed

end

section \<open>The evidence of a request\<close>

text \<open>The ranks of all evidence a request shows.\<close>

definition shown_ranks :: "json option \<Rightarrow> string option \<Rightarrow> (string \<Rightarrow> string option) \<Rightarrow> rank set" where
  "shown_ranks req ua hg =
     (\<Union>i<length HARNESSES. (\<lambda>e. Rank (ev_class e) (strength e) i) `
        {e \<in> set (identity_evidence (HARNESSES ! i)). evidence_matched req ua hg e})"

lemma in_shown_ranks:
  "r \<in> shown_ranks req ua hg \<longleftrightarrow> (\<exists>i e. i < length HARNESSES \<and> e \<in> set (identity_evidence (HARNESSES ! i))
     \<and> evidence_matched req ua hg e \<and> r = Rank (ev_class e) (strength e) i)"
  unfolding shown_ranks_def by blast

definition strengths :: "json option \<Rightarrow> string option \<Rightarrow> (string \<Rightarrow> string option) \<Rightarrow> evidence list \<Rightarrow> nat set" where
  "strengths req ua hg es = strength ` {e \<in> set es. evidence_matched req ua hg e \<and> ev_class e = Identity}"

definition tops :: "nat set \<Rightarrow> nat option \<Rightarrow> bool" where
  "tops S r \<longleftrightarrow> (case r of None \<Rightarrow> S = {} | Some s \<Rightarrow> s \<in> S \<and> (\<forall>t\<in>S. t \<le> s))"

lemma tops_dominated:
  assumes "tops (A \<union> S) r" "A \<subseteq> B" "\<forall>b\<in>B. \<exists>a\<in>A. b \<le> a"
  shows "tops (B \<union> S) r"
proof (cases r)
  case None
  with assms show ?thesis by (auto simp: tops_def)
next
  case (Some s)
  with assms have s: "s \<in> B \<union> S" "\<forall>t\<in>A \<union> S. t \<le> s" by (auto simp: tops_def)
  have "t \<le> s" if "t \<in> B" for t
  proof -
    from assms(3) that obtain a where "a \<in> A" "t \<le> a" by blast
    with s(2) show ?thesis by (meson UnI1 le_trans)
  qed
  with s Some show ?thesis by (auto simp: tops_def)
qed

lemma best_strength_tops: "tops (strengths req ua hg (identity_evidence h)) (best_strength req ua hg h)"
proof -
  let ?f = "\<lambda>best i. if evidence_matched req ua hg i \<and> ev_class i = Identity
      \<and> (case best of None \<Rightarrow> True | Some s \<Rightarrow> s < strength i) then Some (strength i) else best"
  have "tops (set_option best \<union> strengths req ua hg es) (foldl ?f best es)" for best es
  proof (induction es arbitrary: best)
    case Nil
    then show ?case by (cases best) (simp_all add: tops_def strengths_def)
  next
    case (Cons e es)
    let ?B = "set_option best \<union> (if evidence_matched req ua hg e \<and> ev_class e = Identity then {strength e} else {})"
    have "strengths req ua hg (e # es) =
        (if evidence_matched req ua hg e \<and> ev_class e = Identity then {strength e} else {}) \<union> strengths req ua hg es"
      by (auto simp: strengths_def)
    then have s: "set_option best \<union> strengths req ua hg (e # es) = ?B \<union> strengths req ua hg es" by auto
    have "tops (?B \<union> strengths req ua hg es) (foldl ?f (?f best e) es)"
    proof (rule tops_dominated [OF Cons.IH])
      show "set_option (?f best e) \<subseteq> ?B" by auto
      show "\<forall>b\<in>?B. \<exists>a\<in>set_option (?f best e). b \<le> a"
        by (cases best) auto
    qed
    with s show ?case by simp
  qed
  from this [of None "identity_evidence h"] show ?thesis by (simp add: best_strength_def)
qed

lemma hits_of_top:
  "map fst (filter (\<lambda>h. snd h = m) (List.map_filter (\<lambda>h. map_option (Pair (nm h)) (b h)) hs)) =
     map nm (filter (\<lambda>h. b h = Some m) hs)"
  by (induction hs) (auto simp: List.map_filter_def split: option.splits)

lemma top_of_hits:
  fixes b :: "'a \<Rightarrow> nat option"
  shows "fold max (map snd (List.map_filter (\<lambda>h. map_option (Pair (nm h)) (b h)) hs)) 0 =
     Max (insert 0 {s. \<exists>h\<in>set hs. b h = Some s})"
proof -
  let ?xs = "map snd (List.map_filter (\<lambda>h. map_option (Pair (nm h)) (b h)) hs)"
  have "set ?xs = {s. \<exists>h\<in>set hs. b h = Some s}"
    by (induction hs) (auto simp: List.map_filter_def split: option.splits)
  moreover have "fold max ?xs 0 = Max (insert 0 (set ?xs))" by (metis Max.set_eq_fold list.set(2))
  ultimately show ?thesis by metis
qed

lemma filter_first:
  "filter P xs = w # ws \<Longrightarrow> \<exists>i<length xs. w = xs ! i \<and> P (xs ! i) \<and> (\<forall>j<i. \<not> P (xs ! j))"
proof (induction xs)
  case (Cons x xs)
  show ?case
  proof (cases "P x")
    case True
    with Cons.prems show ?thesis by (intro exI [of _ 0]) simp
  next
    case False
    with Cons obtain i where "i < length xs" "w = xs ! i" "P (xs ! i)" "\<forall>j<i. \<not> P (xs ! j)" by auto
    with False show ?thesis by (intro exI [of _ "Suc i"]) (auto simp: less_Suc_eq_0_disj)
  qed
qed simp

text \<open>C37 The identity of a request is that of the best evidence it shows, in the documented order: identity
  evidence before shapes, the stronger before the weaker, the earlier harness of the table before
  the later. Without identity evidence nobody is identified.\<close>

theorem identity_is_best_rank:
  "hf_identity (identify parse proto req ua hg) =
     (let R = shown_ranks req ua hg in
      if R \<noteq> {} \<and> rk_class (Min R) = Identity then Some (h_name (HARNESSES ! rk_position (Min R)))
      else None)"
proof -
  let ?b = "best_strength req ua hg" and ?R = "shown_ranks req ua hg"
  let ?top = "Max (insert 0 {s. \<exists>h\<in>set HARNESSES. ?b h = Some s})"
  have fin: "finite ?R" by (auto simp: shown_ranks_def)
  have ident: "hf_identity (identify parse proto req ua hg) =
      (if identity_hits req ua hg = [] then None else
         Some (case map h_name (filter (\<lambda>h. ?b h = Some ?top) HARNESSES) of [] \<Rightarrow> [] | w # _ \<Rightarrow> w))"
    by (simp add: identify_def Let_def identity_hits_def hits_of_top top_of_hits)
  have none: "identity_hits req ua hg = [] \<longleftrightarrow> (\<forall>h\<in>set HARNESSES. ?b h = None)"
    by (auto simp: identity_hits_def List.map_filter_def filter_empty_conv)
  have in_R: "Rank Identity s i \<in> ?R \<longleftrightarrow>
      i < length HARNESSES \<and> s \<in> strengths req ua hg (identity_evidence (HARNESSES ! i))" for s i
    unfolding in_shown_ranks strengths_def by force
  show ?thesis
  proof (cases "\<forall>h\<in>set HARNESSES. ?b h = None")
    case True
    then have "strengths req ua hg (identity_evidence (HARNESSES ! i)) = {}" if "i < length HARNESSES" for i
      using best_strength_tops [of req ua hg "HARNESSES ! i"] that by (simp add: tops_def)
    with in_R have "Rank Identity s i \<notin> ?R" for s i by auto
    moreover have "Min ?R \<in> ?R" if "?R \<noteq> {}" using fin that by (rule Min_in)
    ultimately have "?R = {} \<or> rk_class (Min ?R) \<noteq> Identity" by (metis rank.exhaust_sel)
    with True none ident show ?thesis by (simp add: Let_def)
  next
    case False
    then obtain h0 s0 where h0: "h0 \<in> set HARNESSES" "?b h0 = Some s0" by auto
    have fins: "finite {s. \<exists>h\<in>set HARNESSES. ?b h = Some s}"
    proof (rule finite_subset)
      show "{s. \<exists>h\<in>set HARNESSES. ?b h = Some s} \<subseteq> (\<lambda>h. the (?b h)) ` set HARNESSES" by force
    qed simp
    have le: "s \<le> ?top" if "h \<in> set HARNESSES" "?b h = Some s" for h s
      using fins that by (intro Max_ge) auto
    have "\<exists>h\<in>set HARNESSES. ?b h = Some ?top"
    proof -
      have "?top \<in> insert 0 {s. \<exists>h\<in>set HARNESSES. ?b h = Some s}" using fins by (intro Max_in) auto
      moreover have "\<exists>h\<in>set HARNESSES. ?b h = Some ?top" if "?top = 0"
        using le [OF h0] h0 that by auto
      ultimately show ?thesis by blast
    qed
    then have "filter (\<lambda>h. ?b h = Some ?top) HARNESSES \<noteq> []" by (simp add: filter_empty_conv)
    then obtain w ws where w: "filter (\<lambda>h. ?b h = Some ?top) HARNESSES = w # ws"
      by (cases "filter (\<lambda>h. ?b h = Some ?top) HARNESSES") auto
    from filter_first [OF w] obtain i where i: "i < length HARNESSES" "w = HARNESSES ! i"
      "?b (HARNESSES ! i) = Some ?top" "\<forall>j<i. ?b (HARNESSES ! j) \<noteq> Some ?top" by blast
    have tops: "tops (strengths req ua hg (identity_evidence (HARNESSES ! j))) (?b (HARNESSES ! j))" for j
      by (rule best_strength_tops)
    have "Min ?R = Rank Identity ?top i"
    proof (rule Min_eqI [OF fin])
      show "Rank Identity ?top i \<in> ?R" using in_R i(1,3) tops [of i] by (simp add: tops_def)
      fix r assume r: "r \<in> ?R"
      show "Rank Identity ?top i \<le> r"
      proof (cases "rk_class r")
        case Shape
        then show ?thesis by (cases r) (simp add: less_eq_rank_def less_evidence_class_def)
      next
        case Identity
        then obtain s j where r': "r = Rank Identity s j" by (cases r) auto
        with r in_R have j: "j < length HARNESSES" "s \<in> strengths req ua hg (identity_evidence (HARNESSES ! j))"
          by auto
        then obtain t where t: "?b (HARNESSES ! j) = Some t" "s \<le> t"
          using tops [of j] by (auto simp: tops_def split: option.splits)
        with le [of "HARNESSES ! j" t] j(1) have "s \<le> ?top" "s = ?top \<Longrightarrow> t = ?top" by auto
        with t(1) i(4) r' show ?thesis
          by (cases "j < i") (auto simp: less_eq_rank_def not_less le_less)
      qed
    qed
    moreover have "?R \<noteq> {}" using in_R i(1,3) tops [of i] by (auto simp: tops_def)
    ultimately show ?thesis
      using ident none False w i(2) by (simp add: Let_def)
  qed
qed

end
