(* ===== verification/Flush_Log.thy ===== *)
theory Flush_Log
  imports Export_Pool Export_Span Startup
begin

text \<open>
  One flush task of \<open>src/trace/export.rs\<close> from the inside: \<open>dispatch_batch\<close>'s spawned future with its
  \<open>FlushBooking\<close>, \<open>flush_batch\<close>, the lines for the operator, and \<open>observe_join\<close>. \<open>Export_Pool\<close> has the
  task as one step with three ways to end; here the places where it can panic are in the text, and
  the three ways are what they come to. The lines show no credentials of the endpoint.

  The printers of a status, of a Rust string (\<open>{body:?}\<close>) and of errors are parameters.
\<close>

section \<open>The lines\<close>

text \<open>What the collector's receiver answered: a response with its body, or an error as reqwest
  prints it.\<close>

datatype reply = Response nat string | Send_error string

record printers =
  pr_status :: "nat \<Rightarrow> string"
  pr_debug :: "string \<Rightarrow> string"

fun success :: "reply \<Rightarrow> bool" where
  "success (Response st body) = (200 \<le> st \<and> st < 300)"
| "success (Send_error e) = False"

text \<open>The line of a failed flush for a displayed endpoint.\<close>

fun flush_failure_line :: "printers \<Rightarrow> string \<Rightarrow> reply \<Rightarrow> string" where
  "flush_failure_line pr shown (Response st body) =
     ''OTLP export failed: endpoint='' @ shown @ '' status='' @ pr_status pr st
       @ '' body='' @ pr_debug pr (truncate_header_value body 200)"
| "flush_failure_line pr shown (Send_error e) =
     ''OTLP export failed: endpoint='' @ shown @ '' error='' @ e"

definition panic_line :: "nat \<Rightarrow> string" where
  "panic_line records =
     ''OTLP export pool: flush panicked '' @ em_dash @ '' batch dropped ('' @ show_nat records
       @ '' records), export continues''"

datatype joined = Joined | Join_panic | Join_cancelled string

fun observe_join :: "joined \<Rightarrow> string list" where
  "observe_join Joined = []"
| "observe_join Join_panic = []"
| "observe_join (Join_cancelled err) = [''OTLP export pool: flush task ended without completing: '' @ err]"

section \<open>The task\<close>

record booking =
  bk_records :: nat
  bk_completed :: bool

definition enter :: "nat \<Rightarrow> booking" where
  "enter records = \<lparr>bk_records = records, bk_completed = False\<rparr>"

text \<open>\<open>Drop\<close>: the write is best effort, so \<open>writable\<close> (whether standard error takes a line) decides
  only if the line is seen.\<close>

definition drop_booking :: "bool \<Rightarrow> booking \<Rightarrow> export_health \<Rightarrow> export_health \<times> string list" where
  "drop_booking writable b h =
     (let h = h\<lparr>inflight := inflight h - 1\<rparr> in
      if bk_completed b then (h, [])
      else (let h = count_failed (bk_records b) h; h = h\<lparr>panicked := panicked h + 1\<rparr>
            in (h, if writable then [panic_line (bk_records b)] else [])))"

text \<open>\<open>flush_batch\<close>: what was written, whether it returned, and the counters. \<open>outcome\<close> is \<open>None\<close> when
  building, sending or reading panics before the batch is booked.\<close>

definition flush_batch ::
  "(bytes \<Rightarrow> string) \<Rightarrow> printers \<Rightarrow> bool \<Rightarrow> flush_target \<Rightarrow> nat \<Rightarrow> reply option \<Rightarrow> export_health \<Rightarrow>
     export_health \<times> string list \<times> bool" where
  "flush_batch b64 pr writable t n outcome h =
     (case outcome of
        None \<Rightarrow> (h, [], False)
      | Some r \<Rightarrow>
          if success r then (h\<lparr>exported := exported h + of_nat n\<rparr>, [], True)
          else (let h = count_failed n h in
                case display_endpoint b64 (ft_endpoint t) of
                  None \<Rightarrow> (h, [], False)
                | Some shown \<Rightarrow> if writable then (h, [flush_failure_line pr shown r], True) else (h, [], False)))"

definition flush_task ::
  "(bytes \<Rightarrow> string) \<Rightarrow> printers \<Rightarrow> bool \<Rightarrow> flush_target \<Rightarrow> nat \<Rightarrow> reply option \<Rightarrow> export_health \<Rightarrow>
     export_health \<times> string list \<times> joined" where
  "flush_task b64 pr writable t n outcome h =
     (let booking = enter n;
          (h, lines, returned) = flush_batch b64 pr writable t n outcome h;
          booking = (if returned then booking\<lparr>bk_completed := True\<rparr> else booking);
          (h, lines') = drop_booking writable booking h
      in (h, lines @ lines', if returned then Joined else Join_panic))"

section \<open>What the pool sees of it\<close>

fun answer_of :: "reply \<Rightarrow> answer" where
  "answer_of (Response st body) = Answered st"
| "answer_of (Send_error e) = Unreachable"

text \<open>The end of the task, as \<open>Export_Pool\<close> has it.\<close>

definition end_of_task :: "(bytes \<Rightarrow> string) \<Rightarrow> bool \<Rightarrow> flush_target \<Rightarrow> reply option \<Rightarrow> flush_end" where
  "end_of_task b64 writable t outcome =
     (case outcome of
        None \<Rightarrow> Panicked_sending
      | Some r \<Rightarrow>
          if success r \<or> (writable \<and> display_endpoint b64 (ft_endpoint t) \<noteq> None)
          then Ended (answer_of r) else Panicked_logging)"

lemma books_of_reply:
  "flush_books (answer_of r) n h =
     (if success r then h\<lparr>exported := exported h + of_nat n\<rparr> else count_failed n h)"
  by (cases r) (simp_all add: flush_books_def)

lemma books_unreachable: "flush_books Unreachable n h = count_failed n h"
  by (simp add: flush_books_def)

text \<open>The spelled-out task books what the pool's step books; it panics exactly where the step does,
  and a task that panicked is never reported by \<open>observe_join\<close>, because its booking has been.\<close>

theorem flush_task_books:
  "\<exists>lines j. flush_task b64 pr writable t n outcome h =
       (task_books (end_of_task b64 writable t outcome) n h, lines, j)
     \<and> (j = Joined \<longleftrightarrow> (\<exists>a. end_of_task b64 writable t outcome = Ended a))
     \<and> (j = Joined \<and> outcome \<noteq> None \<and> success (the outcome) \<longrightarrow> lines = [])
     \<and> (j \<noteq> Joined \<and> writable \<longrightarrow> panic_line n \<in> set lines)
     \<and> observe_join j = []"
proof (cases outcome)
  case None
  then show ?thesis
    by (simp add: flush_task_def flush_batch_def end_of_task_def task_books_def drop_booking_def
        booking_drop_def enter_def Let_def)
next
  case (Some r)
  then show ?thesis
    by (cases "success r"; cases "display_endpoint b64 (ft_endpoint t)"; cases writable)
      (simp_all add: flush_task_def flush_batch_def end_of_task_def task_books_def drop_booking_def
        booking_drop_def enter_def books_of_reply books_unreachable Let_def)
qed

section \<open>Credentials of the endpoint\<close>

text \<open>Trimming takes nothing but white space.\<close>

lemma trim_start_of_keeps:
  "x \<in> set s \<Longrightarrow> \<forall>w\<in>set W. x \<notin> set w \<Longrightarrow> x \<in> set (trim_start_of W s)"
proof (induction W s rule: trim_start_of.induct)
  case (1 W s)
  show ?case
  proof (cases "strip_head W s")
    case None
    with 1 show ?thesis by (simp add: trim_start_of_id)
  next
    case (Some r)
    then obtain w where "s = w @ r" "w \<in> set W"
      by (auto simp: strip_head_def strip_prefix_Some dest!: find_map_SomeD split: if_splits)
    with 1 Some show ?thesis by (subst trim_start_of.simps) auto
  qed
qed

lemma trim_keeps: "x \<in> set s \<Longrightarrow> \<forall>w\<in>set white_space. x \<notin> set w \<Longrightarrow> x \<in> set (trim s)"
  by (simp add: trim_def trim_start_of_keeps)

lemma url_not_blank: "trim (u @ ''://'' @ v) \<noteq> []"
proof -
  have "CHR ''/'' \<in> set (trim (u @ ''://'' @ v))"
    by (rule trim_keeps) (simp_all add: white_space_def)
  then show ?thesis by auto
qed

text \<open>The authority of what follows the scheme.\<close>

definition authority :: "string \<Rightarrow> string" where
  "authority rest = takeWhile (\<lambda>c. c \<noteq> CHR ''/'' \<and> c \<noteq> CHR ''?'' \<and> c \<noteq> CHR ''#'') rest"

lemma no_userinfo:
  assumes "CHR '':'' \<notin> set scheme" "CHR ''@'' \<notin> set (authority host)"
  shows "split_basic_auth b64 (scheme @ ''://'' @ host) = Some (scheme @ ''://'' @ host, None)"
proof -
  let ?ok = "\<lambda>c. c \<noteq> CHR ''/'' \<and> c \<noteq> CHR ''?'' \<and> c \<noteq> CHR ''#''"
  have s: "find_sub ''://'' (scheme @ ''://'' @ host) = Some (length scheme)"
    using assms(1) by (induction scheme) (auto simp: starts_with_def)
  have "\<not> list_all ?ok (take i host)" if "find_sub ''@'' host = Some i" for i
  proof
    assume all: "list_all ?ok (take i host)"
    from find_sub_Some [OF that] obtain u v where host: "host = u @ ''@'' @ v" "length u = i" by blast
    with all have "\<forall>c\<in>set u. ?ok c" by (simp add: list_all_iff)
    with host(1) have "takeWhile ?ok host = u @ takeWhile ?ok (''@'' @ v)" by simp
    then have "CHR ''@'' \<in> set (authority host)" by (simp add: authority_def)
    with assms(2) show False by simp
  qed
  then show ?thesis
    unfolding split_basic_auth_def s by (auto simp: Let_def split: option.split)
qed

text \<open>C25 The credentials of the collector reach the collector and nobody else: for a user and password
  written percent-encoded into the endpoint, whatever their bytes, every flush posts to the URL
  without them and carries them in the Basic-auth header, and the line of a failed flush, whatever
  was answered, is the one of the URL without them.\<close>

theorem credentials_not_logged:
  assumes "CHR '':'' \<notin> set scheme" and "valid_utf8 creds" and "CHR ''@'' \<notin> set (authority host)"
    and "\<And>c. safe c \<Longrightarrow> is_ascii c \<and> c \<notin> {CHR ''%'', CHR ''@'', CHR ''/'', CHR ''?'', CHR ''#''}"
  shows "\<exists>t. build_target b64 (scheme @ ''://'' @ percent_encode safe creds @ ''@'' @ host) = Some (Some t)
     \<and> hp_url (flush_request t payload) = normalize_endpoint_path (scheme @ ''://'' @ host)
     \<and> (''authorization'', ''Basic '' @ b64 creds) \<in> set (hp_headers (flush_request t payload))
     \<and> (\<forall>r n h. fst (snd (flush_task b64 pr True t n (Some r) h)) =
          (if success r then [] else [flush_failure_line pr (scheme @ ''://'' @ host) r]))"
proof -
  let ?t = "\<lparr>ft_endpoint = scheme @ ''://'' @ host, ft_auth_header = Some (''Basic '' @ b64 creds)\<rparr>"
  have "build_target b64 (scheme @ ''://'' @ percent_encode safe creds @ ''@'' @ host) = Some (Some ?t)"
    using basic_auth_roundtrip [OF assms(1,2,4)] url_not_blank by (simp add: build_target_def)
  moreover have "display_endpoint b64 (ft_endpoint ?t) = Some (scheme @ ''://'' @ host)"
    using no_userinfo [OF assms(1,3)] by (simp add: display_endpoint_def)
  then have "fst (snd (flush_task b64 pr True ?t n (Some r) h)) =
      (if success r then [] else [flush_failure_line pr (scheme @ ''://'' @ host) r])" for r n h
    by (simp add: flush_task_def flush_batch_def drop_booking_def enter_def Let_def)
  ultimately show ?thesis by (intro exI [of _ ?t]) (simp add: flush_request_def)
qed

lemma credentials_not_logged_witness:
  "\<exists>t. build_target id (''https'' @ ''://'' @ percent_encode (\<lambda>c. c \<in> set ''user:'') ''user:p@ss'' @ ''@'' @ ''host:4318'')
       = Some (Some t)
     \<and> fst (snd (flush_task id \<lparr>pr_status = \<lambda>_. ''502 Bad Gateway'', pr_debug = id\<rparr> True t 3 (Some (Response 502 ''down'')) health_zero)) =
       [''OTLP export failed: endpoint=https://host:4318 status=502 Bad Gateway body=down'']"
proof -
  have "valid_utf8 ''user:p@ss''"
    by (rule valid_utf8_ascii) (simp add: is_ascii_def code_def)
  moreover have "CHR ''@'' \<notin> set (authority ''host:4318'')" by (simp add: authority_def)
  moreover have "c \<in> set ''user:'' \<Longrightarrow>
      is_ascii c \<and> c \<notin> {CHR ''%'', CHR ''@'', CHR ''/'', CHR ''?'', CHR ''#''}" for c
    by (auto simp: is_ascii_def code_def)
  ultimately obtain t where
    "build_target id (''https'' @ ''://'' @ percent_encode (\<lambda>c. c \<in> set ''user:'') ''user:p@ss'' @ ''@'' @ ''host:4318'')
       = Some (Some t)"
    "fst (snd (flush_task id \<lparr>pr_status = \<lambda>_. ''502 Bad Gateway'', pr_debug = id\<rparr> True t 3 (Some (Response 502 ''down'')) health_zero)) =
       [flush_failure_line \<lparr>pr_status = \<lambda>_. ''502 Bad Gateway'', pr_debug = id\<rparr> (''https'' @ ''://'' @ ''host:4318'') (Response 502 ''down'')]"
    using credentials_not_logged [of "''https''" "''user:p@ss''" "''host:4318''" "\<lambda>c. c \<in> set ''user:''" id undefined
        "\<lparr>pr_status = \<lambda>_. ''502 Bad Gateway'', pr_debug = id\<rparr>"] by force
  moreover have "truncate_header_value ''down'' 200 = ''down''" by code_simp
  ultimately show ?thesis by auto
qed

text \<open>The configuration view of the control endpoint and of \<open>config check\<close> is another matter: it blanks
  the salt of the key fingerprints, but shows the endpoint as configured, credentials included.\<close>

lemma config_view_shows_credentials:
  "jget (jat (redacted_json cfg) ''export'') ''otlp_endpoint'' = Some (JString (otlp_endpoint (c_export cfg)))"
  by (simp add: redacted_json_def redacted_api_key_def json_obj_def jat_def unwrap_or_def)

end
