(* ===== verification/Spec2Isabelle.thy ===== *)
theory Spec2Isabelle
  imports Engine_Laws Timestamp Export_Tree System_Turns System_Text Ws_Turns Failures
    Overlap_Props Reload_Sections Ranking Flush_Log
begin

text \<open>
  A verification development of the agent trace gateway, a reverse proxy that forwards LLM API
  requests and records every request/response pair (a turn) for tracing.

  \<^bold>\<open>The program.\<close> A request enters through the hooks of \<open>Gateway\<close> (\<open>src/lib.rs\<close>). Its path selects
  a protocol table (\<open>crates/atg-protocol\<close>); it is forwarded by pingora's pump or, with
  \<open>drain.on_cancel\<close>, by the owned relay, which goes on reading the upstream when the client is gone.
  At its end \<open>logging\<close> builds a \<open>TurnRecord\<close> (\<open>crates/atg-model\<close>) from the captured bytes: the SSE
  engine (\<open>src/engine.rs\<close>) extracts the content, \<open>crates/atg-harness\<close> says which agent sent it,
  the prefix stitcher (\<open>trace/prefix.rs\<close>) gives a session to requests that state none. The record goes
  to the in-process window (\<open>trace/store.rs\<close>) and to the OTLP exporter (\<open>trace/export.rs\<close>). All of it is
  configured by one file (\<open>config.rs\<close>) that can be reloaded (\<open>config_store.rs\<close>).

  \<^bold>\<open>Conventions.\<close> Rust's \<open>u64\<close>, \<open>u32\<close>, \<open>i64\<close> and atomics are words of that width: \<open>+\<close> wraps,
  saturating operations are \<open>sat_*\<close>. \<open>usize\<close> is a \<open>nat\<close> bounded by \<open>usize_max = 2^64 - 1\<close> where the
  code saturates. Strings and byte buffers are lists of bytes (UTF-8); a \<open>BTreeMap\<close> of serde_json is
  its sorted list of entries. Errors are \<open>option\<close> or sums; a panic that can happen is \<open>None\<close>. A shared
  object with interior mutability is its state, passed explicitly; components with several threads are
  step functions over events (\<open>Refinement\<close>), so a history is any list of events, and \<open>None\<close> means
  that an event cannot happen in a state. serde_json's parser and printer, the TOML reader, sha256,
  base64, name resolution, the clock and the network are parameters: the hypotheses on them are stated
  in the theorems that need any.

  \<^bold>\<open>Theories, and what their lemmas show.\<close>

  \<^item> \<open>Prelude\<close>, \<open>Utf8\<close>, \<open>Json\<close>: the standard-library functions the code uses (saturating arithmetic,
    splitting, trimming, number printing and parsing, lossy UTF-8, \<open>serde_json::Value\<close> readers) with
    their laws, and the collections of automation.
  \<^item> \<open>Refinement\<close>, \<open>Eviction\<close>, \<open>Chunked\<close>, \<open>Stepped\<close>: the interfaces, as locales: forward simulation and
    termination of step functions, loops that evict until something fits, consumers of a byte stream
    that must not depend on its chunking, operations that keep an invariant. Each is interpreted on the
    components that provide it.
  \<^item> \<open>Model\<close> (\<open>atg-model\<close>), \<open>Protocol\<close>, \<open>Descriptors\<close>, \<open>Usage\<close>, \<open>Session\<close> (\<open>atg-protocol\<close>), \<open>Harness\<close>
    (\<open>atg-harness\<close>), \<open>Unpack\<close> (\<open>trace/unpack.rs\<close>): records, the protocol tables and their evaluators.
    The table of path detection, exclusive usage buckets that add up without wrapping, the language of
    the legacy session ids, the ranking of harness evidence, agreement of the two session pipelines.
  \<^item> \<open>Engine\<close>, \<open>Engine_Laws\<close> (\<open>engine.rs\<close>): frame splitting, accumulator, whole-body and incremental
    pass. The incremental pass equals the whole-body one for every chunking; streamed text and tool
    calls are assembled completely and in order for each protocol.
  \<^item> \<open>Live\<close> (\<open>openai/live.rs\<close>): WebSocket frame parser and Realtime turns: independence of chunking,
    payload cap, record of a turn.
  \<^item> \<open>Capture\<close>, \<open>Store\<close>, \<open>Prefix\<close>: the content cap, the bounded window, the session stitcher: what is
    evicted and that loops end, answers on every branch, sessions never shared by accident.
  \<^item> \<open>Config\<close>, \<open>Config_Store\<close>: loading and validation, transactional reload, complete difference.
  \<^item> \<open>Metrics\<close>, \<open>Gauges\<close>, \<open>Control\<close>: histograms, gauges under interleaved requests, the exposition and
    the JSON views; the salt of the key fingerprints is never served.
  \<^item> \<open>Timestamp\<close>, \<open>Export_Url\<close>, \<open>Export_Span\<close>, \<open>Export_Pool\<close>, \<open>Export_Laws\<close> (\<open>trace/export.rs\<close>): instants,
    endpoint and credentials, the OTLP document, and the pool: queue, batcher, flush tasks, permits.
    \<open>Export_Tree\<close> is the pinned reference, a tree of maps, with which the writer agrees byte for byte.
    The pool refines a ledger in which each record is held, delivered or lost exactly once, stays
    bounded, follows the configured width and drains on shutdown.
  \<^item> \<open>Evidence\<close>, \<open>Routing\<close> (\<open>lib.rs\<close>): header evidence and key fingerprint, where a request goes.
  \<^item> \<open>Relay\<close>, \<open>Relay_Laws\<close> (\<open>lib.rs\<close>): the request context and the owned relay as a state machine: content
    complete after the loss of the client, every byte accounted for, the drain window.
  \<^item> \<open>Gateway\<close>, \<open>Gateway_Laws\<close> (\<open>lib.rs\<close>): the hooks. At most one record per request and none lost on
    failure, the session of a turn, and the end-to-end statement that a drained turn is recorded with
    the content of the whole stream.
  \<^item> \<open>Ws_Turns\<close>: a Realtime turn through the upgraded hooks, from the frames on the wire in any chunks to
    the one record. \<open>Failures\<close> (\<open>fail_to_proxy\<close>, \<open>fail_to_connect\<close>): log line, error response and record
    agree on every failed exchange.
  \<^item> \<open>Startup\<close> (\<open>lib.rs\<close>, \<open>bin/gateway.rs\<close>): construction, hot apply, SIGHUP, command line: the running
    components always hold the configuration that the requests see.
  \<^item> \<open>System\<close>, \<open>System_Laws\<close>, \<open>System_Props\<close>, \<open>System_Turns\<close>: the whole process, composed from the above:
    requests in any stage, reloads and the batcher interleave as one step function. The invariant of
    the components, records handed once and in order to window and exporter, one snapshot per request,
    every request can end, a drained turn is complete under every interleaving.
  \<^item> \<open>Text\<close>, \<open>Turn_Text\<close>, \<open>System_Text\<close>: what Rust's \<open>String\<close> promises and byte lists do not: valid UTF-8
    is kept by slicing, trimming, joining and truncating, by every reader of the tables and by every
    hook, so every string of every record in the window is text.
  \<^item> \<open>Sections\<close>, \<open>Overlap\<close>, \<open>Overlap_Props\<close>: the hooks cut at every access to shared state, as programs
    that any schedule interleaves. Uninterrupted they are the hooks of \<open>Gateway\<close>; overlapping they amount
    to them, one after the other in the order of the stitcher's lock, except that window and queue
    keep orders of their own; no record is between the two but those of hooks that stand there; and
    no hook can block another.
  \<^item> \<open>Reload_Sections\<close>: a reload cut the same way, among requests: the components are a mixture of two
    configurations while it runs and the snapshot's when it is done, if reloads do not overlap.
  \<^item> \<open>Ranking\<close>: the documented order of harness evidence as a linear order, and \<open>identify\<close> as its minimum.
  \<^item> \<open>Flush_Log\<close>: a flush task from the inside, with its panics and log lines: it ends as \<open>Export_Pool\<close>
    says, and the credentials of the collector are in no line.

  \<^bold>\<open>Loops and bounds.\<close> There is no fuel: structural recursions and measures cover the parsers; the
  eviction loops are \<open>while_option\<close> and are proved to return; the exporter and the relay are driven
  by their events, and the exporter's shutdown is proved to end within a computed number of steps.
  In the process model (\<open>System\<close>) a hook is one step and the stage of a request says which hook may
  come next; \<open>Sections\<close> splits hooks at every shared access. There the release of the gauges by
  \<open>exit_request\<close> is one section (its atomics are independent sums), and the stitcher's limits are read
  in its critical section. A reload is one step in \<open>System\<close> and at most ten in \<open>Reload_Sections\<close>.
  Statements about 64-bit counters bound the number of events by \<open>2^64\<close> where wrapping would matter.

  \<^bold>\<open>Not modelled.\<close> Socket I/O, TLS, HTTP framing and the runtimes (pingora, reqwest, tokio): their
  outcomes are events or arguments. Log lines, except those of a
  failed exchange and of the flush tasks. \<open>catch_unwind\<close>:
  apart from \<open>percent_decode\<close> no definition panics. The parsing of JSON and TOML. Tests and tooling.
\<close>

end
